(* ===== verification/Prelude.thy ===== *)
theory Prelude
  imports Main "HOL-Library.Word" "HOL-Library.AList" "HOL-Library.List_Lexorder" "HOL-Library.Char_ord"
begin

text \<open>
  Shared vocabulary of the development: bytes and big-endian encodings, Go maps as association
  lists, Go errors and the three ways a Go call can end (it returns, it panics, it blocks), and
  the generic lemmas the component theories rest on.
\<close>

named_theorems bytes_simps \<open>facts about big-endian encodings and byte strings\<close>
named_theorems gomap_simps \<open>facts about association lists that model Go maps\<close>

section \<open>Bytes\<close>

type_synonym byte = "8 word"
type_synonym bytes = "8 word list"

text \<open>A Go string is a byte sequence; \<open>str_bytes\<close> is the conversion \<open>[]byte(s)\<close>.\<close>

definition str_bytes :: "string \<Rightarrow> bytes" where
  "str_bytes s = map of_char s"

text \<open>\<open>binary.BigEndian.PutUint32/64\<close> write the low-order bytes of a number, most significant
  byte first; \<open>saferith.Nat.SetBytes\<close> and \<open>big.Int.SetBytes\<close> read such a string back.\<close>

fun be_bytes :: "nat \<Rightarrow> nat \<Rightarrow> bytes" where
  "be_bytes 0 n = []"
| "be_bytes (Suc k) n = be_bytes k (n div 256) @ [of_nat (n mod 256)]"

definition be_nat :: "bytes \<Rightarrow> nat" where
  "be_nat bs = foldl (\<lambda>acc b. acc * 256 + unat b) 0 bs"

text \<open>The verb \<open>%d\<close> of \<open>fmt\<close>.\<close>

fun nat_text :: "nat \<Rightarrow> string" where
  "nat_text n = (if n < 10 then [char_of (48 + n)] else nat_text (n div 10) @ [char_of (48 + n mod 10)])"

definition int_text :: "int \<Rightarrow> string" where
  "int_text k = (if k < 0 then ''-'' @ nat_text (nat (- k)) else nat_text (nat k))"

declare nat_text.simps [simp del]

section \<open>Errors and outcomes of Go calls\<close>

text \<open>An error is a text, or a text wrapped around another error (\<open>fmt.Errorf\<close> with \<open>%w\<close>).\<close>

datatype go_error = Err string | Wrap string go_error

fun error_text :: "go_error \<Rightarrow> string" where
  "error_text (Err s) = s"
| "error_text (Wrap s e) = s @ '': '' @ error_text e"

text \<open>A call returns a value, panics, or blocks forever on a full channel.\<close>

datatype 'a outcome = Ret 'a | Panic | Blocked

fun obind :: "'a outcome \<Rightarrow> ('a \<Rightarrow> 'b outcome) \<Rightarrow> 'b outcome" where
  "obind (Ret x) f = f x"
| "obind Panic f = Panic"
| "obind Blocked f = Blocked"

fun rbind :: "'e + 'a \<Rightarrow> ('a \<Rightarrow> 'e + 'b) \<Rightarrow> 'e + 'b" where
  "rbind (Inl e) f = Inl e"
| "rbind (Inr x) f = f x"

section \<open>Go maps\<close>

text \<open>
  A Go map is an association list with distinct keys. The position of a key in the list is the
  place where \<open>range\<close> visits it: Go fixes no order, and the statements about loops over maps
  are proved for every list, hence for every order.
\<close>

type_synonym ('k, 'v) gomap = "('k \<times> 'v) list"

abbreviation mget :: "('k, 'v) gomap \<Rightarrow> 'k \<Rightarrow> 'v option" where
  "mget m k \<equiv> map_of m k"

abbreviation mput :: "'k \<Rightarrow> 'v \<Rightarrow> ('k, 'v) gomap \<Rightarrow> ('k, 'v) gomap" where
  "mput k v m \<equiv> AList.update k v m"

definition mkeys :: "('k, 'v) gomap \<Rightarrow> 'k list" where
  "mkeys m = map fst m"

definition mvals :: "('k, 'v) gomap \<Rightarrow> 'v list" where
  "mvals m = map snd m"

definition mmap :: "('k \<Rightarrow> 'v \<Rightarrow> 'w) \<Rightarrow> ('k, 'v) gomap \<Rightarrow> ('k, 'w) gomap" where
  "mmap f m = map (\<lambda>(k, v). (k, f k v)) m"

definition mwf :: "('k, 'v) gomap \<Rightarrow> bool" where
  "mwf m \<longleftrightarrow> distinct (map fst m)"

section \<open>Lemmas on bytes\<close>

lemma length_be_bytes [simp, bytes_simps]: "length (be_bytes k n) = k"
  by (induction k arbitrary: n) auto

lemma be_nat_Nil [simp, bytes_simps]: "be_nat [] = 0"
  by (simp add: be_nat_def)

lemma be_nat_snoc [simp, bytes_simps]: "be_nat (bs @ [b]) = be_nat bs * 256 + unat b"
  by (simp add: be_nat_def)

lemma unat_byte_less [simp]: "unat (b :: byte) < 256"
  using unsigned_less[of b, where ?'a = nat] by simp

lemma unat_byte_of_nat_mod [simp]: "unat (of_nat (n mod 256) :: byte) = n mod 256"
  by (simp add: unat_of_nat)

lemma of_nat_unat_byte [simp]: "of_nat (unat (b :: byte)) = b"
  by simp

lemma be_nat_be_bytes [bytes_simps]: "be_nat (be_bytes k n) = n mod 256 ^ k"
proof (induction k arbitrary: n)
  case 0
  then show ?case by simp
next
  case (Suc k)
  have "n mod (256 * 256 ^ k) = 256 * (n div 256 mod 256 ^ k) + n mod 256"
    by (rule mod_mult2_eq)
  then show ?case using Suc by (simp add: mult.commute)
qed

lemma be_nat_less: "be_nat bs < 256 ^ length bs"
proof (induction bs rule: rev_induct)
  case Nil
  then show ?case by simp
next
  case (snoc b bs)
  have "be_nat bs * 256 + unat b < (be_nat bs + 1) * 256"
    using unat_byte_less[of b] by simp
  also have "\<dots> \<le> 256 ^ length bs * 256"
    using snoc by (simp del: mult_Suc)
  finally show ?case by (simp add: mult.commute)
qed

lemma be_bytes_be_nat [bytes_simps]: "be_bytes (length bs) (be_nat bs) = bs"
proof (induction bs rule: rev_induct)
  case Nil
  then show ?case by simp
next
  case (snoc b bs)
  have "(be_nat bs * 256 + unat b) div 256 = be_nat bs"
    using unat_byte_less[of b] by simp
  moreover have "(be_nat bs * 256 + unat b) mod 256 = unat b"
    using unat_byte_less[of b] by (simp add: mod_mult_self3)
  ultimately show ?case using snoc by simp
qed

lemma be_bytes_inject:
  assumes "be_bytes k m = be_bytes k n" and "m < 256 ^ k" and "n < 256 ^ k"
  shows "m = n"
  using assms by (metis be_nat_be_bytes mod_less)

lemma be_nat_inject:
  assumes "be_nat xs = be_nat ys" and "length xs = length ys"
  shows "xs = ys"
  using assms by (metis be_bytes_be_nat)

lemma unat_of_char_byte [simp]: "unat (of_char c :: byte) = of_char c"
proof -
  have "(of_char c :: byte) = of_nat (of_char c)"
    by (rule of_nat_of_char[symmetric])
  moreover have "unat (of_nat (of_char c) :: byte) = (of_char c :: nat) mod 256"
    by (simp add: unat_of_nat)
  ultimately show ?thesis
    by (simp only: of_char_mod_256)
qed

lemma of_char_byte_inject [simp]: "(of_char c :: byte) = of_char d \<longleftrightarrow> c = d"
  by (metis unat_of_char_byte of_char_eq_iff)

lemma str_bytes_inject [simp]: "str_bytes s = str_bytes t \<longleftrightarrow> s = t"
  unfolding str_bytes_def by (rule inj_map_eq_map) (simp add: inj_on_def)

lemma str_bytes_append [simp]: "str_bytes (s @ t) = str_bytes s @ str_bytes t"
  by (simp add: str_bytes_def)

lemma length_str_bytes [simp]: "length (str_bytes s) = length s"
  by (simp add: str_bytes_def)

section \<open>Lemmas on Go maps\<close>

lemma mget_mput [simp, gomap_simps]: "mget (mput k v m) k' = (if k' = k then Some v else mget m k')"
  by (simp add: update_conv')

lemma mwf_mput [simp, intro]: "mwf m \<Longrightarrow> mwf (mput k v m)"
  by (simp add: mwf_def distinct_update)

lemma mwf_Nil [simp, intro]: "mwf []"
  by (simp add: mwf_def)

lemma mwf_single [simp, intro]: "mwf [(k, v)]"
  by (simp add: mwf_def)

lemma set_mkeys: "set (mkeys m) = dom (map_of m)"
  by (simp add: mkeys_def dom_map_of_conv_image_fst)

lemma set_mkeys_mput [simp, gomap_simps]: "set (mkeys (mput k v m)) = insert k (set (mkeys m))"
  by (simp add: set_mkeys update_conv')

lemma mkeys_mmap [simp, gomap_simps]: "mkeys (mmap f m) = mkeys m"
  by (auto simp: mkeys_def mmap_def)

lemma mwf_mmap [simp, gomap_simps]: "mwf (mmap f m) = mwf m"
  by (simp add: mwf_def mkeys_mmap[unfolded mkeys_def])

lemma mget_mmap [simp, gomap_simps]: "mget (mmap f m) k = map_option (f k) (mget m k)"
  by (induction m) (auto simp: mmap_def)

lemma sum_list_mvals:
  fixes f :: "'v \<Rightarrow> 'a::comm_monoid_add"
  assumes "mwf m"
  shows "(\<Sum>v\<leftarrow>mvals m. f v) = (\<Sum>k\<in>set (mkeys m). f (the (mget m k)))"
  using assms
proof (induction m)
  case Nil
  then show ?case by (simp add: mvals_def mkeys_def)
next
  case (Cons kv m)
  obtain k v where [simp]: "kv = (k, v)" by force
  have k: "k \<notin> set (mkeys m)" and wf: "mwf m"
    using Cons.prems by (auto simp: mwf_def mkeys_def)
  have eq: "(\<Sum>x\<in>set (mkeys m). f (the (mget (kv # m) x)))
      = (\<Sum>x\<in>set (mkeys m). f (the (mget m x)))"
    using k by (intro sum.cong) auto
  have "(\<Sum>v\<leftarrow>mvals (kv # m). f v) = f v + (\<Sum>v\<leftarrow>mvals m. f v)"
    by (simp add: mvals_def)
  also have "\<dots> = f v + (\<Sum>x\<in>set (mkeys m). f (the (mget (kv # m) x)))"
    using Cons.IH[OF wf] eq by simp
  also have "\<dots> = (\<Sum>x\<in>insert k (set (mkeys m)). f (the (mget (kv # m) x)))"
    using k by (subst sum.insert) (auto simp: mkeys_def)
  finally show ?case by (simp add: mkeys_def)
qed

end
