(* ===== verification/Party.thy ===== *)
theory Party
  imports Prelude
begin

text \<open>
  Party identifiers and sorted identifier slices: \<open>pkg/party/id.go\<close> and
  \<open>pkg/party/idslice.go\<close>. An \<open>ID\<close> is a Go string; Go compares strings byte by byte, which is
  the lexicographic order on \<open>string\<close>. The binary search is Go's \<open>sort.Search\<close>.
\<close>

type_synonym ID = string

section \<open>Identifiers\<close>

text \<open>\<open>ID.Scalar\<close>: the bytes of the identifier, read big-endian, as a scalar. \<open>SetNat\<close> interprets
  the number modulo the group order, which is what \<open>of_nat\<close> does in the scalar field.\<close>

definition ID_Scalar :: "ID \<Rightarrow> 's::field" where
  "ID_Scalar i = of_nat (be_nat (str_bytes i))"

definition ID_WriteTo :: "ID \<Rightarrow> go_error + bytes" where
  "ID_WriteTo i = (if i = '''' then Inl (Err ''unexpected EOF'') else Inr (str_bytes i))"

definition ID_Domain :: string where
  "ID_Domain = ''ID''"

section \<open>Identifier slices\<close>

type_synonym IDSlice = "ID list"

definition NewIDSlice :: "ID list \<Rightarrow> IDSlice" where
  "NewIDSlice partyIDs = sort partyIDs"

text \<open>\<open>sort.Search(n, f)\<close>: the loop that halves the interval \<open>[i, j)\<close>.\<close>

function sort_Search_loop :: "(nat \<Rightarrow> bool) \<Rightarrow> nat \<Rightarrow> nat \<Rightarrow> nat" where
  "sort_Search_loop f i j =
     (if i < j
      then (let h = (i + j) div 2
            in if \<not> f h then sort_Search_loop f (h + 1) j else sort_Search_loop f i h)
      else i)"
  by pat_completeness auto
termination
  by (relation "measure (\<lambda>(f, i, j). j - i)") auto

declare sort_Search_loop.simps [simp del]

definition sort_Search :: "nat \<Rightarrow> (nat \<Rightarrow> bool) \<Rightarrow> nat" where
  "sort_Search n f = sort_Search_loop f 0 n"

definition search :: "IDSlice \<Rightarrow> ID \<Rightarrow> nat \<times> bool" where
  "search partyIDs x =
     (let index = sort_Search (length partyIDs) (\<lambda>i. partyIDs ! i \<ge> x)
      in if index < length partyIDs \<and> partyIDs ! index = x then (index, True) else (0, False))"

text \<open>\<open>Contains\<close> takes a variable number of identifiers and stops at the first one missing.\<close>

fun Contains :: "IDSlice \<Rightarrow> ID list \<Rightarrow> bool" where
  "Contains partyIDs [] = True"
| "Contains partyIDs (x # xs) = (if \<not> snd (search partyIDs x) then False else Contains partyIDs xs)"

text \<open>\<open>Valid\<close> compares neighbours, so it refuses unsorted slices and duplicates.\<close>

fun Valid :: "IDSlice \<Rightarrow> bool" where
  "Valid (x # y # ids) = (if x \<ge> y then False else Valid (y # ids))"
| "Valid ids = True"

definition Remove :: "IDSlice \<Rightarrow> ID \<Rightarrow> IDSlice" where
  "Remove partyIDs i = filter (\<lambda>partyID. partyID \<noteq> i) partyIDs"

text \<open>\<open>IDSlice.WriteTo\<close>: the length as eight bytes, then the identifiers with nothing between
  them. A nil slice is an error.\<close>

definition IDSlice_WriteTo :: "IDSlice option \<Rightarrow> go_error + bytes" where
  "IDSlice_WriteTo p = (case p of
       None \<Rightarrow> Inl (Err ''unexpected EOF'')
     | Some partyIDs \<Rightarrow> Inr (be_bytes 8 (length partyIDs) @ concat (map str_bytes partyIDs)))"

definition IDSlice_Domain :: string where
  "IDSlice_Domain = ''IDSlice''"

section \<open>Binary search\<close>

text \<open>The loop invariant: everything below \<open>i\<close> fails the test, everything from \<open>j\<close> on passes.\<close>

lemma sort_Search_loop_correct:
  assumes "\<forall>a b. a \<le> b \<longrightarrow> f a \<longrightarrow> f b"
    and "\<forall>k<i. \<not> f k" and "\<forall>k\<ge>j. k < n \<longrightarrow> f k" and "i \<le> j" and "j \<le> n"
  shows "(\<forall>k < sort_Search_loop f i j. \<not> f k) \<and> (\<forall>k\<ge>sort_Search_loop f i j. k < n \<longrightarrow> f k)"
  using assms
proof (induction f i j rule: sort_Search_loop.induct)
  case (1 f i j)
  note up = "1.prems"(1)
  define h where "h = (i + j) div 2"
  consider "\<not> i < j" | "i < j" "f h" | "i < j" "\<not> f h" by blast
  then show ?case
  proof cases
    case 1
    then have "sort_Search_loop f i j = i" by (simp add: sort_Search_loop.simps[of f i j])
    then show ?thesis using 1 "1.prems"(2-5) by simp
  next
    case 2
    then have eq: "sort_Search_loop f i j = sort_Search_loop f i h"
      by (simp add: sort_Search_loop.simps[of f i j] h_def[symmetric])
    have a: "\<forall>k\<ge>h. k < n \<longrightarrow> f k" using up 2(2) by blast
    have b: "i \<le> h" "h \<le> n" using 2(1) "1.prems"(5) by (auto simp: h_def)
    have "\<not> \<not> f h" using 2(2) by simp
    from "1.IH"(2)[OF 2(1) h_def this up "1.prems"(2) a b] show ?thesis unfolding eq .
  next
    case 3
    then have eq: "sort_Search_loop f i j = sort_Search_loop f (h + 1) j"
      by (simp add: sort_Search_loop.simps[of f i j] h_def[symmetric])
    have a: "\<forall>k<h + 1. \<not> f k" using up 3(2) by (auto simp: less_Suc_eq_le)
    have b: "h + 1 \<le> j" using 3(1) by (simp add: h_def)
    from "1.IH"(1)[OF 3(1) h_def 3(2) up a "1.prems"(3) b "1.prems"(5)] show ?thesis unfolding eq .
  qed
qed

section \<open>Valid slices\<close>

lemma Valid_iff: "Valid ids \<longleftrightarrow> sorted_wrt (<) ids"
proof (induction ids rule: Valid.induct)
  case (1 x y ids)
  then show ?case by (auto simp: not_le intro: order.strict_trans)
qed auto

lemma Valid_sorted_distinct: "Valid ids \<longleftrightarrow> sorted ids \<and> distinct ids"
  by (simp add: Valid_iff strict_sorted_iff)

lemma Valid_NewIDSlice: "Valid (NewIDSlice ids) \<longleftrightarrow> distinct ids"
  by (simp add: Valid_sorted_distinct NewIDSlice_def)

lemma set_NewIDSlice [simp]: "set (NewIDSlice ids) = set ids"
  by (simp add: NewIDSlice_def)

lemma length_NewIDSlice [simp]: "length (NewIDSlice ids) = length ids"
  by (simp add: NewIDSlice_def)

lemma Valid_Remove [intro]: "Valid ids \<Longrightarrow> Valid (Remove ids i)"
  by (simp add: Valid_iff Remove_def sorted_wrt_filter)

lemma set_Remove [simp]: "set (Remove ids i) = set ids - {i}"
  by (auto simp: Remove_def)

lemma search_sorted:
  assumes "sorted ids"
  shows "snd (search ids x) \<longleftrightarrow> x \<in> set ids"
    and "snd (search ids x) \<Longrightarrow> fst (search ids x) < length ids \<and> ids ! fst (search ids x) = x"
proof -
  define n f where "n = length ids" and "f = (\<lambda>i. i < n \<longrightarrow> ids ! i \<ge> x)"
  define r where "r = sort_Search n (\<lambda>i. ids ! i \<ge> x)"
  have loop_cong: "sort_Search_loop g i j = sort_Search_loop f i j"
    if "j \<le> n" and "\<And>k. k < n \<Longrightarrow> g k = f k" for g i j
    using that
  proof (induction g i j rule: sort_Search_loop.induct)
    case (1 g i j)
    then show ?case
      by (simp add: sort_Search_loop.simps[of g i j] sort_Search_loop.simps[of f i j] Let_def)
  qed
  have r: "r = sort_Search_loop f 0 n"
    unfolding r_def sort_Search_def by (rule loop_cong) (auto simp: f_def)
  have "\<forall>a b. a \<le> b \<longrightarrow> f a \<longrightarrow> f b"
    using assms by (auto simp: f_def n_def sorted_iff_nth_mono intro: order_trans)
  then have inv: "(\<forall>k<r. \<not> f k) \<and> (\<forall>k\<ge>r. k < n \<longrightarrow> f k)"
    unfolding r by (intro sort_Search_loop_correct) (auto simp: f_def)
  have "x \<in> set ids \<Longrightarrow> r < n \<and> ids ! r = x"
  proof -
    assume "x \<in> set ids"
    then obtain k where k: "k < n" "ids ! k = x"
      by (auto simp: in_set_conv_nth n_def)
    then have rk: "r \<le> k"
      using inv by (metis f_def not_le order_refl)
    then have "ids ! r \<le> x"
      using k assms by (auto simp: n_def sorted_iff_nth_mono)
    moreover have "ids ! r \<ge> x"
      using inv rk k by (auto simp: f_def)
    ultimately show ?thesis using rk k by auto
  qed
  moreover have "search ids x = (if r < n \<and> ids ! r = x then (r, True) else (0, False))"
    by (simp add: search_def r_def n_def Let_def)
  ultimately show "snd (search ids x) \<longleftrightarrow> x \<in> set ids"
    and "snd (search ids x) \<Longrightarrow> fst (search ids x) < length ids \<and> ids ! fst (search ids x) = x"
    by (auto simp: n_def split: if_splits)
qed

lemma Contains_set: "Valid ids \<Longrightarrow> Contains ids xs \<longleftrightarrow> set xs \<subseteq> set ids"
  by (induction xs) (auto simp: search_sorted(1) Valid_sorted_distinct)

lemma Contains_sorted: "sorted ids \<Longrightarrow> Contains ids xs \<longleftrightarrow> set xs \<subseteq> set ids"
  by (induction xs) (auto simp: search_sorted(1))

section \<open>Properties\<close>

text \<open>C31: On a valid slice (sorted, without duplicates) the binary search of \<open>Contains\<close> decides
  whether all given identifiers are in the slice.\<close>

theorem contains_decides_membership: "Valid ids \<Longrightarrow> Contains ids xs \<longleftrightarrow> set xs \<subseteq> set ids"
  by (rule Contains_set)

theorem contains_decides_membership_witness:
  "Valid [''a'', ''b'', ''d''] \<and> Contains [''a'', ''b'', ''d''] [''d'', ''a''] \<and>
   \<not> Contains [''a'', ''b'', ''d''] [''c'']"
proof -
  have v: "Valid [''a'', ''b'', ''d'']" by code_simp
  show ?thesis
    using v contains_decides_membership[OF v, of "[''d'', ''a'']"]
      contains_decides_membership[OF v, of "[''c'']"]
    by (simp del: Contains.simps Valid.simps)
qed

end
