(* ===== verification/Hash.thy ===== *)
theory Hash
  imports Party
begin

text \<open>
  The hash wrapper and commitments: \<open>pkg/hash/hash.go\<close>, \<open>pkg/hash/commit.go\<close>,
  \<open>pkg/hash/writerto.go\<close> and the hashed types of \<open>internal/types\<close>.

  \<open>blake3.Hasher\<close> is third-party code. Its state after a sequence of writes is the concatenation of
  the bytes written, so a \<open>Hash\<close> is that byte string, and the output stream it stands for is the
  parameter \<open>blake3\<close>: the number of an output byte to that byte.
\<close>

type_synonym xof = "bytes \<Rightarrow> nat \<Rightarrow> byte"
type_synonym hash = bytes

section \<open>Domain-separated writes\<close>

text \<open>What \<open>WriteAny\<close> is given: nil or non-nil byte slices and big integers, a value with a domain
  and the result of its \<open>WriteTo\<close>, a value with its type name and the result of its
  \<open>MarshalBinary\<close>, or a value of any other type.\<close>

datatype any =
    AnyBytes "bytes option"
  | AnyBigInt "int option"
  | AnyWriterTo string "go_error + bytes"
  | AnyMarshaler string "go_error + bytes"
  | AnyInvalid

record BytesWithDomain =
  TheDomain :: string
  Bytes :: "bytes option"

definition BytesWithDomain_WriteTo :: "BytesWithDomain \<Rightarrow> go_error + bytes" where
  "BytesWithDomain_WriteTo b = (case Bytes b of
       None \<Rightarrow> Inl (Err ''unexpected EOF'') | Some x \<Rightarrow> Inr x)"

abbreviation any_bwd :: "string \<Rightarrow> bytes option \<Rightarrow> any" where
  "any_bwd d b \<equiv> AnyWriterTo d (BytesWithDomain_WriteTo \<lparr>TheDomain = d, Bytes = b\<rparr>)"

text \<open>\<open>big.Int.GobEncode\<close>: a version and sign byte, then the magnitude without leading zeros.\<close>

fun nat_bytes :: "nat \<Rightarrow> bytes" where
  "nat_bytes n = (if n = 0 then [] else nat_bytes (n div 256) @ [of_nat (n mod 256)])"

declare nat_bytes.simps [simp del]

definition GobEncode :: "int \<Rightarrow> bytes" where
  "GobEncode i = (if i < 0 then 3 else 2) # nat_bytes (nat \<bar>i\<bar>)"

text \<open>The \<open>switch\<close> of \<open>WriteAny\<close>: the domain and bytes to be written, or the error. The Go type which the error
  text names is left out for a \<open>WriterToWithDomain\<close>; a marshaler has it as its domain.\<close>

fun toBeWritten :: "any \<Rightarrow> go_error + string \<times> bytes" where
  "toBeWritten (AnyBytes None) = Inl (Err ''hash.WriteAny: nil []byte'')"
| "toBeWritten (AnyBytes (Some t)) = Inr (''[]byte'', t)"
| "toBeWritten (AnyBigInt None) = Inl (Err ''hash.WriteAny: write *big.Int: nil'')"
| "toBeWritten (AnyBigInt (Some i)) = Inr (''big.Int'', GobEncode i)"
| "toBeWritten (AnyWriterTo d r) = (case r of
     Inl e \<Rightarrow> Inl (Wrap ''hash.WriteAny'' e) | Inr b \<Rightarrow> Inr (d, b))"
| "toBeWritten (AnyMarshaler n r) = (case r of
     Inl e \<Rightarrow> Inl (Wrap (''hash.WriteAny: '' @ n) e) | Inr b \<Rightarrow> Inr (n, b))"
| "toBeWritten AnyInvalid = Inl (Err ''hash.WriteAny: invalid type provided as input'')"

text \<open>One separated piece \<open>(<domain_size><domain><data_size><data>)\<close>.\<close>

fun frame :: "string \<times> bytes \<Rightarrow> bytes" where
  "frame (d, x) = str_bytes ''('' @ be_bytes 8 (length d) @ str_bytes d
     @ be_bytes 8 (length x) @ x @ str_bytes '')''"

fun WriteAny :: "hash \<Rightarrow> any list \<Rightarrow> hash \<times> go_error option" where
  "WriteAny h [] = (h, None)"
| "WriteAny h (d # ds) = (case toBeWritten d of
     Inl e \<Rightarrow> (h, Some e)
   | Inr dx \<Rightarrow> WriteAny (h @ frame dx) ds)"

text \<open>\<open>New\<close> writes each initial item with its own call and ignores its error.\<close>

definition hash_New :: "any list \<Rightarrow> hash" where
  "hash_New initialData = foldl (\<lambda>h d. fst (WriteAny h [d])) (str_bytes ''CMP-BLAKE'') initialData"

definition DigestLengthBytes :: nat where
  "DigestLengthBytes = 64"

definition SecBytes :: nat where
  "SecBytes = 32"

definition hash_Sum :: "xof \<Rightarrow> hash \<Rightarrow> bytes" where
  "hash_Sum blake3 h = map (blake3 h) [0..<DigestLengthBytes]"

definition hash_Fork :: "hash \<Rightarrow> any list \<Rightarrow> hash" where
  "hash_Fork h ds = fst (WriteAny h ds)"

section \<open>Commitments\<close>

type_synonym Commitment = bytes
type_synonym Decommitment = bytes

definition Commitment_Validate :: "Commitment \<Rightarrow> go_error option" where
  "Commitment_Validate c =
     (if length c \<noteq> DigestLengthBytes then Some (Err ''commitment: incorrect length'')
      else if \<exists>b\<in>set c. b \<noteq> 0 then None
      else Some (Err ''commitment: commitment is 0''))"

definition Decommitment_Validate :: "Decommitment \<Rightarrow> go_error option" where
  "Decommitment_Validate d =
     (if length d \<noteq> SecBytes then Some (Err ''decommitment: incorrect length'')
      else if \<exists>b\<in>set d. b \<noteq> 0 then None
      else Some (Err ''decommitment: decommitment is 0''))"

definition any_Decommitment :: "Decommitment \<Rightarrow> any" where
  "any_Decommitment d = AnyWriterTo ''Decommitment'' (Inr d)"

text \<open>\<open>Commit\<close>: the random decommitment is the argument \<open>u\<close>, \<open>None\<close> when \<open>rand.Read\<close> fails.\<close>

definition hash_Commit ::
    "xof \<Rightarrow> hash \<Rightarrow> bytes option \<Rightarrow> any list \<Rightarrow> go_error + Commitment \<times> Decommitment" where
  "hash_Commit blake3 h u data = (case u of
       None \<Rightarrow> Inl (Err ''hash.Commit: failed to generate decommitment'')
     | Some decommitment \<Rightarrow> (case WriteAny h data of
         (_, Some e) \<Rightarrow> Inl (Wrap ''hash.Commit: failed to write data'' e)
       | (h', None) \<Rightarrow>
           Inr (hash_Sum blake3 (fst (WriteAny h' [any_Decommitment decommitment])), decommitment)))"

definition hash_Decommit :: "xof \<Rightarrow> hash \<Rightarrow> Commitment \<Rightarrow> Decommitment \<Rightarrow> any list \<Rightarrow> bool" where
  "hash_Decommit blake3 h c d data =
     (if Commitment_Validate c \<noteq> None then False
      else if Decommitment_Validate d \<noteq> None then False
      else case WriteAny h data of
        (_, Some e) \<Rightarrow> False
      | (h', None) \<Rightarrow> hash_Sum blake3 (fst (WriteAny h' [any_Decommitment d])) = c)"

section \<open>Hashed types\<close>

text \<open>\<open>types.RID\<close>, 32 bytes combined by exclusive or. Indexing past the end of a slice panics.\<close>

type_synonym RID = bytes

definition EmptyRID :: RID where
  "EmptyRID = replicate SecBytes 0"

definition RID_XOR :: "RID \<Rightarrow> RID \<Rightarrow> RID outcome" where
  "RID_XOR rid otherRID =
     (if length rid < SecBytes \<or> length otherRID < SecBytes then Panic
      else Ret (map2 xor (take SecBytes rid) (take SecBytes otherRID) @ drop SecBytes rid))"

definition RID_Validate :: "RID \<Rightarrow> go_error option" where
  "RID_Validate rid =
     (if length rid \<noteq> SecBytes then Some (Err ''rid: incorrect length'')
      else if \<exists>b\<in>set rid. b \<noteq> 0 then None
      else Some (Err ''rid: rid is 0''))"

definition any_RID :: "RID option \<Rightarrow> any" where
  "any_RID rid = AnyWriterTo ''RID'' (case rid of None \<Rightarrow> Inl (Err ''unexpected EOF'') | Some r \<Rightarrow> Inr r)"

text \<open>\<open>types.ThresholdWrapper\<close> is a \<open>uint32\<close>, written as four bytes.\<close>

definition any_Threshold :: "int \<Rightarrow> any" where
  "any_Threshold t = AnyWriterTo ''Threshold'' (Inr (be_bytes 4 (nat (t mod 2 ^ 32))))"

definition any_ID :: "ID \<Rightarrow> any" where
  "any_ID i = AnyWriterTo ID_Domain (ID_WriteTo i)"

definition any_IDSlice :: "IDSlice option \<Rightarrow> any" where
  "any_IDSlice p = AnyWriterTo IDSlice_Domain (IDSlice_WriteTo p)"

section \<open>Prefix codes\<close>

text \<open>The contract of an encoding that delimits itself: what follows a code word cannot change how
  it is read, so a sequence of code words is read in one way only.\<close>

locale prefix_code =
  fixes enc :: "'a \<Rightarrow> 'b list" and ok :: "'a \<Rightarrow> bool"
  assumes enc_prefix: "ok x \<Longrightarrow> ok y \<Longrightarrow> enc x @ r = enc y @ s \<Longrightarrow> x = y \<and> r = s"
    and enc_nonempty: "ok x \<Longrightarrow> enc x \<noteq> []"
begin

lemma concat_inject:
  assumes "list_all ok xs" and "list_all ok ys"
    and "concat (map enc xs) = concat (map enc ys)"
  shows "xs = ys"
  using assms
proof (induction xs arbitrary: ys)
  case Nil
  then show ?case
    by (cases ys) (auto simp: enc_nonempty)
next
  case (Cons x xs)
  then obtain y ys' where ys: "ys = y # ys'"
    by (cases ys) (auto simp: enc_nonempty)
  have "x = y \<and> concat (map enc xs) = concat (map enc ys')"
    using Cons.prems by (intro enc_prefix) (auto simp: ys)
  then show ?case
    using Cons.IH[of ys'] Cons.prems by (auto simp: ys)
qed

end

definition frame_ok :: "string \<times> bytes \<Rightarrow> bool" where
  "frame_ok dx \<longleftrightarrow> length (fst dx) < 2 ^ 64 \<and> length (snd dx) < 2 ^ 64"

lemma be_bytes_8_inject: "be_bytes 8 m = be_bytes 8 n \<Longrightarrow> m < 2 ^ 64 \<Longrightarrow> n < 2 ^ 64 \<Longrightarrow> m = n"
  by (rule be_bytes_inject[of 8]) auto

lemma frame_prefix:
  assumes "frame_ok (d, x)" and "frame_ok (d', x')" and "frame (d, x) @ r = frame (d', x') @ s"
  shows "d = d' \<and> x = x' \<and> r = s"
proof -
  have 1: "be_bytes 8 (length d) @ str_bytes d @ be_bytes 8 (length x) @ x @ str_bytes '')'' @ r
      = be_bytes 8 (length d') @ str_bytes d' @ be_bytes 8 (length x') @ x' @ str_bytes '')'' @ s"
    using assms(3) by simp
  then have "be_bytes 8 (length d) = be_bytes 8 (length d')" and
    2: "str_bytes d @ be_bytes 8 (length x) @ x @ str_bytes '')'' @ r
      = str_bytes d' @ be_bytes 8 (length x') @ x' @ str_bytes '')'' @ s"
    by (simp_all add: append_eq_append_conv)
  then have ld: "length d = length d'"
    using assms(1,2) by (auto simp: frame_ok_def intro: be_bytes_8_inject)
  have d: "d = d'" and
    3: "be_bytes 8 (length x) @ x @ str_bytes '')'' @ r = be_bytes 8 (length x') @ x' @ str_bytes '')'' @ s"
    using 2 ld by (simp_all add: append_eq_append_conv)
  then have "length x = length x'"
    using assms(1,2) by (auto simp: frame_ok_def append_eq_append_conv intro: be_bytes_8_inject)
  then show ?thesis using d 3 by (simp add: append_eq_append_conv)
qed

interpretation frame_code: prefix_code frame frame_ok
proof
  fix x y :: "string \<times> bytes" and r s
  assume ok: "frame_ok x" "frame_ok y" and eq: "frame x @ r = frame y @ s"
  obtain d b d' b' where [simp]: "x = (d, b)" "y = (d', b')"
    by (metis prod.collapse)
  show "x = y \<and> r = s"
    using frame_prefix[OF ok[simplified] eq[unfolded \<open>x = (d, b)\<close> \<open>y = (d', b')\<close>]] by simp
next
  show "frame x \<noteq> []" for x :: "string \<times> bytes"
    by (cases x) (simp add: str_bytes_def)
qed

section \<open>Facts about writes and commitments\<close>

lemma WriteAny_append:
  "WriteAny h (xs @ ys) = (case WriteAny h xs of
     (h', Some e) \<Rightarrow> (h', Some e) | (h', None) \<Rightarrow> WriteAny h' ys)"
  by (induction h xs rule: WriteAny.induct) (auto split: sum.splits)

text \<open>A successful write appends exactly the frames of its arguments.\<close>

lemma WriteAny_frames:
  assumes "WriteAny h ds = (h', None)"
  shows "\<exists>fs. map toBeWritten ds = map Inr fs \<and> h' = h @ concat (map frame fs)"
  using assms
proof (induction h ds arbitrary: h' rule: WriteAny.induct)
  case (1 h)
  then show ?case by auto
next
  case (2 h d ds)
  then obtain dx where dx: "toBeWritten d = Inr dx" and "WriteAny (h @ frame dx) ds = (h', None)"
    by (auto split: sum.splits)
  then obtain fs where "map toBeWritten ds = map Inr fs" and "h' = (h @ frame dx) @ concat (map frame fs)"
    using "2.IH"[OF dx] by blast
  then show ?case
    using dx by (intro exI[of _ "dx # fs"]) auto
qed

lemma WriteAny_frames_conv:
  "map toBeWritten ds = map Inr fs \<Longrightarrow> WriteAny h ds = (h @ concat (map frame fs), None)"
  by (induction ds arbitrary: h fs) (auto simp: Cons_eq_map_conv)

lemma map_Inr_inject: "map Inr xs = map Inr ys \<longleftrightarrow> xs = ys"
  by (simp add: inj_map_eq_map)

definition any_ok :: "any \<Rightarrow> bool" where
  "any_ok a \<longleftrightarrow> (case toBeWritten a of Inl _ \<Rightarrow> True | Inr dx \<Rightarrow> frame_ok dx)"

lemma WriteAny_inject:
  assumes "list_all any_ok xs" and "list_all any_ok ys"
    and x: "WriteAny h xs = (h1, None)" and y: "WriteAny h ys = (h2, None)" and "h1 = h2"
  shows "map toBeWritten xs = map toBeWritten ys"
proof -
  obtain fs where fs: "map toBeWritten xs = map Inr fs" "h1 = h @ concat (map frame fs)"
    using WriteAny_frames[OF x] by blast
  obtain gs where gs: "map toBeWritten ys = map Inr gs" "h2 = h @ concat (map frame gs)"
    using WriteAny_frames[OF y] by blast
  have ok: "list_all frame_ok us" if "map toBeWritten zs = map Inr us" and "list_all any_ok zs" for zs us
    using that by (induction zs arbitrary: us) (auto simp: any_ok_def Cons_eq_map_conv)
  have "fs = gs"
    using frame_code.concat_inject[of fs gs] ok[OF fs(1) assms(1)] ok[OF gs(1) assms(2)] fs gs assms(5)
    by simp
  then show ?thesis using fs gs by simp
qed

lemma hash_New_Nil: "hash_New [] = str_bytes ''CMP-BLAKE''"
  by (simp add: hash_New_def)

lemma length_hash_Sum [simp]: "length (hash_Sum blake3 h) = DigestLengthBytes"
  by (simp add: hash_Sum_def)

lemma commit_decommit:
  assumes "hash_Commit blake3 h u data = Inr (c, d)"
  shows "hash_Decommit blake3 h c d data
    \<longleftrightarrow> Commitment_Validate c = None \<and> Decommitment_Validate d = None"
  using assms
  by (auto simp: hash_Commit_def hash_Decommit_def split: option.splits prod.splits)

lemma decommit_transcript:
  assumes "hash_Decommit b3 h c d data"
  shows "\<exists>v. WriteAny h (data @ [any_Decommitment d]) = (v, None) \<and> hash_Sum b3 v = c \<and> length d = 32"
  using assms
  by (auto simp: hash_Decommit_def WriteAny_append any_Decommitment_def Decommitment_Validate_def SecBytes_def
      split: if_splits prod.splits option.splits)

lemma RID_XOR_length: "RID_XOR a b = Ret c \<Longrightarrow> length c = length a"
  by (auto simp: RID_XOR_def split: if_splits)

section \<open>Properties\<close>

text \<open>C24: The transcript is injective: if two sequences of values are written to the same hash state
  without an error and lead to the same state, then they were the same sequence of domains and bytes
  (all lengths below \<open>2^64\<close>).\<close>

theorem transcript_injective:
  assumes "list_all any_ok xs" and "list_all any_ok ys"
    and "WriteAny h xs = (h', None)" and "WriteAny h ys = (h', None)"
  shows "map toBeWritten xs = map toBeWritten ys"
  by (rule WriteAny_inject[OF assms refl])

theorem transcript_injective_witness:
  "map toBeWritten [any_ID ''a''] = map toBeWritten [AnyWriterTo ''ID'' (Inr [97])]"
proof (rule transcript_injective[where h = "[]"])
  show "WriteAny [] [any_ID ''a''] = (frame (''ID'', [97]), None)"
    "WriteAny [] [AnyWriterTo ''ID'' (Inr [97])] = (frame (''ID'', [97]), None)"
    by (simp_all add: any_ID_def ID_WriteTo_def ID_Domain_def str_bytes_def)
qed (simp_all add: any_ok_def frame_ok_def any_ID_def ID_WriteTo_def ID_Domain_def str_bytes_def)



end
