(* ===== verification/Round.thy ===== *)
theory Round
  imports Hash
begin

text \<open>
  Sessions and rounds: \<open>internal/round/session.go\<close>, \<open>helper.go\<close>, \<open>round.go\<close>, \<open>message.go\<close>,
  \<open>number.go\<close>, \<open>output.go\<close>, \<open>abort.go\<close> and \<open>error.go\<close>.

  \<open>round.Session\<close> is an interface. A protocol provides its rounds as a type \<open>'r\<close> together with a
  record \<open>round_ops\<close> of the interface's methods, and the two rounds every protocol ends in,
  \<open>round.Abort\<close> and \<open>round.Output\<close>, are constructors of \<open>session\<close>.
\<close>

type_synonym Number = "16 word"

definition any_Number :: "Number \<Rightarrow> any" where
  "any_Number i = AnyWriterTo ''Round Number'' (Inr (be_bytes 8 (unat i)))"

definition ErrNilFields :: go_error where
  "ErrNilFields = Err ''message contained empty fields''"

definition ErrInvalidContent :: go_error where
  "ErrInvalidContent = Err ''content is not the right type''"

definition ErrOutChanFull :: go_error where
  "ErrOutChanFull = Err ''content is not the right type''"

record Info =
  ProtocolID :: string
  FinalRoundNumber :: Number
  SelfID :: ID
  PartyIDs :: "ID list"
  Threshold :: int
  Group :: "string option"    \<comment> \<open>name of the curve, \<open>None\<close> when nil\<close>

record Helper =
  info :: Info
  partyIDs :: IDSlice
  otherPartyIDs :: IDSlice
  ssid :: bytes
  hstate :: hash

section \<open>Session set-up\<close>

definition session_err :: "string \<Rightarrow> go_error + 'a" where
  "session_err s = Inl (Err (''session: '' @ s))"

text \<open>One \<open>h.WriteAny\<close> whose error aborts the set-up.\<close>

definition session_write :: "any \<Rightarrow> hash \<Rightarrow> go_error + hash" where
  "session_write a h = (case WriteAny h [a] of
     (h', None) \<Rightarrow> Inr h' | (_, Some e) \<Rightarrow> Inl (Wrap ''session'' e))"

fun session_aux :: "any option list \<Rightarrow> hash \<Rightarrow> go_error + hash" where
  "session_aux [] h = Inr h"
| "session_aux (None # as) h = session_aux as h"
| "session_aux (Some a # as) h = rbind (session_write a h) (session_aux as)"

text \<open>\<open>NewSession\<close>: the checks in the order of the code, then the transcript of the session.\<close>

definition NewSession :: "xof \<Rightarrow> Info \<Rightarrow> bytes option \<Rightarrow> any option list \<Rightarrow> go_error + Helper" where
  "NewSession blake3 nfo sessionID auxInfo =
     (let ids = NewIDSlice (PartyIDs nfo); n = int (length ids)
      in if \<not> Valid ids then session_err ''partyIDs invalid''
         else if \<not> Contains ids [SelfID nfo] then session_err ''selfID not included in partyIDs''
         else if Threshold nfo < 0 \<or> Threshold nfo > 2 ^ 32 - 1 then session_err (''threshold '' @ int_text (Threshold nfo) @ '' is invalid'')
         else if n \<le> 0 \<or> Threshold nfo > n - 1
           then session_err (''threshold '' @ int_text (Threshold nfo)
             @ '' is invalid for number of parties '' @ int_text n)
         else
           rbind (case sessionID of None \<Rightarrow> Inr (hash_New [])
                  | Some sid \<Rightarrow> session_write (any_bwd ''Session ID'' (Some sid)) (hash_New [])) (\<lambda>h.
           rbind (session_write (any_bwd ''Protocol ID'' (Some (str_bytes (ProtocolID nfo)))) h) (\<lambda>h.
           rbind (case Group nfo of None \<Rightarrow> Inr h
                  | Some g \<Rightarrow> session_write (any_bwd ''Group Name'' (Some (str_bytes g))) h) (\<lambda>h.
           rbind (session_write (any_IDSlice (Some ids)) h) (\<lambda>h.
           rbind (session_write (any_Threshold (Threshold nfo)) h) (\<lambda>h.
           rbind (session_aux auxInfo h) (\<lambda>h.
             Inr \<lparr>info = nfo, partyIDs = ids, otherPartyIDs = Remove ids (SelfID nfo),
                  ssid = hash_Sum blake3 h, hstate = h\<rparr>)))))))"

definition HashForID :: "Helper \<Rightarrow> ID \<Rightarrow> hash" where
  "HashForID h i = (if i \<noteq> '''' then fst (WriteAny (hstate h) [any_ID i]) else hstate h)"

definition UpdateHashState :: "Helper \<Rightarrow> any \<Rightarrow> Helper" where
  "UpdateHashState h value = h\<lparr>hstate := fst (WriteAny (hstate h) [value])\<rparr>"

definition Helper_N :: "Helper \<Rightarrow> nat" where
  "Helper_N h = length (PartyIDs (info h))"

section \<open>Messages of a round\<close>

record 'c RoundMessage =
  rm_From :: ID
  rm_To :: ID
  rm_Broadcast :: bool
  rm_Content :: 'c

text \<open>The buffered channel a round finalizes into: its capacity and what has been sent.\<close>

record 'c outchan =
  oc_cap :: nat
  oc_buf :: "'c RoundMessage list"

definition chan_send :: "'c RoundMessage \<Rightarrow> 'c outchan \<Rightarrow> go_error + 'c outchan" where
  "chan_send m out = (if length (oc_buf out) < oc_cap out
     then Inr (out\<lparr>oc_buf := oc_buf out @ [m]\<rparr>) else Inl ErrOutChanFull)"

definition BroadcastMessage :: "Helper \<Rightarrow> 'c \<Rightarrow> 'c outchan \<Rightarrow> go_error + 'c outchan" where
  "BroadcastMessage h content out =
     chan_send \<lparr>rm_From = SelfID (info h), rm_To = '''', rm_Broadcast = True, rm_Content = content\<rparr> out"

definition SendMessage :: "Helper \<Rightarrow> 'c \<Rightarrow> ID \<Rightarrow> 'c outchan \<Rightarrow> go_error + 'c outchan" where
  "SendMessage h content to out =
     chan_send \<lparr>rm_From = SelfID (info h), rm_To = to, rm_Broadcast = False, rm_Content = content\<rparr> out"

section \<open>The session interface\<close>

datatype ('r, 'res) session =
    Live 'r
  | AbortRound Helper go_error "ID list"
  | OutputRound Helper 'res

text \<open>
  The methods of \<open>round.Round\<close> and \<open>round.BroadcastRound\<close>. A method may panic. \<open>Finalize\<close> returns an
  error, or a session (\<open>None\<close>: nil) and the messages it put in the channel it was given.
  Unmarshalling (CBOR) into the content of the round and marshalling a content are fields as well,
  since the encoding is third-party code.
\<close>

record ('r, 'c, 'res) round_ops =
  r_helper :: "'r \<Rightarrow> Helper"
  r_number :: "'r \<Rightarrow> Number"
  r_isBroadcast :: "'r \<Rightarrow> bool"
  r_hasContent :: "'r \<Rightarrow> bool"
  r_unmarshal :: "'r \<Rightarrow> bytes \<Rightarrow> 'c option"
  r_unmarshalBroadcast :: "'r \<Rightarrow> bytes \<Rightarrow> 'c option"
  r_marshal :: "'c \<Rightarrow> bytes option"
  r_contentRound :: "'c \<Rightarrow> Number"
  r_verify :: "'r \<Rightarrow> 'c RoundMessage \<Rightarrow> go_error option outcome"
  r_store :: "'r \<Rightarrow> 'c RoundMessage \<Rightarrow> (go_error + 'r) outcome"
  r_storeBroadcast :: "'r \<Rightarrow> 'c RoundMessage \<Rightarrow> (go_error + 'r) outcome"
  r_finalize :: "'r \<Rightarrow> nat \<Rightarrow> (go_error + ('r, 'res) session option \<times> 'c RoundMessage list) outcome"

fun s_helper :: "('r, 'c, 'res) round_ops \<Rightarrow> ('r, 'res) session \<Rightarrow> Helper" where
  "s_helper ops (Live r) = r_helper ops r"
| "s_helper ops (AbortRound h e cs) = h"
| "s_helper ops (OutputRound h res) = h"

fun s_number :: "('r, 'c, 'res) round_ops \<Rightarrow> ('r, 'res) session \<Rightarrow> Number" where
  "s_number ops (Live r) = r_number ops r"
| "s_number ops (AbortRound h e cs) = 0"
| "s_number ops (OutputRound h res) = 0"

fun s_isBroadcast :: "('r, 'c, 'res) round_ops \<Rightarrow> ('r, 'res) session \<Rightarrow> bool" where
  "s_isBroadcast ops (Live r) = r_isBroadcast ops r"
| "s_isBroadcast ops (AbortRound h e cs) = False"
| "s_isBroadcast ops (OutputRound h res) = False"

fun s_hasContent :: "('r, 'c, 'res) round_ops \<Rightarrow> ('r, 'res) session \<Rightarrow> bool" where
  "s_hasContent ops (Live r) = r_hasContent ops r"
| "s_hasContent ops (AbortRound h e cs) = False"
| "s_hasContent ops (OutputRound h res) = False"

text \<open>\<open>VerifyMessage\<close> and \<open>StoreMessage\<close> of the two final rounds do nothing.\<close>

fun s_verify :: "('r, 'c, 'res) round_ops \<Rightarrow> ('r, 'res) session \<Rightarrow> 'c RoundMessage \<Rightarrow> go_error option outcome" where
  "s_verify ops (Live r) m = r_verify ops r m"
| "s_verify ops s m = Ret None"

fun s_store :: "('r, 'c, 'res) round_ops \<Rightarrow> ('r, 'res) session \<Rightarrow> 'c RoundMessage
    \<Rightarrow> (go_error + ('r, 'res) session) outcome" where
  "s_store ops (Live r) m = obind (r_store ops r m) (\<lambda>x. Ret (map_sum id Live x))"
| "s_store ops s m = Ret (Inr s)"

text \<open>\<open>StoreBroadcastMessage\<close> exists for broadcast rounds only; the type assertion panics otherwise.\<close>

fun s_storeBroadcast :: "('r, 'c, 'res) round_ops \<Rightarrow> ('r, 'res) session \<Rightarrow> 'c RoundMessage
    \<Rightarrow> (go_error + ('r, 'res) session) outcome" where
  "s_storeBroadcast ops (Live r) m = (if r_isBroadcast ops r
     then obind (r_storeBroadcast ops r m) (\<lambda>x. Ret (map_sum id Live x)) else Panic)"
| "s_storeBroadcast ops s m = Panic"

fun s_finalize :: "('r, 'c, 'res) round_ops \<Rightarrow> ('r, 'res) session \<Rightarrow> nat
    \<Rightarrow> (go_error + ('r, 'res) session option \<times> 'c RoundMessage list) outcome" where
  "s_finalize ops (Live r) cap = r_finalize ops r cap"
| "s_finalize ops s cap = Ret (Inr (Some s, []))"

section \<open>What a session guarantees\<close>

lemma rbind_InrD: "rbind x f = Inr z \<Longrightarrow> \<exists>y. x = Inr y \<and> f y = Inr z"
  by (cases x) auto

lemma NewSession_rejects:
  assumes "NewSession blake3 nfo sid aux = Inr h"
  shows "distinct (PartyIDs nfo)" and "SelfID nfo \<in> set (PartyIDs nfo)"
    and "0 \<le> Threshold nfo" and "Threshold nfo < int (length (PartyIDs nfo))"
    and "info h = nfo" and "partyIDs h = NewIDSlice (PartyIDs nfo)"
    and "otherPartyIDs h = Remove (partyIDs h) (SelfID nfo)"
    and "ssid h = hash_Sum blake3 (hstate h)"
proof -
  have v: "Valid (NewIDSlice (PartyIDs nfo))" and c: "Contains (NewIDSlice (PartyIDs nfo)) [SelfID nfo]"
    using assms by (auto simp: NewSession_def Let_def session_err_def split: if_splits)
  show "distinct (PartyIDs nfo)" using v by (simp add: Valid_NewIDSlice)
  show "SelfID nfo \<in> set (PartyIDs nfo)" using c v by (simp add: Contains_set del: Contains.simps)
  show "0 \<le> Threshold nfo" "Threshold nfo < int (length (PartyIDs nfo))"
    using assms by (auto simp: NewSession_def Let_def session_err_def split: if_splits)
  show "info h = nfo" "partyIDs h = NewIDSlice (PartyIDs nfo)"
    "otherPartyIDs h = Remove (partyIDs h) (SelfID nfo)" "ssid h = hash_Sum blake3 (hstate h)"
    using assms by (auto simp: NewSession_def Let_def session_err_def split: if_splits dest!: rbind_InrD)
qed

lemma chan_send_Inr: "chan_send m out = Inr out' \<Longrightarrow> oc_buf out' = oc_buf out @ [m] \<and> oc_cap out' = oc_cap out"
  by (auto simp: chan_send_def split: if_splits)

text \<open>The hash state of a session, from the value written for its parties.\<close>

definition session_hash :: "Info \<Rightarrow> any \<Rightarrow> bytes option \<Rightarrow> any option list \<Rightarrow> go_error + hash" where
  "session_hash nfo ids sessionID auxInfo =
     rbind (case sessionID of None \<Rightarrow> Inr (hash_New [])
            | Some sid \<Rightarrow> session_write (any_bwd ''Session ID'' (Some sid)) (hash_New [])) (\<lambda>h.
     rbind (session_write (any_bwd ''Protocol ID'' (Some (str_bytes (ProtocolID nfo)))) h) (\<lambda>h.
     rbind (case Group nfo of None \<Rightarrow> Inr h
            | Some g \<Rightarrow> session_write (any_bwd ''Group Name'' (Some (str_bytes g))) h) (\<lambda>h.
     rbind (session_write ids h) (\<lambda>h.
     rbind (session_write (any_Threshold (Threshold nfo)) h) (session_aux auxInfo)))))"

lemma NewSession_hstate:
  assumes "NewSession b3 nfo sid aux = Inr hp"
  shows "session_hash nfo (any_IDSlice (Some (NewIDSlice (PartyIDs nfo)))) sid aux = Inr (hstate hp)"
  unfolding session_hash_def
  using assms by (auto simp: NewSession_def Let_def session_err_def split: if_splits dest!: rbind_InrD)

text \<open>The parties enter it through their number and the concatenation of the sorted identifiers only.\<close>

lemma any_IDSlice_concat:
  assumes "length p = length q" and "concat p = concat q"
  shows "any_IDSlice (Some p) = any_IDSlice (Some q)"
proof -
  have "concat (map str_bytes xs) = str_bytes (concat xs)" for xs
    by (induction xs) (simp_all add: str_bytes_def)
  then show ?thesis using assms by (simp add: any_IDSlice_def IDSlice_WriteTo_def)
qed

lemma not_isl_Inr: "\<not> isl x \<Longrightarrow> \<exists>y. x = Inr y"
  by (cases x) simp_all

definition collide_info :: Info where
  "collide_info = \<lparr>ProtocolID = ''p'', FinalRoundNumber = 3, SelfID = ''a'', PartyIDs = [''a'', ''bc'', ''d''],
     Threshold = 1, Group = None\<rparr>"

section \<open>Properties\<close>

text \<open>C39: Session identifiers do not separate party sets. \<open>IDSlice.WriteTo\<close> writes the identifiers without
  separators, so two sessions which differ in their parties, with as many parties and the same
  concatenation of the sorted identifiers, get the same \<open>SSID\<close> and the same hash state, for the session
  and for each party.\<close>

theorem session_ids_collide:
  assumes "NewSession b3 nfo sid aux = Inr hp" and "NewSession b3 (nfo\<lparr>PartyIDs := ps\<rparr>) sid aux = Inr hp'"
    and "length ps = length (PartyIDs nfo)" and "concat (NewIDSlice ps) = concat (NewIDSlice (PartyIDs nfo))"
  shows "ssid hp' = ssid hp \<and> hstate hp' = hstate hp \<and> HashForID hp' i = HashForID hp i"
proof -
  have "any_IDSlice (Some (NewIDSlice ps)) = any_IDSlice (Some (NewIDSlice (PartyIDs nfo)))"
    by (rule any_IDSlice_concat) (use assms(3,4) in simp_all)
  then have "hstate hp' = hstate hp"
    using NewSession_hstate[OF assms(1)] NewSession_hstate[OF assms(2)] by (simp add: session_hash_def)
  then show ?thesis
    using NewSession_rejects(8)[OF assms(1)] NewSession_rejects(8)[OF assms(2)] by (simp add: HashForID_def)
qed

theorem session_ids_collide_witness:
  "\<exists>(hp :: Helper) (hp' :: Helper). set (partyIDs hp) = {''a'', ''bc'', ''d''} \<and> set (partyIDs hp') = {''a'', ''b'', ''cd''} \<and>
     ssid hp' = ssid hp"
proof -
  let ?b = "\<lambda>_ _. 0 :: byte"
  have "\<not> isl (NewSession ?b collide_info None [])"
    "\<not> isl (NewSession ?b (collide_info\<lparr>PartyIDs := [''a'', ''b'', ''cd'']\<rparr>) None [])" by code_simp+
  then obtain hp hp' where s: "NewSession ?b collide_info None [] = Inr hp"
    "NewSession ?b (collide_info\<lparr>PartyIDs := [''a'', ''b'', ''cd'']\<rparr>) None [] = Inr hp'"
    using not_isl_Inr by blast
  have "length [''a'', ''b'', ''cd''] = length (PartyIDs collide_info)"
    "concat (NewIDSlice [''a'', ''b'', ''cd'']) = concat (NewIDSlice (PartyIDs collide_info))" by code_simp+
  from session_ids_collide[OF s this] have "ssid hp' = ssid hp" by blast
  moreover have "set (partyIDs hp) = {''a'', ''bc'', ''d''}" "set (partyIDs hp') = {''a'', ''b'', ''cd''}"
    unfolding NewSession_rejects(6)[OF s(1)] NewSession_rejects(6)[OF s(2)] collide_info_def set_NewIDSlice Info.simps list.set
    by (rule refl)+
  ultimately show ?thesis by blast
qed

end
