(* ===== verification/Handler.thy ===== *)
theory Handler
  imports Round
begin

text \<open>
  The protocol engine: \<open>pkg/protocol/handler.go\<close>, \<open>message.go\<close> and \<open>error.go\<close>.

  \<open>MultiHandler\<close> drives a session through its rounds: it queues messages, checks that all parties
  saw the same broadcasts, finalizes rounds and reports the result or an abort. The handler's state is
  a record; every method is a function on it. Sending on the outgoing channel blocks when its buffer
  is full, and sending on or closing a closed channel panics, as in Go.

  The two maps \<open>rounds\<close> and \<open>currentRound\<close> hold pointers to the same round objects, so a method that
  changes a round (\<open>StoreMessage\<close>, \<open>StoreBroadcastMessage\<close>) is seen through both: \<open>set_round\<close>.
\<close>

section \<open>Messages\<close>

record Message =
  SSID :: "bytes option"
  From :: ID
  To :: ID
  Protocol :: string
  RoundNumber :: Number
  Data :: "bytes option"
  Broadcast :: bool
  BroadcastVerification :: "bytes option"

definition IsFor :: "Message \<Rightarrow> ID \<Rightarrow> bool" where
  "IsFor m i \<longleftrightarrow> (if From m = i then False else To m = '''' \<or> To m = i)"

definition Message_parts :: "Message \<Rightarrow> any list" where
  "Message_parts m =
     [any_bwd ''SSID'' (SSID m), any_ID (From m), any_ID (To m),
      any_bwd ''Protocol'' (Some (str_bytes (Protocol m))), any_Number (RoundNumber m),
      any_bwd ''Content'' (Data m), any_bwd ''Broadcast'' (Some [if Broadcast m then 1 else 0]),
      any_bwd ''BroadcastVerification'' (BroadcastVerification m)]"

definition Message_Hash :: "xof \<Rightarrow> Message \<Rightarrow> bytes" where
  "Message_Hash blake3 m = hash_Sum blake3 (hash_New (Message_parts m))"

text \<open>\<open>MarshalBinary\<close> and \<open>UnmarshalBinary\<close> over the CBOR codec of the message struct. The decoder
  writes into a copy of the receiver; on an error \<open>UnmarshalBinary\<close> returns nil and leaves the receiver
  as it was. The second component is the returned error.\<close>

definition Message_MarshalBinary :: "(Message \<Rightarrow> go_error + bytes) \<Rightarrow> Message \<Rightarrow> go_error + bytes" where
  "Message_MarshalBinary cbor_Marshal m = cbor_Marshal m"

definition Message_UnmarshalBinary ::
    "(bytes \<Rightarrow> Message \<Rightarrow> go_error + Message) \<Rightarrow> Message \<Rightarrow> bytes \<Rightarrow> Message \<times> go_error option" where
  "Message_UnmarshalBinary cbor_Unmarshal m d = (case cbor_Unmarshal d m of
     Inl e \<Rightarrow> (m, None) | Inr m' \<Rightarrow> (m', None))"

section \<open>Errors\<close>

record ProtocolError =
  Culprits :: "ID list"
  pe_Err :: go_error

fun join_text :: "string list \<Rightarrow> string" where
  "join_text [] = ''''"
| "join_text [x] = x"
| "join_text (x # y # xs) = x @ '' '' @ join_text (y # xs)"

text \<open>\<open>Error.Error\<close>; a culprit list that is nil is the empty list.\<close>

definition Error_Error :: "ProtocolError \<Rightarrow> string" where
  "Error_Error e = (if Culprits e = [] then error_text (pe_Err e)
     else ''culprits: ['' @ join_text (Culprits e) @ '']: '' @ error_text (pe_Err e))"

section \<open>The state of a handler\<close>

type_synonym queue = "(Number, (ID, Message) gomap) gomap"

record ('r, 'res) MultiHandler =
  currentRound :: "('r, 'res) session"
  rounds :: "(Number, ('r, 'res) session) gomap"
  h_err :: "ProtocolError option"
  h_result :: "'res option"
  messages :: queue
  broadcast :: queue
  broadcastHashes :: "(Number, bytes) gomap"
  h_out :: "Message list"      \<comment> \<open>what is buffered in the outgoing channel\<close>
  h_outcap :: nat
  h_outclosed :: bool

text \<open>What the handler runs on: the protocol's rounds, the hash function, and the order in which
  \<open>range\<close> visits the messages of a queue.\<close>

record ('r, 'c, 'res) runtime =
  ops :: "('r, 'c, 'res) round_ops"
  blake3 :: xof
  range_order :: "(ID \<times> Message) list \<Rightarrow> (ID \<times> Message) list"

definition finished :: "('r, 'res) MultiHandler \<Rightarrow> bool" where
  "finished h \<longleftrightarrow> h_err h \<noteq> None \<or> h_result h \<noteq> None"

definition newQueue :: "Number \<Rightarrow> queue" where
  "newQueue n = map (\<lambda>i. (word_of_nat i, [])) [2..<Suc (unat n)]"

definition queue_of :: "bool \<Rightarrow> ('r, 'res) MultiHandler \<Rightarrow> queue" where
  "queue_of b h = (if b then broadcast h else messages h)"

text \<open>The entry of a queue for a round and a sender: \<open>q[number][id]\<close>, nil when either is missing.\<close>

definition qget :: "queue \<Rightarrow> Number \<Rightarrow> ID \<Rightarrow> Message option" where
  "qget q n i = (case mget q n of None \<Rightarrow> None | Some m \<Rightarrow> mget m i)"

definition qrange :: "queue \<Rightarrow> Number \<Rightarrow> (ID \<times> Message) list" where
  "qrange q n = (case mget q n of None \<Rightarrow> [] | Some m \<Rightarrow> m)"

definition Result :: "('r, 'res) MultiHandler \<Rightarrow> go_error + 'res" where
  "Result h = (case h_result h of Some r \<Rightarrow> Inr r | None \<Rightarrow>
     (case h_err h of Some e \<Rightarrow> Inl (Err (Error_Error e)) | None \<Rightarrow> Inl (Err ''protocol: not finished'')))"

text \<open>One receive on the channel returned by \<open>Listen\<close>.\<close>

definition Listen_recv :: "('r, 'res) MultiHandler \<Rightarrow> Message option \<times> ('r, 'res) MultiHandler" where
  "Listen_recv h = (case h_out h of [] \<Rightarrow> (None, h) | m # ms \<Rightarrow> (Some m, h\<lparr>h_out := ms\<rparr>))"

section \<open>Accepting and queueing\<close>

definition bytes_Equal :: "bytes option \<Rightarrow> bytes \<Rightarrow> bool" where
  "bytes_Equal a b \<longleftrightarrow> (case a of None \<Rightarrow> b = [] | Some x \<Rightarrow> x = b)"

definition CanAccept :: "('r, 'c, 'res) runtime \<Rightarrow> ('r, 'res) MultiHandler \<Rightarrow> Message option \<Rightarrow> bool" where
  "CanAccept rt h msg = (case msg of None \<Rightarrow> False | Some m \<Rightarrow>
     (let r = currentRound h; hp = s_helper (ops rt) r
      in if \<not> IsFor m (SelfID (info hp)) then False
         else if Protocol m \<noteq> ProtocolID (info hp) then False
         else if \<not> bytes_Equal (SSID m) (ssid hp) then False
         else if \<not> Contains (partyIDs hp) [From m] then False
         else if Data m = None then False
         else if RoundNumber m > FinalRoundNumber (info hp) then False
         else if RoundNumber m < s_number (ops rt) r \<and> RoundNumber m > 0 then False
         else True))"

definition duplicate :: "('r, 'res) MultiHandler \<Rightarrow> Message \<Rightarrow> bool" where
  "duplicate h m = (if RoundNumber m = 0 then False
     else case mget (queue_of (Broadcast m) h) (RoundNumber m) of
       None \<Rightarrow> True | Some q \<Rightarrow> mget q (From m) \<noteq> None)"

definition store :: "Message \<Rightarrow> ('r, 'res) MultiHandler \<Rightarrow> ('r, 'res) MultiHandler" where
  "store m h = (case mget (queue_of (Broadcast m) h) (RoundNumber m) of
       None \<Rightarrow> h
     | Some q \<Rightarrow> if mget q (From m) \<noteq> None then h
         else if Broadcast m
           then h\<lparr>broadcast := mput (RoundNumber m) (mput (From m) m q) (broadcast h)\<rparr>
           else h\<lparr>messages := mput (RoundNumber m) (mput (From m) m q) (messages h)\<rparr>)"

definition send :: "Message \<Rightarrow> ('r, 'res) MultiHandler \<Rightarrow> ('r, 'res) MultiHandler outcome" where
  "send m h = (if h_outclosed h then Panic
     else if length (h_out h) < h_outcap h then Ret (h\<lparr>h_out := h_out h @ [m]\<rparr>) else Blocked)"

definition close_out :: "('r, 'res) MultiHandler \<Rightarrow> ('r, 'res) MultiHandler outcome" where
  "close_out h = (if h_outclosed h then Panic else Ret (h\<lparr>h_outclosed := True\<rparr>))"

definition abort_message :: "('r, 'c, 'res) runtime \<Rightarrow> ('r, 'res) MultiHandler \<Rightarrow> ProtocolError \<Rightarrow> Message" where
  "abort_message rt h e = (let hp = s_helper (ops rt) (currentRound h) in
     \<lparr>SSID = Some (ssid hp), From = SelfID (info hp), To = '''', Protocol = ProtocolID (info hp),
      RoundNumber = 0, Data = Some (str_bytes (Error_Error e)), Broadcast = False,
      BroadcastVerification = None\<rparr>)"

text \<open>\<open>abort\<close>: the notification is sent only if the buffer has room (\<open>select\<close> with \<open>default\<close>).\<close>

definition abort :: "('r, 'c, 'res) runtime \<Rightarrow> go_error option \<Rightarrow> ID list
    \<Rightarrow> ('r, 'res) MultiHandler \<Rightarrow> ('r, 'res) MultiHandler outcome" where
  "abort rt err culprits h = (case err of
       None \<Rightarrow> close_out h
     | Some e \<Rightarrow>
         (let pe = \<lparr>Culprits = culprits, pe_Err = e\<rparr>; h1 = h\<lparr>h_err := Some pe\<rparr>
          in obind (if h_outclosed h1 then Panic
                    else if length (h_out h1) < h_outcap h1 then send (abort_message rt h1 pe) h1
                    else Ret h1) close_out))"

definition Stop :: "('r, 'c, 'res) runtime \<Rightarrow> ('r, 'res) MultiHandler \<Rightarrow> ('r, 'res) MultiHandler outcome" where
  "Stop rt h = (if h_err h \<noteq> None \<or> h_result h \<noteq> None
     then abort rt (Some (Err ''aborted by user'')) [SelfID (info (s_helper (ops rt) (currentRound h)))] h
     else Ret h)"

section \<open>Verifying messages\<close>

definition getRoundMessage :: "('r, 'c, 'res) round_ops \<Rightarrow> Message \<Rightarrow> ('r, 'res) session
    \<Rightarrow> go_error + 'c RoundMessage" where
  "getRoundMessage os m s =
     (let mk = (\<lambda>c. \<lparr>rm_From = From m, rm_To = To m, rm_Broadcast = Broadcast m, rm_Content = c\<rparr>);
          dec = (\<lambda>d. case d of None \<Rightarrow> Inl (Wrap ''failed to unmarshal'' (Err ''cbor''))
                      | Some c \<Rightarrow> Inr (mk c));
          bs = (case Data m of None \<Rightarrow> [] | Some b \<Rightarrow> b)
      in if Broadcast m
         then (if s_isBroadcast os s
               then (case s of Live r \<Rightarrow> dec (r_unmarshalBroadcast os r bs) | _ \<Rightarrow> dec None)
               else Inl (Err ''got broadcast message when none was expected''))
         else (case s of Live r \<Rightarrow> dec (if r_hasContent os r then r_unmarshal os r bs else None)
               | _ \<Rightarrow> dec None))"

definition round_err :: "('r, 'c, 'res) round_ops \<Rightarrow> ('r, 'res) session \<Rightarrow> go_error \<Rightarrow> go_error" where
  "round_err os s e = Wrap (''round '' @ nat_text (unat (s_number os s))) e"

definition set_round :: "('r, 'c, 'res) round_ops \<Rightarrow> Number \<Rightarrow> ('r, 'res) session
    \<Rightarrow> ('r, 'res) MultiHandler \<Rightarrow> ('r, 'res) MultiHandler" where
  "set_round os n s h = h\<lparr>rounds := mput n s (rounds h),
     currentRound := (if s_number os (currentRound h) = n then s else currentRound h)\<rparr>"

definition verifyMessage :: "('r, 'c, 'res) runtime \<Rightarrow> Message \<Rightarrow> ('r, 'res) MultiHandler
    \<Rightarrow> (go_error option \<times> ('r, 'res) MultiHandler) outcome" where
  "verifyMessage rt m h = (case mget (rounds h) (RoundNumber m) of
       None \<Rightarrow> Ret (None, h)
     | Some r \<Rightarrow>
         if s_isBroadcast (ops rt) r \<and> qget (broadcast h) (RoundNumber m) (From m) = None
         then Ret (None, h)
         else (case getRoundMessage (ops rt) m r of
             Inl e \<Rightarrow> Ret (Some e, h)
           | Inr rm \<Rightarrow> obind (s_verify (ops rt) r rm) (\<lambda>v. case v of
                 Some e \<Rightarrow> Ret (Some (round_err (ops rt) r e), h)
               | None \<Rightarrow> obind (s_store (ops rt) r rm) (\<lambda>st. case st of
                     Inl e \<Rightarrow> Ret (Some (round_err (ops rt) r e), h)
                   | Inr r' \<Rightarrow> Ret (None, set_round (ops rt) (RoundNumber m) r' h)))))"

definition verifyBroadcastMessage :: "('r, 'c, 'res) runtime \<Rightarrow> Message \<Rightarrow> ('r, 'res) MultiHandler
    \<Rightarrow> (go_error option \<times> ('r, 'res) MultiHandler) outcome" where
  "verifyBroadcastMessage rt m h = (case mget (rounds h) (RoundNumber m) of
       None \<Rightarrow> Ret (None, h)
     | Some r \<Rightarrow> (case getRoundMessage (ops rt) m r of
           Inl e \<Rightarrow> Ret (Some e, h)
         | Inr rm \<Rightarrow> obind (s_storeBroadcast (ops rt) r rm) (\<lambda>st. case st of
               Inl e \<Rightarrow> Ret (Some (round_err (ops rt) r e), h)
             | Inr r' \<Rightarrow>
                 (let h1 = set_round (ops rt) (RoundNumber m) r' h
                  in if \<not> s_hasContent (ops rt) r' then Ret (None, h1)
                     else (case qget (messages h1) (RoundNumber m) (From m) of
                         None \<Rightarrow> Ret (None, h1)
                       | Some p2p \<Rightarrow> verifyMessage rt p2p h1)))))"

section \<open>Finalizing rounds\<close>

definition broadcast_transcript :: "xof \<Rightarrow> hash \<Rightarrow> queue \<Rightarrow> Number \<Rightarrow> IDSlice \<Rightarrow> hash" where
  "broadcast_transcript b3 hs q n ids = foldl (\<lambda>st i.
     (case qget q n i of
        Some m \<Rightarrow> fst (WriteAny st [any_bwd ''Message'' (Some (Message_Hash b3 m))])
      | None \<Rightarrow> st)) hs ids"

text \<open>\<open>receivedAll\<close>; it also records the hash of the round's broadcasts.\<close>

definition receivedAll :: "('r, 'c, 'res) runtime \<Rightarrow> ('r, 'res) MultiHandler \<Rightarrow> bool \<times> ('r, 'res) MultiHandler" where
  "receivedAll rt h =
     (let r = currentRound h; number = s_number (ops rt) r; hp = s_helper (ops rt) r;
          normal = (\<lambda>h'. if s_hasContent (ops rt) r \<and> mget (messages h') number \<noteq> None
             then (list_all (\<lambda>i. qget (messages h') number i \<noteq> None) (otherPartyIDs hp), h')
             else (True, h'))
      in if s_isBroadcast (ops rt) r
         then if mget (broadcast h) number = None then (True, h)
              else if \<not> list_all (\<lambda>i. qget (broadcast h) number i \<noteq> None) (partyIDs hp) then (False, h)
              else normal (if mget (broadcastHashes h) number = None
                     then h\<lparr>broadcastHashes := mput number
                            (hash_Sum (blake3 rt) (broadcast_transcript (blake3 rt) (hstate hp) (broadcast h) number (partyIDs hp)))
                            (broadcastHashes h)\<rparr>
                     else h)
         else normal h)"

definition checkBroadcastHash :: "('r, 'c, 'res) runtime \<Rightarrow> ('r, 'res) MultiHandler \<Rightarrow> bool" where
  "checkBroadcastHash rt h =
     (let number = s_number (ops rt) (currentRound h)
      in case mget (broadcastHashes h) (number - 1) of
           None \<Rightarrow> True
         | Some previousHash \<Rightarrow>
             list_all (\<lambda>(i, m). bytes_Equal (BroadcastVerification m) previousHash) (qrange (messages h) number) \<and>
             list_all (\<lambda>(i, m). bytes_Equal (BroadcastVerification m) previousHash) (qrange (broadcast h) number))"

text \<open>The loop that puts the header on the messages of a finalized round and sends them.\<close>

definition wire_message :: "('r, 'c, 'res) runtime \<Rightarrow> ('r, 'res) session \<Rightarrow> 'c RoundMessage \<Rightarrow> bytes
    \<Rightarrow> ('r, 'res) MultiHandler \<Rightarrow> Message" where
  "wire_message rt r rm bs h = (let hp = s_helper (ops rt) r in
     \<lparr>SSID = Some (ssid hp), From = SelfID (info hp), To = rm_To rm, Protocol = ProtocolID (info hp),
      RoundNumber = r_contentRound (ops rt) (rm_Content rm), Data = Some bs, Broadcast = rm_Broadcast rm,
      BroadcastVerification = mget (broadcastHashes h) (s_number (ops rt) r - 1)\<rparr>)"

fun forward :: "('r, 'c, 'res) runtime \<Rightarrow> ('r, 'res) session \<Rightarrow> 'c RoundMessage list
    \<Rightarrow> ('r, 'res) MultiHandler \<Rightarrow> ('r, 'res) MultiHandler outcome" where
  "forward rt r [] h = Ret h"
| "forward rt r (rm # rms) h = (case r_marshal (ops rt) (rm_Content rm) of
       None \<Rightarrow> Panic
     | Some bs \<Rightarrow>
         (let m = wire_message rt r rm bs h;
              h1 = (if Broadcast m then store m h else h)
          in obind (send m h1) (forward rt r rms)))"

text \<open>The loops over the messages queued for the round just reached, with the method that handles one
  of them; the flag tells that no message made the handler abort.\<close>

fun drain :: "('r, 'c, 'res) runtime
    \<Rightarrow> (Message \<Rightarrow> ('r, 'res) MultiHandler \<Rightarrow> (go_error option \<times> ('r, 'res) MultiHandler) outcome)
    \<Rightarrow> (ID \<times> Message) list \<Rightarrow> ('r, 'res) MultiHandler \<Rightarrow> (bool \<times> ('r, 'res) MultiHandler) outcome" where
  "drain rt verify [] h = Ret (True, h)"
| "drain rt verify ((i, m) # q) h =
     obind (verify m h) (\<lambda>(e, h1). case e of
         Some e' \<Rightarrow> obind (abort rt (Some e') [From m] h1) (\<lambda>h2. Ret (False, h2))
       | None \<Rightarrow> drain rt verify q h1)"

text \<open>The part of \<open>finalize\<close> after the round's messages have been forwarded: entering round \<open>r\<close>.
  The flag tells whether \<open>finalize\<close> calls itself again.\<close>

definition enter_round :: "('r, 'c, 'res) runtime \<Rightarrow> ('r, 'res) session \<Rightarrow> ('r, 'res) MultiHandler
    \<Rightarrow> (bool \<times> ('r, 'res) MultiHandler) outcome" where
  "enter_round rt r h =
     (let number = s_number (ops rt) r
      in if mget (rounds h) number \<noteq> None then Ret (False, h)
         else let h1 = h\<lparr>rounds := mput number r (rounds h), currentRound := r\<rparr>
              in case r of
                   AbortRound hp e cs \<Rightarrow> obind (abort rt (Some e) cs h1) (\<lambda>h2. Ret (False, h2))
                 | OutputRound hp res \<Rightarrow>
                     obind (abort rt None [] (h1\<lparr>h_result := Some res\<rparr>)) (\<lambda>h2. Ret (False, h2))
                 | Live lr \<Rightarrow>
                     if r_isBroadcast (ops rt) lr
                     then drain rt (verifyBroadcastMessage rt)
                            (filter (\<lambda>(i, m). i \<noteq> SelfID (info (r_helper (ops rt) lr)))
                              (range_order rt (qrange (broadcast h1) number))) h1
                     else drain rt (verifyMessage rt) (range_order rt (qrange (messages h1) number)) h1)"

definition finalize_step :: "('r, 'c, 'res) runtime \<Rightarrow> ('r, 'res) MultiHandler
    \<Rightarrow> (bool \<times> ('r, 'res) MultiHandler) outcome" where
  "finalize_step rt h =
     (let (ok, h1) = receivedAll rt h; hp = s_helper (ops rt) (currentRound h1)
      in if \<not> ok then Ret (False, h1)
         else if \<not> checkBroadcastHash rt h1
           then obind (abort rt (Some (Err ''broadcast verification failed'')) [] h1) (\<lambda>h2. Ret (False, h2))
         else obind (s_finalize (ops rt) (currentRound h1) (Helper_N hp + 1)) (\<lambda>res. case res of
             Inl e \<Rightarrow> obind (abort rt (Some e) [SelfID (info hp)] h1) (\<lambda>h2. Ret (False, h2))
           | Inr (None, _) \<Rightarrow> obind (abort rt None [SelfID (info hp)] h1) (\<lambda>h2. Ret (False, h2))
           | Inr (Some r, out) \<Rightarrow> obind (forward rt r out h1) (enter_round rt r)))"


section \<open>Frame conditions of the operations\<close>

lemma obind_RetE:
  assumes "obind x f = Ret y"
  obtains z where "x = Ret z" and "f z = Ret y"
  using assms by (cases x) auto

lemma obind_case: "obind x f = (case x of Ret y \<Rightarrow> f y | Panic \<Rightarrow> Panic | Blocked \<Rightarrow> Blocked)"
  by (cases x) auto

lemma obind_Ret_iff: "obind x f = Ret y \<longleftrightarrow> (\<exists>z. x = Ret z \<and> f z = Ret y)"
  by (cases x) auto

text \<open>Parts of the state an operation leaves alone: the queues and the recorded hashes, the
  verdict and the channel.\<close>

definition same_queues :: "('r, 'res) MultiHandler \<Rightarrow> ('r, 'res) MultiHandler \<Rightarrow> bool" where
  "same_queues h h' \<longleftrightarrow> messages h' = messages h \<and> broadcast h' = broadcast h \<and>
     broadcastHashes h' = broadcastHashes h"

definition same_verdict :: "('r, 'res) MultiHandler \<Rightarrow> ('r, 'res) MultiHandler \<Rightarrow> bool" where
  "same_verdict h h' \<longleftrightarrow> h_err h' = h_err h \<and> h_result h' = h_result h \<and> h_out h' = h_out h \<and>
     h_outcap h' = h_outcap h \<and> h_outclosed h' = h_outclosed h"

lemma same_refl [simp]: "same_queues h h" "same_verdict h h"
  by (simp_all add: same_queues_def same_verdict_def)

lemma same_trans:
  "same_queues h h1 \<Longrightarrow> same_queues h1 h2 \<Longrightarrow> same_queues h h2"
  "same_verdict h h1 \<Longrightarrow> same_verdict h1 h2 \<Longrightarrow> same_verdict h h2"
  by (simp_all add: same_queues_def same_verdict_def)

lemma abort_Ret:
  assumes "abort rt e cs h = Ret h'"
  shows "same_queues h h'" and "rounds h' = rounds h" and "currentRound h' = currentRound h"
    and "h_result h' = h_result h" and "h_outcap h' = h_outcap h" and "h_outclosed h'"
    and "\<not> h_outclosed h"
    and "h_err h' = (case e of None \<Rightarrow> h_err h | Some x \<Rightarrow> Some \<lparr>Culprits = cs, pe_Err = x\<rparr>)"
  using assms
  by (auto simp: abort_def close_out_def send_def same_queues_def Let_def obind_Ret_iff
      split: option.splits if_splits)

lemma abort_open: "\<not> h_outclosed h \<Longrightarrow> \<exists>h'. abort rt e cs h = Ret h'"
  by (auto simp: abort_def close_out_def send_def Let_def split: option.splits)

lemma abort_closed: "h_outclosed h \<Longrightarrow> abort rt e cs h = Panic"
  by (auto simp: abort_def close_out_def send_def Let_def split: option.splits)

lemma set_round_frame [simp]:
  "same_queues h (set_round os n s h)" "same_verdict h (set_round os n s h)"
  "rounds (set_round os n s h) = mput n s (rounds h)"
  by (simp_all add: set_round_def same_queues_def same_verdict_def)

text \<open>Verifying a message changes nothing but the round object it is stored in.\<close>

lemma getRoundMessage_From: "getRoundMessage os m s = Inr rm \<Longrightarrow> rm_From rm = From m"
  by (auto simp: getRoundMessage_def Let_def split: if_split_asm session.split_asm option.split_asm)

lemma verifyMessage_cases:
  assumes "verifyMessage rt m h = Ret (e, h')"
  obtains "h' = h" and "e = None \<Longrightarrow> mget (rounds h) (RoundNumber m) = None \<or>
      qget (broadcast h) (RoundNumber m) (From m) = None \<and>
      (\<exists>s. mget (rounds h) (RoundNumber m) = Some s \<and> s_isBroadcast (ops rt) s)"
  | s rm s' where "e = None" and "mget (rounds h) (RoundNumber m) = Some s"
      and "s_store (ops rt) s rm = Ret (Inr s')" and "h' = set_round (ops rt) (RoundNumber m) s' h"
      and "rm_From rm = From m"
  using assms
  by (auto simp: verifyMessage_def obind_case dest!: getRoundMessage_From
      split: outcome.split_asm option.split_asm if_split_asm sum.split_asm)

lemma verifyBroadcastMessage_cases:
  assumes "verifyBroadcastMessage rt m h = Ret (e, h')"
  obtains "h' = h" and "e = None \<Longrightarrow> mget (rounds h) (RoundNumber m) = None"
  | s rm s' where "e = None" and "mget (rounds h) (RoundNumber m) = Some s"
      and "s_storeBroadcast (ops rt) s rm = Ret (Inr s')" and "h' = set_round (ops rt) (RoundNumber m) s' h"
      and "rm_From rm = From m"
      and "s_hasContent (ops rt) s' \<Longrightarrow> qget (messages h) (RoundNumber m) (From m) = None"
  | s rm s' p2p where "mget (rounds h) (RoundNumber m) = Some s"
      and "s_storeBroadcast (ops rt) s rm = Ret (Inr s')" and "rm_From rm = From m"
      and "qget (messages h) (RoundNumber m) (From m) = Some p2p"
      and "verifyMessage rt p2p (set_round (ops rt) (RoundNumber m) s' h) = Ret (e, h')"
proof -
  have q: "messages (set_round (ops rt) n s h) = messages h" for n s
    by (simp add: set_round_def)
  show ?thesis
    using assms that
    by (auto simp: verifyBroadcastMessage_def obind_case Let_def q dest!: getRoundMessage_From
        split: outcome.split_asm option.split_asm if_split_asm sum.split_asm)
qed

definition verify_frame :: "('r, 'res) MultiHandler \<Rightarrow> ('r, 'res) MultiHandler \<Rightarrow> bool" where
  "verify_frame h h' \<longleftrightarrow> same_queues h h' \<and> same_verdict h h' \<and>
     set (mkeys (rounds h')) = set (mkeys (rounds h))"

lemma verify_frame_refl [simp]: "verify_frame h h"
  by (simp add: verify_frame_def)

lemma verify_frame_trans: "verify_frame h h1 \<Longrightarrow> verify_frame h1 h2 \<Longrightarrow> verify_frame h h2"
  by (auto simp: verify_frame_def intro: same_trans)

lemma verify_frame_set_round:
  "mget (rounds h) n = Some s \<Longrightarrow> verify_frame h (set_round os n s' h)"
  by (auto simp: verify_frame_def set_mkeys split: if_splits)

lemma verifyMessage_frame: "verifyMessage rt m h = Ret (e, h') \<Longrightarrow> verify_frame h h'"
  by (erule verifyMessage_cases) (simp_all add: verify_frame_set_round)

lemma verifyBroadcastMessage_frame:
  assumes "verifyBroadcastMessage rt m h = Ret (e, h')"
  shows "verify_frame h h'"
  using assms
proof (cases rule: verifyBroadcastMessage_cases)
  case (3 s rm s' p2p)
  then show ?thesis
    by (meson verifyMessage_frame verify_frame_set_round verify_frame_trans)
qed (simp_all add: verify_frame_set_round)

text \<open>Handlers only grow: what is queued, recorded, visited or decided stays so.\<close>

definition qext :: "queue \<Rightarrow> queue \<Rightarrow> bool" where
  "qext q q' \<longleftrightarrow> (\<forall>n. mget q n = None \<longleftrightarrow> mget q' n = None) \<and>
     (\<forall>n i m. qget q n i = Some m \<longrightarrow> qget q' n i = Some m)"

definition hext :: "('r, 'res) MultiHandler \<Rightarrow> ('r, 'res) MultiHandler \<Rightarrow> bool" where
  "hext h h' \<longleftrightarrow> qext (messages h) (messages h') \<and> qext (broadcast h) (broadcast h') \<and>
     (\<forall>n x. mget (broadcastHashes h) n = Some x \<longrightarrow> mget (broadcastHashes h') n = Some x) \<and>
     set (mkeys (rounds h)) \<subseteq> set (mkeys (rounds h')) \<and>
     (finished h \<longrightarrow> finished h') \<and> (h_outclosed h \<longrightarrow> h_outclosed h')"

lemma qext_refl [simp]: "qext q q"
  by (simp add: qext_def)

lemma qext_trans: "qext q q1 \<Longrightarrow> qext q1 q2 \<Longrightarrow> qext q q2"
  by (simp add: qext_def)

lemma hext_refl [simp]: "hext h h"
  by (simp add: hext_def)

lemma hext_trans: "hext h h1 \<Longrightarrow> hext h1 h2 \<Longrightarrow> hext h h2"
  unfolding hext_def by (blast intro: qext_trans)

lemma hext_verify_frame: "verify_frame h h' \<Longrightarrow> hext h h'"
  by (simp add: verify_frame_def same_queues_def same_verdict_def hext_def finished_def)

lemma hext_abort: "abort rt e cs h = Ret h' \<Longrightarrow> hext h h'"
  using abort_Ret[of rt e cs h h']
  by (auto simp: hext_def same_queues_def finished_def split: option.splits)

lemma qext_put: "mget q n = Some m \<Longrightarrow> mget m i = None \<Longrightarrow> qext q (mput n (mput i x m) q)"
  by (auto simp: qext_def qget_def split: option.splits if_splits)

lemma hext_store: "hext h (store m h)"
  by (auto simp: hext_def store_def queue_of_def finished_def qext_put split: option.splits)

lemma store_frame [simp]:
  "rounds (store m h) = rounds h" "currentRound (store m h) = currentRound h"
  "h_err (store m h) = h_err h" "h_result (store m h) = h_result h"
  "h_out (store m h) = h_out h" "h_outcap (store m h) = h_outcap h"
  "h_outclosed (store m h) = h_outclosed h" "broadcastHashes (store m h) = broadcastHashes h"
  by (auto simp: store_def split: option.splits)

lemma duplicate_store: "RoundNumber m \<noteq> 0 \<Longrightarrow> duplicate (store m h) m"
  by (auto simp: duplicate_def store_def queue_of_def split: option.splits)

lemma duplicate_hext: "duplicate h m \<Longrightarrow> hext h h' \<Longrightarrow> duplicate h' m"
  by (cases "Broadcast m")
    (fastforce simp: duplicate_def hext_def qext_def qget_def queue_of_def split: if_splits option.splits)+

lemma send_Ret: "send m h = Ret h' \<longleftrightarrow>
    \<not> h_outclosed h \<and> length (h_out h) < h_outcap h \<and> h' = h\<lparr>h_out := h_out h @ [m]\<rparr>"
  by (auto simp: send_def)

lemma forward_frame:
  assumes "forward rt r rms h = Ret h'"
  shows "hext h h' \<and> rounds h' = rounds h \<and> currentRound h' = currentRound h \<and> h_err h' = h_err h
    \<and> h_result h' = h_result h \<and> h_outclosed h' = h_outclosed h \<and> h_outcap h' = h_outcap h
    \<and> broadcastHashes h' = broadcastHashes h \<and> messages h' = messages h"
  using assms
proof (induction rms arbitrary: h)
  case (Cons rm rms)
  then obtain bs where bs: "r_marshal (ops rt) (rm_Content rm) = Some bs"
    by (auto split: option.splits)
  define m where "m = wire_message rt r rm bs h"
  define h1 where "h1 = (if Broadcast m then store m h else h)"
  have h1: "hext h h1" "rounds h1 = rounds h" "currentRound h1 = currentRound h" "h_err h1 = h_err h"
    "h_result h1 = h_result h" "h_outclosed h1 = h_outclosed h" "h_outcap h1 = h_outcap h"
    "broadcastHashes h1 = broadcastHashes h" "messages h1 = messages h"
    by (auto simp: h1_def hext_store) (auto simp: store_def split: option.splits)
  obtain h2 where h2: "send m h1 = Ret h2" "forward rt r rms h2 = Ret h'"
    using Cons.prems bs by (auto simp: Let_def m_def[symmetric] h1_def[symmetric] elim!: obind_RetE)
  then have eq: "h2 = h1\<lparr>h_out := h_out h1 @ [m]\<rparr>" by (simp add: send_Ret)
  have "hext h1 h2" unfolding eq by (simp add: hext_def finished_def)
  then show ?case
    using Cons.IH[OF h2(2)] h1 by (auto simp: eq intro: hext_trans)
qed simp

lemma drain_Ret:
  assumes "drain rt verify q h = Ret (ok, h')"
    and frame: "\<And>m h e h'. verify m h = Ret (e, h') \<Longrightarrow> verify_frame h h'"
  shows "hext h h' \<and> (ok \<longrightarrow> verify_frame h h') \<and> (\<not> ok \<longrightarrow> finished h')"
  using assms(1)
proof (induction q arbitrary: h)
  case (Cons im q)
  obtain i m where im: "im = (i, m)" by force
  obtain e h1 where v: "verify m h = Ret (e, h1)"
    and k: "(case e of Some e' \<Rightarrow> obind (abort rt (Some e') [From m] h1) (\<lambda>h2. Ret (False, h2))
        | None \<Rightarrow> drain rt verify q h1) = Ret (ok, h')"
    using Cons.prems by (auto simp: im elim!: obind_RetE)
  have f: "verify_frame h h1" by (rule frame[OF v])
  show ?case
  proof (cases e)
    case None
    then show ?thesis
      using Cons.IH[of h1] k f by (auto intro: hext_trans verify_frame_trans hext_verify_frame)
  next
    case (Some x)
    then obtain h2 where a: "abort rt (Some x) [From m] h1 = Ret h2" "ok = False" "h' = h2"
      using k by (auto elim!: obind_RetE)
    show ?thesis
      using a abort_Ret(8)[OF a(1)] hext_trans[OF hext_verify_frame[OF f] hext_abort[OF a(1)]]
      by (simp add: finished_def)
  qed
qed simp

lemma enter_round_Ret:
  assumes "enter_round rt r h = Ret (again, h')"
  shows "hext h h'" and "again \<Longrightarrow> set (mkeys (rounds h)) \<subset> set (mkeys (rounds h'))"
proof -
  let ?n = "s_number (ops rt) r"
  let ?h1 = "h\<lparr>rounds := mput ?n r (rounds h), currentRound := r\<rparr>"
  have ext1: "hext h ?h1" "hext h (?h1\<lparr>h_result := Some res\<rparr>)" for res
    by (auto simp: hext_def finished_def)
  have strict: "set (mkeys (rounds h)) \<subset> set (mkeys (rounds ?h1))" if "mget (rounds h) ?n = None"
  proof -
    have "?n \<notin> set (mkeys (rounds h))" using that by (simp add: set_mkeys domIff)
    then show ?thesis by auto
  qed
  have "hext h h' \<and> (again \<longrightarrow> set (mkeys (rounds h)) \<subset> set (mkeys (rounds h')))"
  proof (cases "mget (rounds h) ?n")
    case None
    show ?thesis
    proof (cases r)
      case (Live lr)
      then obtain verify q where d: "drain rt verify q ?h1 = Ret (again, h')"
        and f: "\<And>m h e h'. verify m h = Ret (e, h') \<Longrightarrow> verify_frame h h'"
        using assms None that[OF _ verifyMessage_frame] that[OF _ verifyBroadcastMessage_frame]
        by (fastforce simp: enter_round_def Let_def split: if_splits)
      show ?thesis
        using drain_Ret[OF d f] strict[OF None] hext_trans[OF ext1(1)]
        by (auto simp: verify_frame_def)
    next
      case (AbortRound hp e cs)
      then have "abort rt (Some e) cs ?h1 = Ret h' \<and> \<not> again"
        using assms None by (auto simp: enter_round_def Let_def elim!: obind_RetE)
      then show ?thesis using hext_trans[OF ext1(1) hext_abort] by blast
    next
      case (OutputRound hp res)
      then have "abort rt None [] (?h1\<lparr>h_result := Some res\<rparr>) = Ret h' \<and> \<not> again"
        using assms None by (auto simp: enter_round_def Let_def elim!: obind_RetE)
      then show ?thesis using hext_trans[OF ext1(2) hext_abort] by blast
    qed
  qed (use assms in \<open>simp add: enter_round_def Let_def\<close>)
  then show "hext h h'" and "again \<Longrightarrow> set (mkeys (rounds h)) \<subset> set (mkeys (rounds h'))"
    by blast+
qed

lemma receivedAll_frame:
  assumes "receivedAll rt h = (ok, h')"
  shows "hext h h'" and "rounds h' = rounds h" and "currentRound h' = currentRound h"
    and "same_verdict h h'" and "messages h' = messages h" and "broadcast h' = broadcast h"
  using assms
  by (auto simp: receivedAll_def Let_def hext_def finished_def same_verdict_def split: if_splits)

lemma finalize_step_Ret:
  assumes "finalize_step rt h = Ret (again, h')"
  shows "hext h h'" and "again \<Longrightarrow> set (mkeys (rounds h)) \<subset> set (mkeys (rounds h'))"
proof -
  obtain ok h1 where r: "receivedAll rt h = (ok, h1)" by fastforce
  note fr = receivedAll_frame[OF r]
  have "hext h h' \<and> (again \<longrightarrow> set (mkeys (rounds h)) \<subset> set (mkeys (rounds h')))"
  proof (cases "\<exists>s out h2. forward rt s out h1 = Ret h2 \<and> enter_round rt s h2 = Ret (again, h')")
    case True
    then obtain s out h2 where f: "forward rt s out h1 = Ret h2" and e: "enter_round rt s h2 = Ret (again, h')"
      by blast
    show ?thesis
      using forward_frame[OF f] enter_round_Ret[OF e] fr by (auto intro: hext_trans)
  next
    case False
    then have "h' = h1 \<and> \<not> again \<or> (\<exists>x cs. abort rt x cs h1 = Ret h') \<and> \<not> again"
      using assms r
      by (auto simp: finalize_step_def Let_def obind_case
          split: if_split_asm outcome.split_asm sum.split_asm option.split_asm)
    then show ?thesis using fr(1) by (auto intro: hext_trans hext_abort)
  qed
  then show "hext h h'" and "again \<Longrightarrow> set (mkeys (rounds h)) \<subset> set (mkeys (rounds h'))" by blast+
qed

section \<open>The recursion of finalize, and the entry points\<close>

text \<open>
  \<open>finalize\<close> calls itself as long as it enters a new round. Round numbers are 16 bits wide and a round
  number that was visited before ends the recursion, so it stops after at most \<open>2^16\<close> rounds.
\<close>

function finalize :: "('r, 'c, 'res) runtime \<Rightarrow> ('r, 'res) MultiHandler \<Rightarrow> ('r, 'res) MultiHandler outcome" where
  "finalize rt h = (case finalize_step rt h of
       Ret (again, h') \<Rightarrow> if again then finalize rt h' else Ret h'
     | Panic \<Rightarrow> Panic
     | Blocked \<Rightarrow> Blocked)"
  by pat_completeness auto

termination
proof (relation "measure (\<lambda>(rt, h). card (UNIV - set (mkeys (rounds h))))", goal_cases)
  case (2 rt h x again h')
  then have "set (mkeys (rounds h)) \<subset> set (mkeys (rounds h'))"
    using finalize_step_Ret(2) by metis
  then have "UNIV - set (mkeys (rounds h')) \<subset> UNIV - set (mkeys (rounds h))" by blast
  then show ?case by (simp add: psubset_card_mono)
qed simp

declare finalize.simps [simp del]

definition NewMultiHandler :: "('r, 'c, 'res) runtime \<Rightarrow> (bytes option \<Rightarrow> go_error + ('r, 'res) session)
    \<Rightarrow> bytes option \<Rightarrow> (go_error + ('r, 'res) MultiHandler) outcome" where
  "NewMultiHandler rt create sessionID = (case create sessionID of
       Inl e \<Rightarrow> Ret (Inl (Wrap ''protocol: failed to create round'' e))
     | Inr r \<Rightarrow>
         (let hp = s_helper (ops rt) r in
          obind (finalize rt \<lparr>currentRound = r, rounds = [(s_number (ops rt) r, r)], h_err = None,
             h_result = None, messages = newQueue (FinalRoundNumber (info hp)),
             broadcast = newQueue (FinalRoundNumber (info hp)), broadcastHashes = [],
             h_out = [], h_outcap = 2 * Helper_N hp, h_outclosed = False\<rparr>) (\<lambda>h. Ret (Inr h))))"

definition aborted_text :: "bytes option \<Rightarrow> string" where
  "aborted_text d = ''aborted by other party with error: '' @ [CHR 0x22]
     @ map (\<lambda>b. char_of (unat b)) (case d of None \<Rightarrow> [] | Some bs \<Rightarrow> bs) @ [CHR 0x22]"

definition Accept :: "('r, 'c, 'res) runtime \<Rightarrow> Message option \<Rightarrow> ('r, 'res) MultiHandler
    \<Rightarrow> ('r, 'res) MultiHandler outcome" where
  "Accept rt msg h =
     (if \<not> CanAccept rt h msg \<or> h_err h \<noteq> None \<or> h_result h \<noteq> None \<or> duplicate h (the msg) then Ret h
      else let m = the msg in
        if RoundNumber m = 0 then abort rt (Some (Err (aborted_text (Data m)))) [From m] h
        else let h1 = store m h in
          if s_number (ops rt) (currentRound h1) \<noteq> RoundNumber m then Ret h1
          else obind (if Broadcast m then verifyBroadcastMessage rt m h1 else verifyMessage rt m h1)
            (\<lambda>(e, h2). case e of
                 Some e' \<Rightarrow> abort rt (Some e') [From m] h2
               | None \<Rightarrow> finalize rt h2))"

section \<open>Properties of every handler\<close>

lemma finalize_hext: "finalize rt h = Ret h' \<Longrightarrow> hext h h'"
proof (induction rt h rule: finalize.induct)
  case (1 rt h)
  then obtain again h1 where s: "finalize_step rt h = Ret (again, h1)"
    and k: "(if again then finalize rt h1 else Ret h1) = Ret h'"
    by (auto simp: finalize.simps[of rt h] split: outcome.splits)
  show ?case
    using 1(1)[OF s refl] k finalize_step_Ret(1)[OF s]
    by (cases again) (auto intro: hext_trans)
qed

abbreviation verify_either :: "('r, 'c, 'res) runtime \<Rightarrow> Message \<Rightarrow> ('r, 'res) MultiHandler
    \<Rightarrow> (go_error option \<times> ('r, 'res) MultiHandler) outcome" where
  "verify_either rt m h \<equiv> (if Broadcast m then verifyBroadcastMessage rt m h else verifyMessage rt m h)"

lemma verify_either_frame: "verify_either rt m h = Ret (e, h') \<Longrightarrow> verify_frame h h'"
  by (auto split: if_splits intro: verifyMessage_frame verifyBroadcastMessage_frame)

lemma Accept_cases:
  assumes "Accept rt msg h = Ret h'"
  obtains (ignored) "h' = h"
  | (told) m where "msg = Some m" "RoundNumber m = 0" "\<not> finished h"
      "abort rt (Some (Err (aborted_text (Data m)))) [From m] h = Ret h'"
  | (queued) m where "msg = Some m" "RoundNumber m \<noteq> 0" "CanAccept rt h (Some m)" "\<not> finished h"
      "s_number (ops rt) (currentRound h) \<noteq> RoundNumber m" "h' = store m h"
  | (bad) m e h2 where "msg = Some m" "RoundNumber m \<noteq> 0" "CanAccept rt h (Some m)" "\<not> finished h"
      "verify_either rt m (store m h) = Ret (Some e, h2)" "abort rt (Some e) [From m] h2 = Ret h'"
      "s_number (ops rt) (currentRound h) = RoundNumber m"
  | (good) m h2 where "msg = Some m" "RoundNumber m \<noteq> 0" "CanAccept rt h (Some m)" "\<not> finished h"
      "verify_either rt m (store m h) = Ret (None, h2)" "finalize rt h2 = Ret h'"
      "s_number (ops rt) (currentRound h) = RoundNumber m"
proof (cases "Accept rt msg h = Ret h \<and> h' = h")
  case True
  then show ?thesis using ignored by blast
next
  case False
  then obtain m where m: "msg = Some m" and ok: "CanAccept rt h (Some m)" "h_err h = None"
      "h_result h = None" "\<not> duplicate h m"
    using assms by (cases msg) (auto simp: Accept_def CanAccept_def split: if_splits)
  have nf: "\<not> finished h" using ok by (simp add: finished_def)
  show ?thesis
  proof (cases "RoundNumber m = 0")
    case True
    then show ?thesis using assms m ok nf told by (simp add: Accept_def)
  next
    case nz: False
    show ?thesis
    proof (cases "s_number (ops rt) (currentRound h) = RoundNumber m")
      case cur: True
      obtain e h2 where v: "verify_either rt m (store m h) = Ret (e, h2)"
        and k: "(case e of Some e' \<Rightarrow> abort rt (Some e') [From m] h2 | None \<Rightarrow> finalize rt h2) = Ret h'"
        using assms m ok nz cur by (auto simp: Accept_def Let_def elim!: obind_RetE)
      show ?thesis
        using v k good[OF m nz ok(1) nf _ _ cur, of h2] bad[OF m nz ok(1) nf _ _ cur, of _ h2]
        by (cases e) simp_all
    qed (use assms m ok nz nf queued in \<open>simp add: Accept_def Let_def\<close>)
  qed
qed

lemma Accept_hext:
  assumes "Accept rt msg h = Ret h'"
  shows "hext h h'"
  using assms
proof (cases rule: Accept_cases)
  case (bad m e h2)
  then show ?thesis
    using hext_trans[OF hext_trans[OF hext_store hext_verify_frame[OF verify_either_frame[OF bad(5)]]]
        hext_abort] by blast
next
  case (good m h2)
  then show ?thesis
    using hext_trans[OF hext_trans[OF hext_store hext_verify_frame[OF verify_either_frame[OF good(5)]]]
        finalize_hext] by blast
qed (auto intro: hext_store hext_abort)

lemma Accept_leaves_trace:
  assumes "Accept rt (Some m) h = Ret h'" and "h' \<noteq> h"
  shows "finished h' \<or> duplicate h' m"
  using assms(1)
proof (cases rule: Accept_cases)
  case (told m')
  then show ?thesis using abort_Ret(8)[OF told(4)] by (simp add: finished_def)
next
  case (bad m' e h2)
  then show ?thesis using abort_Ret(8)[OF bad(6)] by (simp add: finished_def)
next
  case (good m' h2)
  then show ?thesis
    using duplicate_hext[OF duplicate_store hext_trans[OF hext_verify_frame[OF verify_either_frame[OF good(5)]]
          finalize_hext]] by blast
qed (use assms(2) in \<open>auto simp: duplicate_store\<close>)

lemma Accept_ignored: "finished h \<or> duplicate h m \<Longrightarrow> Accept rt (Some m) h = Ret h"
  by (auto simp: Accept_def finished_def)

end
