(* ===== verification/HandlerInv.thy ===== *)
theory HandlerInv
  imports Handler
begin

text \<open>
  What the protocol engine guarantees for every protocol it runs. The locale \<open>round_protocol\<close> is the
  contract of \<open>round.Session\<close> (\<open>internal/round/round.go\<close>): storing a message keeps a round's number,
  session and kind, and \<open>Finalize\<close> leads to the next round or to one of the two final ones, within
  the same session. From it follow the invariant of every reachable handler and the echo-broadcast
  guarantee of \<open>checkBroadcastHash\<close>.
\<close>

definition same_session :: "Helper \<Rightarrow> Helper \<Rightarrow> bool" where
  "same_session a b \<longleftrightarrow> info b = info a \<and> partyIDs b = partyIDs a \<and> otherPartyIDs b = otherPartyIDs a \<and>
     ssid b = ssid a"

lemma same_session_refl [simp]: "same_session a a"
  by (simp add: same_session_def)

lemma same_session_trans: "same_session a b \<Longrightarrow> same_session b c \<Longrightarrow> same_session a c"
  by (simp add: same_session_def)

text \<open>Two states of the same round object.\<close>

definition same_round :: "('r, 'c, 'res) round_ops \<Rightarrow> 'r \<Rightarrow> 'r \<Rightarrow> bool" where
  "same_round os r r' \<longleftrightarrow> r_helper os r' = r_helper os r \<and> r_number os r' = r_number os r \<and>
     r_isBroadcast os r' = r_isBroadcast os r \<and> r_hasContent os r' = r_hasContent os r"

section \<open>The invariant of a handler\<close>

text \<open>Messages are filed under their own round, sender and kind; the senders are parties of the session,
  and only broadcasts of our own are kept.\<close>

definition sender_ok :: "Helper \<Rightarrow> bool \<Rightarrow> ID \<Rightarrow> bool" where
  "sender_ok hp b i \<longleftrightarrow> i \<in> set (partyIDs hp) \<and> (\<not> b \<longrightarrow> i \<noteq> SelfID (info hp))"

definition queue_inv :: "Helper \<Rightarrow> ('r, 'res) MultiHandler \<Rightarrow> bool" where
  "queue_inv hp h \<longleftrightarrow> (\<forall>b n i m. (i, m) \<in> set (qrange (queue_of b h) n) \<longrightarrow>
     RoundNumber m = n \<and> From m = i \<and> Broadcast m = b \<and> sender_ok hp b i)"

text \<open>There is a queue for every round that receives messages.\<close>

definition queue_dom :: "Helper \<Rightarrow> ('r, 'res) MultiHandler \<Rightarrow> bool" where
  "queue_dom hp h \<longleftrightarrow> (\<forall>b n. mget (queue_of b h) n \<noteq> None \<longleftrightarrow> 2 \<le> n \<and> n \<le> FinalRoundNumber (info hp))"

text \<open>A recorded hash is the hash of the round's broadcasts, one of every party.\<close>

definition hash_inv :: "('r, 'c, 'res) runtime \<Rightarrow> ('r, 'res) MultiHandler \<Rightarrow> bool" where
  "hash_inv rt h \<longleftrightarrow> (\<forall>n x. mget (broadcastHashes h) n = Some x \<longrightarrow>
     (\<exists>s. mget (rounds h) n = Some s \<and>
       (\<forall>i\<in>set (partyIDs (s_helper (ops rt) s)). qget (broadcast h) n i \<noteq> None) \<and>
       x = hash_Sum (blake3 rt) (broadcast_transcript (blake3 rt) (hstate (s_helper (ops rt) s))
             (broadcast h) n (partyIDs (s_helper (ops rt) s)))))"

text \<open>In every round the handler has left, all messages carry the hash it computed for the round before.\<close>

definition echo_inv :: "('r, 'c, 'res) runtime \<Rightarrow> ('r, 'res) MultiHandler \<Rightarrow> bool" where
  "echo_inv rt h \<longleftrightarrow> (\<forall>n x b i m. n \<noteq> 0 \<longrightarrow> n \<in> set (mkeys (rounds h)) \<longrightarrow>
     n \<noteq> s_number (ops rt) (currentRound h) \<longrightarrow> mget (broadcastHashes h) (n - 1) = Some x \<longrightarrow>
     qget (queue_of b h) n i = Some m \<longrightarrow> bytes_Equal (BroadcastVerification m) x)"

text \<open>The sessions a handler goes through satisfy what the protocol guarantees of its rounds and results.\<close>

fun sgood :: "('r \<Rightarrow> bool) \<Rightarrow> (('r, 'res) session \<Rightarrow> bool) \<Rightarrow> ('r, 'res) session \<Rightarrow> bool" where
  "sgood good final_ok (Live r) = good r"
| "sgood good final_ok s = final_ok s"

definition rounds_inv :: "('r, 'c, 'res) runtime \<Rightarrow> (('r, 'res) session \<Rightarrow> bool) \<Rightarrow> Helper \<Rightarrow> ('r, 'res) MultiHandler \<Rightarrow> bool" where
  "rounds_inv rt good hp h \<longleftrightarrow>
     mget (rounds h) (s_number (ops rt) (currentRound h)) = Some (currentRound h) \<and>
     (\<forall>n s. mget (rounds h) n = Some s \<longrightarrow> s_number (ops rt) s = n \<and>
        same_session hp (s_helper (ops rt) s) \<and> good s)"

definition core_inv :: "('r, 'c, 'res) runtime \<Rightarrow> (('r, 'res) session \<Rightarrow> bool) \<Rightarrow> Helper \<Rightarrow> ('r, 'res) MultiHandler \<Rightarrow> bool" where
  "core_inv rt good hp h \<longleftrightarrow>
     rounds_inv rt good hp h \<and> queue_inv hp h \<and> queue_dom hp h \<and> hash_inv rt h \<and> echo_inv rt h"

text \<open>A handler is running, in a live round with all earlier rounds behind it and its channel open, or it
  has ended with a result or an error and its channel is closed.\<close>

definition running :: "('r, 'c, 'res) runtime \<Rightarrow> (('r, 'res) session \<Rightarrow> bool) \<Rightarrow> Helper \<Rightarrow> ('r, 'res) MultiHandler \<Rightarrow> bool" where
  "running rt good hp h \<longleftrightarrow> core_inv rt good hp h \<and> \<not> h_outclosed h \<and> \<not> finished h \<and>
     (\<exists>r. currentRound h = Live r \<and> set (mkeys (rounds h)) = {1..r_number (ops rt) r})"

definition ended :: "('r, 'c, 'res) runtime \<Rightarrow> (('r, 'res) session \<Rightarrow> bool) \<Rightarrow> Helper \<Rightarrow> ('r, 'res) MultiHandler \<Rightarrow> bool" where
  "ended rt good hp h \<longleftrightarrow> core_inv rt good hp h \<and> h_outclosed h \<and>
     ((h_err h \<noteq> None \<and> h_result h = None) \<or>
      (h_err h = None \<and> (\<exists>hp' res. h_result h = Some res \<and> currentRound h = OutputRound hp' res)))"

section \<open>Preservation by the elementary operations\<close>

lemma qget_put:
  "mget q n = Some m \<Longrightarrow> qget (mput n (mput i x m) q) n' i' =
     (if n' = n \<and> i' = i then Some x else qget q n' i')"
  by (auto simp: qget_def split: option.splits)

lemma qget_store:
  "qget (queue_of b (store m h)) n i =
     (if b = Broadcast m \<and> n = RoundNumber m \<and> i = From m \<and> mget (queue_of b h) n \<noteq> None
         \<and> qget (queue_of b h) n i = None then Some m else qget (queue_of b h) n i)"
proof (cases "mget (queue_of (Broadcast m) h) (RoundNumber m)")
  case None
  then show ?thesis by (auto simp: store_def queue_of_def)
next
  case (Some q)
  show ?thesis
  proof (cases "mget q (From m)")
    case None
    have "qget (queue_of (Broadcast m) h) (RoundNumber m) (From m) = None"
      using Some None by (simp add: qget_def)
    then show ?thesis
      using Some None by (auto simp: store_def queue_of_def qget_put)
  next
    case (Some m')
    then show ?thesis
      using \<open>mget (queue_of (Broadcast m) h) (RoundNumber m) = Some q\<close>
      by (auto simp: store_def qget_def)
  qed
qed

lemma qget_queue_of: "qget (broadcast h) n i = qget (queue_of True h) n i"
  "qget (messages h) n i = qget (queue_of False h) n i"
  by (simp_all add: queue_of_def)

lemma same_queues_queue_of: "same_queues h h' \<Longrightarrow> queue_of b h' = queue_of b h"
  by (simp add: same_queues_def queue_of_def)

lemma transcript_cong:
  "(\<And>i. i \<in> set ids \<Longrightarrow> qget q' n i = qget q n i) \<Longrightarrow>
   broadcast_transcript b3 hs q' n ids = broadcast_transcript b3 hs q n ids"
  unfolding broadcast_transcript_def by (rule foldl_cong) auto

lemma set_mput: "set (mput k v m) \<subseteq> insert (k, v) (set m)"
  by (induction m) auto

lemma qrange_store:
  "set (qrange (queue_of b (store m h)) n) \<subseteq> set (qrange (queue_of b h) n) \<union>
     (if b = Broadcast m \<and> n = RoundNumber m then {(From m, m)} else {})"
  using set_mput[of "From m" m]
  by (auto simp: store_def queue_of_def qrange_def split: option.splits if_splits)

lemma queue_inv_store:
  assumes "queue_inv hp h" and "sender_ok hp (Broadcast m) (From m)"
  shows "queue_inv hp (store m h)"
  unfolding queue_inv_def
proof (intro allI impI)
  fix b n i x assume "(i, x) \<in> set (qrange (queue_of b (store m h)) n)"
  then have "(i, x) \<in> set (qrange (queue_of b h) n) \<or>
      (b = Broadcast m \<and> n = RoundNumber m \<and> i = From m \<and> x = m)"
    using qrange_store[of b m h n] by (auto split: if_splits)
  then show "RoundNumber x = n \<and> From x = i \<and> Broadcast x = b \<and> sender_ok hp b i"
    using assms unfolding queue_inv_def by blast
qed

lemma queue_dom_hext:
  assumes "queue_dom hp h" and "hext h h'"
  shows "queue_dom hp h'"
proof -
  have "mget (queue_of b h') n = None \<longleftrightarrow> mget (queue_of b h) n = None" for b n
    using assms(2) by (cases b) (simp_all add: hext_def qext_def queue_of_def)
  then show ?thesis using assms(1) by (simp add: queue_dom_def)
qed

lemma qget_in_qrange: "qget q n i = Some m \<Longrightarrow> (i, m) \<in> set (qrange q n)"
  by (auto simp: qget_def qrange_def split: option.splits dest: map_of_SomeD)

lemma queue_inv_qget:
  "queue_inv hp h \<Longrightarrow> qget (queue_of b h) n i = Some m \<Longrightarrow>
     RoundNumber m = n \<and> From m = i \<and> Broadcast m = b \<and> sender_ok hp b i"
  unfolding queue_inv_def using qget_in_qrange by blast

text \<open>The invariants about recorded hashes survive any extension of the queues that files nothing
  under a round already left.\<close>

lemma hash_inv_ext:
  assumes "hash_inv rt h" and "qext (broadcast h) (broadcast h')"
    and "broadcastHashes h' = broadcastHashes h"
    and "\<And>n s. mget (rounds h) n = Some s \<Longrightarrow>
      \<exists>s'. mget (rounds h') n = Some s' \<and> s_helper (ops rt) s' = s_helper (ops rt) s"
  shows "hash_inv rt h'"
  unfolding hash_inv_def
proof (intro allI impI)
  fix n x assume "mget (broadcastHashes h') n = Some x"
  then obtain s where s: "mget (rounds h) n = Some s"
    "\<forall>i\<in>set (partyIDs (s_helper (ops rt) s)). qget (broadcast h) n i \<noteq> None"
    "x = hash_Sum (blake3 rt) (broadcast_transcript (blake3 rt) (hstate (s_helper (ops rt) s))
       (broadcast h) n (partyIDs (s_helper (ops rt) s)))"
    using assms(1,3) that unfolding hash_inv_def by metis
  obtain s' where s': "mget (rounds h') n = Some s'" "s_helper (ops rt) s' = s_helper (ops rt) s"
    using assms(4)[OF s(1)] by blast
  have q: "qget (broadcast h') n i = qget (broadcast h) n i" if "i \<in> set (partyIDs (s_helper (ops rt) s))" for i
    using that s(2) assms(2) by (fastforce simp: qext_def)
  show "\<exists>s. mget (rounds h') n = Some s \<and>
      (\<forall>i\<in>set (partyIDs (s_helper (ops rt) s)). qget (broadcast h') n i \<noteq> None) \<and>
      x = hash_Sum (blake3 rt) (broadcast_transcript (blake3 rt) (hstate (s_helper (ops rt) s))
        (broadcast h') n (partyIDs (s_helper (ops rt) s)))"
    using s' s(2,3) q transcript_cong[of "partyIDs (s_helper (ops rt) s)" "broadcast h'" n "broadcast h"]
    by auto
qed

lemma core_inv_store:
  assumes "core_inv rt good hp h" and "sender_ok hp (Broadcast m) (From m)"
    and "RoundNumber m \<notin> set (mkeys (rounds h)) \<or> RoundNumber m = s_number (ops rt) (currentRound h)"
  shows "core_inv rt good hp (store m h)"
proof -
  have "rounds_inv rt good hp (store m h)" "queue_inv hp (store m h)" "queue_dom hp (store m h)"
    using assms(1,2) queue_dom_hext[OF _ hext_store]
    by (auto simp: core_inv_def rounds_inv_def queue_inv_store)
  moreover have "hash_inv rt (store m h)"
    using hash_inv_ext[of rt h "store m h"] hext_store[of h m] assms(1) by (simp add: core_inv_def hext_def)
  moreover have "echo_inv rt (store m h)"
    using assms unfolding core_inv_def echo_inv_def by (auto simp: qget_store)
  ultimately show ?thesis by (simp add: core_inv_def)
qed

lemma core_inv_verdict:
  assumes "core_inv rt good hp h" and "same_queues h h'" and "rounds h' = rounds h"
    and "currentRound h' = currentRound h"
  shows "core_inv rt good hp h'"
  using assms same_queues_queue_of[OF assms(2)]
  by (simp add: core_inv_def rounds_inv_def queue_inv_def queue_dom_def hash_inv_def echo_inv_def same_queues_def)

lemma core_inv_abort: "core_inv rt good hp h \<Longrightarrow> abort rt e cs h = Ret h' \<Longrightarrow> core_inv rt good hp h'"
  by (erule core_inv_verdict) (simp_all add: abort_Ret)

lemma running_abort:
  "running rt good hp h \<Longrightarrow> abort rt (Some e) cs h = Ret h' \<Longrightarrow> ended rt good hp h'"
  using abort_Ret[of rt "Some e" cs h h'] core_inv_abort[of rt good hp h "Some e" cs h']
  by (auto simp: running_def ended_def finished_def)

lemma Number_less_Suc: "(k :: Number) < - 1 \<Longrightarrow> k < k + 1"
  by uint_arith

lemma Number_atLeastAtMost_Suc: "(k :: Number) < - 1 \<Longrightarrow> {1..k + 1} = insert (k + 1) {1..k}"
proof -
  assume a: "k < - 1"
  have "x \<le> k + 1 \<longleftrightarrow> x = k + 1 \<or> x \<le> k" for x :: Number
    using a by uint_arith
  moreover have "1 \<le> k + 1" using a by uint_arith
  ultimately show ?thesis by auto
qed

lemma map_sum_InrE:
  assumes "map_sum f g x = Inr y"
  obtains z where "x = Inr z" and "y = g z"
  using assms by (cases x) auto

text \<open>All messages of a round carry the hash recorded for the round before.\<close>

definition echo_ok :: "('r, 'res) MultiHandler \<Rightarrow> Number \<Rightarrow> bool" where
  "echo_ok h n \<longleftrightarrow> (\<forall>x b i m. mget (broadcastHashes h) (n - 1) = Some x \<longrightarrow>
     qget (queue_of b h) n i = Some m \<longrightarrow> bytes_Equal (BroadcastVerification m) x)"

lemma checkBroadcastHash_echo_ok:
  assumes "checkBroadcastHash rt h"
  shows "echo_ok h (s_number (ops rt) (currentRound h))"
  unfolding echo_ok_def
proof (intro allI impI)
  fix x b i m
  let ?n = "s_number (ops rt) (currentRound h)"
  assume a: "mget (broadcastHashes h) (?n - 1) = Some x" "qget (queue_of b h) ?n i = Some m"
  then have "(i, m) \<in> set (qrange (messages h) ?n) \<or> (i, m) \<in> set (qrange (broadcast h) ?n)"
    using qget_in_qrange[OF a(2)] by (cases b) (simp_all add: queue_of_def)
  then show "bytes_Equal (BroadcastVerification m) x"
    using assms a(1) by (auto simp: checkBroadcastHash_def Let_def list_all_iff)
qed

lemma forward_qget:
  assumes "forward rt s out h = Ret h'" and "\<forall>m\<in>set out. r_contentRound (ops rt) (rm_Content m) \<noteq> n"
  shows "qget (queue_of b h') n i = qget (queue_of b h) n i"
  using assms
proof (induction out arbitrary: h)
  case (Cons rm out)
  then obtain bs where bs: "r_marshal (ops rt) (rm_Content rm) = Some bs"
    by (auto split: option.splits)
  define m where "m = wire_message rt s rm bs h"
  define h1 where "h1 = (if Broadcast m then store m h else h)"
  obtain h2 where h2: "send m h1 = Ret h2" "forward rt s out h2 = Ret h'"
    using Cons.prems(1) bs by (auto simp: Let_def m_def[symmetric] h1_def[symmetric] elim!: obind_RetE)
  have "RoundNumber m \<noteq> n"
    using Cons.prems(2) by (simp add: m_def wire_message_def Let_def)
  then have "qget (queue_of b h1) n i = qget (queue_of b h) n i"
    by (simp add: h1_def qget_store)
  moreover have "queue_of b h2 = queue_of b h1" using h2(1) by (auto simp: send_Ret queue_of_def)
  ultimately show ?case using Cons.IH[OF h2(2)] Cons.prems(2) by simp
qed simp

lemma qrange_newQueue [simp]: "qrange (newQueue n) k = []"
  by (auto simp: qrange_def newQueue_def simp del: upt_Suc split: option.splits dest!: map_of_SomeD)

lemma qget_newQueue [simp]: "qget (newQueue n) k i = None"
  using qget_in_qrange[of "newQueue n" k i] by (cases "qget (newQueue n) k i") auto

lemma newQueue_dom: "mget (newQueue k) n \<noteq> None \<longleftrightarrow> 2 \<le> n \<and> n \<le> k"
proof -
  have "(\<exists>i\<in>{2..<Suc (unat k)}. n = word_of_nat i) \<longleftrightarrow> 2 \<le> n \<and> n \<le> k"
  proof
    assume "2 \<le> n \<and> n \<le> k"
    then have "2 \<le> unat n" "unat n \<le> unat k" by (simp_all add: word_le_nat_alt)
    then show "\<exists>i\<in>{2..<Suc (unat k)}. n = word_of_nat i"
      by (intro bexI[of _ "unat n"]) simp_all
  next
    assume "\<exists>i\<in>{2..<Suc (unat k)}. n = word_of_nat i"
    then obtain i where i: "2 \<le> i" "i \<le> unat k" "n = word_of_nat i" by auto
    have "i < 2 ^ 16" using i(2) unsigned_less[of k, where ?'a = nat] by simp
    then have "unat n = i" using i(3) by (simp add: unat_of_nat)
    then show "2 \<le> n \<and> n \<le> k" using i by (simp add: word_le_nat_alt)
  qed
  then show ?thesis
    by (simp add: newQueue_def map_of_eq_None_iff image_image del: upt_Suc) (simp add: image_iff Bex_def)
qed

section \<open>Reachable handlers\<close>

text \<open>A handler started on a first round, after any sequence of calls that return.\<close>

inductive reachable :: "('r, 'c, 'res) runtime \<Rightarrow> ('r, 'res) session \<Rightarrow> ('r, 'res) MultiHandler \<Rightarrow> bool"
  for rt r where
  start: "create sid = Inr r \<Longrightarrow> NewMultiHandler rt create sid = Ret (Inr h) \<Longrightarrow> reachable rt r h"
| accept: "reachable rt r h \<Longrightarrow> Accept rt msg h = Ret h' \<Longrightarrow> reachable rt r h'"
| listen: "reachable rt r h \<Longrightarrow> Listen_recv h = (m, h') \<Longrightarrow> reachable rt r h'"
| stop: "reachable rt r h \<Longrightarrow> Stop rt h = Ret h' \<Longrightarrow> reachable rt r h'"

text \<open>The handler \<open>NewMultiHandler\<close> builds before it finalizes the first round.\<close>

definition started_handler :: "Helper \<Rightarrow> 'r \<Rightarrow> ('r, 'res) MultiHandler" where
  "started_handler hp r = \<lparr>currentRound = Live r, rounds = [(1, Live r)], h_err = None, h_result = None,
     messages = newQueue (FinalRoundNumber (info hp)), broadcast = newQueue (FinalRoundNumber (info hp)),
     broadcastHashes = [], h_out = [], h_outcap = 2 * Helper_N hp, h_outclosed = False\<rparr>"

section \<open>The contract of a protocol's rounds\<close>

text \<open>What \<open>NewSession\<close> establishes.\<close>

definition session_ok :: "Helper \<Rightarrow> bool" where
  "session_ok hp \<longleftrightarrow> Valid (partyIDs hp) \<and> SelfID (info hp) \<in> set (partyIDs hp) \<and>
     set (otherPartyIDs hp) = set (partyIDs hp) - {SelfID (info hp)} \<and>
     length (otherPartyIDs hp) < Helper_N hp"

text \<open>Every other party's messages for the round have been stored; \<open>gotB\<close> and \<open>gotM\<close> are the
  senders of the broadcasts and of the direct messages a round has stored.\<close>

definition complete :: "('r, 'c, 'res) round_ops \<Rightarrow> ('r \<Rightarrow> ID set) \<Rightarrow> ('r \<Rightarrow> ID set) \<Rightarrow> 'r \<Rightarrow> bool" where
  "complete os gotB gotM r \<longleftrightarrow>
     (r_isBroadcast os r \<longrightarrow> set (otherPartyIDs (r_helper os r)) \<subseteq> gotB r) \<and>
     (r_hasContent os r \<longrightarrow> set (otherPartyIDs (r_helper os r)) \<subseteq> gotM r)"

text \<open>
  A handler at rest has delivered every queued message of the current round that can be delivered: all
  broadcasts, and the direct messages whose sender's broadcast, if the round has one, is there. The
  sets \<open>SB\<close> and \<open>SM\<close> name senders for which this is still outstanding.
\<close>

definition settledX :: "('r, 'c, 'res) runtime \<Rightarrow> ('r \<Rightarrow> ID set) \<Rightarrow> ('r \<Rightarrow> ID set) \<Rightarrow> ID set \<Rightarrow> ID set
    \<Rightarrow> ('r, 'res) MultiHandler \<Rightarrow> bool" where
  "settledX rt gotB gotM SB SM h \<longleftrightarrow> (\<forall>r n. currentRound h = Live r \<longrightarrow> n = r_number (ops rt) r \<longrightarrow>
     (\<forall>i\<in>set (otherPartyIDs (r_helper (ops rt) r)).
        (r_isBroadcast (ops rt) r \<longrightarrow> qget (broadcast h) n i \<noteq> None \<longrightarrow> i \<notin> SB \<longrightarrow> i \<in> gotB r) \<and>
        (r_hasContent (ops rt) r \<longrightarrow> qget (messages h) n i \<noteq> None \<longrightarrow>
           (r_isBroadcast (ops rt) r \<longrightarrow> qget (broadcast h) n i \<noteq> None) \<longrightarrow> i \<notin> SM \<longrightarrow> i \<in> gotM r)))"

abbreviation settled :: "('r, 'c, 'res) runtime \<Rightarrow> ('r \<Rightarrow> ID set) \<Rightarrow> ('r \<Rightarrow> ID set)
    \<Rightarrow> ('r, 'res) MultiHandler \<Rightarrow> bool" where
  "settled rt gotB gotM h \<equiv> settledX rt gotB gotM {} {} h"

definition handler_inv :: "('r, 'c, 'res) runtime \<Rightarrow> (('r, 'res) session \<Rightarrow> bool) \<Rightarrow> ('r \<Rightarrow> ID set)
    \<Rightarrow> ('r \<Rightarrow> ID set) \<Rightarrow> Helper \<Rightarrow> ('r, 'res) MultiHandler \<Rightarrow> bool" where
  "handler_inv rt good gotB gotM hp h \<longleftrightarrow>
     (running rt good hp h \<and> settled rt gotB gotM h) \<or> ended rt good hp h"

lemma qget_store_same:
  "n \<noteq> RoundNumber m \<or> i \<noteq> From m \<Longrightarrow> qget (queue_of b (store m h)) n i = qget (queue_of b h) n i"
  "b \<noteq> Broadcast m \<Longrightarrow> qget (queue_of b (store m h)) n i = qget (queue_of b h) n i"
  by (auto simp: qget_store)

lemma settledX_store:
  assumes "settledX rt gotB gotM SB SM h"
  shows "settledX rt gotB gotM (if Broadcast m then insert (From m) SB else SB) (insert (From m) SM) (store m h)"
  unfolding settledX_def
proof (intro allI impI ballI conjI)
  fix r n i
  assume c: "currentRound (store m h) = Live r" "n = r_number (ops rt) r"
    and i: "i \<in> set (otherPartyIDs (r_helper (ops rt) r))"
  { assume b: "r_isBroadcast (ops rt) r" "qget (broadcast (store m h)) n i \<noteq> None"
      and x: "i \<notin> (if Broadcast m then insert (From m) SB else SB)"
    have "qget (broadcast (store m h)) n i = qget (broadcast h) n i"
      using x qget_store_same(1)[of n m i True h] qget_store_same(2)[of True m h n i]
      unfolding qget_queue_of by (auto split: if_splits)
    then show "i \<in> gotB r" using assms b x c i by (auto simp: settledX_def split: if_splits) }
  { assume b: "r_hasContent (ops rt) r" "qget (messages (store m h)) n i \<noteq> None"
      "r_isBroadcast (ops rt) r \<longrightarrow> qget (broadcast (store m h)) n i \<noteq> None"
      and x: "i \<notin> insert (From m) SM"
    have "qget (broadcast (store m h)) n i = qget (broadcast h) n i"
      "qget (messages (store m h)) n i = qget (messages h) n i"
      using x qget_store_same(1)[of n m i _ h] unfolding qget_queue_of by auto
    then show "i \<in> gotM r" using assms b x c i by (auto simp: settledX_def) }
qed

lemma settledX_store_other:
  assumes "settledX rt gotB gotM SB SM h" and "s_number (ops rt) (currentRound h) \<noteq> RoundNumber m"
  shows "settledX rt gotB gotM SB SM (store m h)"
proof -
  have "qget (queue_of b (store m h)) n i = qget (queue_of b h) n i"
    if "currentRound h = Live r" "n = r_number (ops rt) r" for b n i r
    using that assms(2) qget_store_same(1)[of n m i b h] by auto
  then show ?thesis using assms(1) unfolding settledX_def qget_queue_of by simp
qed

lemma settledX_same:
  assumes "settledX rt gotB gotM SB SM h" and "messages h' = messages h" and "broadcast h' = broadcast h"
    and "currentRound h' = currentRound h"
  shows "settledX rt gotB gotM SB SM h'"
  using assms by (simp add: settledX_def)

text \<open>Replacing the current round by one that has stored more messages.\<close>

lemma settledX_set_round:
  assumes "settledX rt gotB gotM SB SM h" and "currentRound h = Live r" and "n = r_number (ops rt) r"
    and "same_round (ops rt) r r'" and "gotB r \<subseteq> gotB r'" and "gotM r \<subseteq> gotM r'"
  shows "settledX rt gotB gotM (SB - gotB r') (SM - gotM r') (set_round (ops rt) n (Live r') h)"
proof -
  have f: "currentRound (set_round (ops rt) n (Live r') h) = Live r'"
    "messages (set_round (ops rt) n (Live r') h) = messages h"
    "broadcast (set_round (ops rt) n (Live r') h) = broadcast h"
    using assms(2,3) by (simp_all add: set_round_def)
  show ?thesis
    using assms unfolding settledX_def f same_round_def by auto
qed

lemma settledX_mono:
  "settledX rt gotB gotM SB SM h \<Longrightarrow> SB \<subseteq> SB' \<Longrightarrow> SM \<subseteq> SM' \<Longrightarrow> settledX rt gotB gotM SB' SM' h"
  unfolding settledX_def by (simp add: subset_iff) meson

locale round_protocol =
  fixes rt :: "('r, 'c, 'res) runtime" and good :: "'r \<Rightarrow> bool"
    and gotB :: "'r \<Rightarrow> ID set" and gotM :: "'r \<Rightarrow> ID set" and final_ok :: "('r, 'res) session \<Rightarrow> bool"
  assumes store_keeps: "good r \<Longrightarrow> rm_From m \<in> set (otherPartyIDs (r_helper (ops rt) r)) \<Longrightarrow>
      r_store (ops rt) r m = Ret (Inr r') \<Longrightarrow>
      same_round (ops rt) r r' \<and> good r' \<and> gotB r \<subseteq> gotB r' \<and> insert (rm_From m) (gotM r) \<subseteq> gotM r'"
    and storeBroadcast_keeps: "good r \<Longrightarrow> rm_From m \<in> set (otherPartyIDs (r_helper (ops rt) r)) \<Longrightarrow>
      r_storeBroadcast (ops rt) r m = Ret (Inr r') \<Longrightarrow>
      same_round (ops rt) r r' \<and> good r' \<and> gotM r \<subseteq> gotM r' \<and> insert (rm_From m) (gotB r) \<subseteq> gotB r'"
    and finalize_next: "good r \<Longrightarrow> complete (ops rt) gotB gotM r \<Longrightarrow>
      r_finalize (ops rt) r cap = Ret (Inr (x, out)) \<Longrightarrow>
      \<exists>s. x = Some s \<and> same_session (r_helper (ops rt) r) (s_helper (ops rt) s) \<and>
        (\<forall>r'. s = Live r' \<longrightarrow> good r' \<and> r_number (ops rt) r' = r_number (ops rt) r + 1) \<and>
        ((\<forall>r'. s \<noteq> Live r') \<longrightarrow> final_ok s)"
    and finalize_messages: "good r \<Longrightarrow> r_finalize (ops rt) r cap = Ret (Inr (x, out)) \<Longrightarrow> m \<in> set out \<Longrightarrow>
      r_contentRound (ops rt) (rm_Content m) = r_number (ops rt) r + 1"
    and good_session: "good r \<Longrightarrow> session_ok (r_helper (ops rt) r)"
    and good_number: "good r \<Longrightarrow> 1 \<le> r_number (ops rt) r \<and>
      r_number (ops rt) r \<le> FinalRoundNumber (info (r_helper (ops rt) r)) \<and>
      FinalRoundNumber (info (r_helper (ops rt) r)) < - 1"
    and good_receives: "good r \<Longrightarrow> r_isBroadcast (ops rt) r \<or> r_hasContent (ops rt) r \<Longrightarrow>
      2 \<le> r_number (ops rt) r"
    and order_set: "set (range_order rt q) = set q"
begin

abbreviation ok :: "('r, 'res) session \<Rightarrow> bool" where
  "ok \<equiv> sgood good final_ok"

lemma s_store_keeps:
  assumes "s_store (ops rt) s m = Ret (Inr s')" and "ok s"
    and "rm_From m \<in> set (otherPartyIDs (s_helper (ops rt) s))"
  shows "s_helper (ops rt) s' = s_helper (ops rt) s \<and> s_number (ops rt) s' = s_number (ops rt) s \<and>
    ((\<exists>r. s = Live r) \<longleftrightarrow> (\<exists>r. s' = Live r)) \<and> ok s'"
proof (cases s)
  case (Live r)
  then obtain r' where "r_store (ops rt) r m = Ret (Inr r')" "s' = Live r'"
    using assms(1) by (auto elim!: obind_RetE map_sum_InrE)
  then show ?thesis using store_keeps[of r m r'] assms(2,3) Live by (simp add: same_round_def)
qed (use assms in auto)

lemma s_storeBroadcast_keeps:
  assumes "s_storeBroadcast (ops rt) s m = Ret (Inr s')" and "ok s"
    and "rm_From m \<in> set (otherPartyIDs (s_helper (ops rt) s))"
  shows "s_helper (ops rt) s' = s_helper (ops rt) s \<and> s_number (ops rt) s' = s_number (ops rt) s \<and>
    ((\<exists>r. s = Live r) \<longleftrightarrow> (\<exists>r. s' = Live r)) \<and> ok s'"
proof (cases s)
  case (Live r)
  then obtain r' where "r_storeBroadcast (ops rt) r m = Ret (Inr r')" "s' = Live r'"
    using assms(1) by (auto elim!: obind_RetE map_sum_InrE split: if_splits)
  then show ?thesis using storeBroadcast_keeps[of r m r'] assms(2,3) Live by (simp add: same_round_def)
qed (use assms in auto)

lemma running_set_round:
  assumes run: "running rt ok hp h" and s: "mget (rounds h) n = Some s"
    and keep: "s_helper (ops rt) s' = s_helper (ops rt) s \<and> s_number (ops rt) s' = s_number (ops rt) s \<and>
      ((\<exists>r. s = Live r) \<longleftrightarrow> (\<exists>r. s' = Live r)) \<and> ok s'"
  shows "running rt ok hp (set_round (ops rt) n s' h)"
proof -
  let ?h = "set_round (ops rt) n s' h"
  have core: "rounds_inv rt ok hp h" "queue_inv hp h" "queue_dom hp h" "hash_inv rt h" "echo_inv rt h"
    using run by (simp_all add: running_def core_inv_def)
  have n: "s_number (ops rt) s = n" and ss: "same_session hp (s_helper (ops rt) s)"
    using core(1) s by (auto simp: rounds_inv_def)
  have cur: "s_number (ops rt) (currentRound ?h) = s_number (ops rt) (currentRound h)"
    using keep n by (simp add: set_round_def)
  have keys: "set (mkeys (rounds ?h)) = set (mkeys (rounds h))"
    using s by (auto simp: set_mkeys split: if_splits)
  have q: "queue_of b ?h = queue_of b h" for b
    by (rule same_queues_queue_of) simp
  have "rounds_inv rt ok hp ?h"
    using core(1) keep n ss by (auto simp: rounds_inv_def set_round_def)
  moreover have "queue_inv hp ?h" "queue_dom hp ?h" using core(2,3) by (simp_all add: queue_inv_def queue_dom_def q)
  moreover have "hash_inv rt ?h"
    by (rule hash_inv_ext[OF core(4)]) (use s keep in \<open>auto simp: set_round_def\<close>)
  moreover have "echo_inv rt ?h"
    using core(5) unfolding echo_inv_def keys q cur by (simp add: set_round_def)
  ultimately have "core_inv rt ok hp ?h" by (simp add: core_inv_def)
  moreover obtain r where r: "currentRound h = Live r" "set (mkeys (rounds h)) = {1..r_number (ops rt) r}"
    using run by (auto simp: running_def)
  moreover have "\<exists>r'. currentRound ?h = Live r' \<and> r_number (ops rt) r' = r_number (ops rt) r"
  proof (cases "s_number (ops rt) (currentRound h) = n")
    case True
    then have "s = Live r" using core(1) s r(1) by (auto simp: rounds_inv_def)
    then obtain r' where "s' = Live r'" using keep by blast
    then show ?thesis using True keep n r(1) by (auto simp: set_round_def)
  qed (use r(1) in \<open>simp add: set_round_def\<close>)
  ultimately show ?thesis
    using run keys by (auto simp: running_def finished_def set_round_def)
qed

lemma running_round:
  "running rt ok hp h \<Longrightarrow> mget (rounds h) n = Some s \<Longrightarrow>
     ok s \<and> same_session hp (s_helper (ops rt) s) \<and> s_number (ops rt) s = n"
  by (simp add: running_def core_inv_def rounds_inv_def)

lemma running_current:
  assumes "running rt ok hp h"
  obtains r where "currentRound h = Live r" and "set (mkeys (rounds h)) = {1..r_number (ops rt) r}"
    and "good r" and "r_number (ops rt) r < - 1" and "same_session hp (r_helper (ops rt) r)"
    and "r_number (ops rt) r + 1 \<notin> set (mkeys (rounds h))"
    and "mget (rounds h) (r_number (ops rt) r) = Some (Live r)" and "session_ok hp"
proof -
  obtain r where r: "currentRound h = Live r" "set (mkeys (rounds h)) = {1..r_number (ops rt) r}"
    using assms by (auto simp: running_def)
  have cur: "mget (rounds h) (r_number (ops rt) r) = Some (Live r)"
    using assms r(1) by (auto simp: running_def core_inv_def rounds_inv_def)
  then have g: "good r" "same_session hp (r_helper (ops rt) r)"
    using running_round[OF assms cur] by simp_all
  have lt: "r_number (ops rt) r < - 1" using good_number[OF g(1)] by (meson le_less_trans)
  have "r_number (ops rt) r + 1 \<notin> set (mkeys (rounds h))"
    using lt by (simp add: r(2) not_le Number_less_Suc)
  moreover have "session_ok hp" using good_session[OF g(1)] g(2) by (simp add: session_ok_def same_session_def Helper_N_def)
  ultimately show ?thesis using that[OF r g(1) lt g(2)] cur by simp
qed

text \<open>The senders whose messages are handed to a round.\<close>

definition other :: "Helper \<Rightarrow> ID \<Rightarrow> bool" where
  "other hp i \<longleftrightarrow> i \<in> set (otherPartyIDs hp)"

lemma running_verifyMessage:
  assumes "running rt ok hp h" and "verifyMessage rt m h = Ret (e, h')" and "other hp (From m)"
  shows "running rt ok hp h'"
  using assms(2)
proof (cases rule: verifyMessage_cases)
  case (2 s rm s')
  note rr = running_round[OF assms(1) 2(2)]
  have "rm_From rm \<in> set (otherPartyIDs (s_helper (ops rt) s))"
    using assms(3) 2(5) rr by (simp add: other_def same_session_def)
  then show ?thesis
    using running_set_round[OF assms(1) 2(2) s_store_keeps[OF 2(3)]] rr 2(4) by simp
qed (use assms in simp)

lemma running_storedBroadcast:
  assumes "running rt ok hp h" and "mget (rounds h) n = Some s"
    and "s_storeBroadcast (ops rt) s rm = Ret (Inr s')" and "other hp (rm_From rm)"
  shows "running rt ok hp (set_round (ops rt) n s' h)"
proof -
  note rr = running_round[OF assms(1,2)]
  have "rm_From rm \<in> set (otherPartyIDs (s_helper (ops rt) s))"
    using assms(4) rr by (simp add: other_def same_session_def)
  then show ?thesis using running_set_round[OF assms(1,2) s_storeBroadcast_keeps[OF assms(3)]] rr by simp
qed

lemma queued_From:
  assumes "running rt ok hp h" and "qget (messages h) n i = Some m"
  shows "From m = i \<and> RoundNumber m = n"
  using assms queue_inv_qget[of hp h False n i m] by (simp add: running_def core_inv_def queue_of_def)

lemma running_verifyBroadcastMessage:
  assumes "running rt ok hp h" and "verifyBroadcastMessage rt m h = Ret (e, h')" and "other hp (From m)"
  shows "running rt ok hp h'"
  using assms(2)
proof (cases rule: verifyBroadcastMessage_cases)
  case (2 s rm s')
  then show ?thesis using running_storedBroadcast[OF assms(1) 2(2,3)] assms(3) by simp
next
  case (3 s rm s' p2p)
  then show ?thesis
    using running_verifyMessage[OF running_storedBroadcast[OF assms(1) 3(1,2)] 3(5)] assms(3)
      queued_From[OF assms(1) 3(4)] by simp
qed (use assms in simp)

lemma running_drain:
  assumes "running rt ok hp h" and "drain rt verify q h = Ret (fl, h')"
    and keep: "\<And>m h e h'. running rt ok hp h \<Longrightarrow> verify m h = Ret (e, h') \<Longrightarrow> other hp (From m) \<Longrightarrow>
      running rt ok hp h'"
    and "\<forall>(i, m)\<in>set q. other hp (From m)"
  shows "if fl then running rt ok hp h' else ended rt ok hp h'"
  using assms(1,2,4)
proof (induction q arbitrary: h)
  case (Cons im q)
  obtain i m where im: "im = (i, m)" by force
  obtain e h1 where v: "verify m h = Ret (e, h1)"
    and k: "(case e of Some e' \<Rightarrow> obind (abort rt (Some e') [From m] h1) (\<lambda>h2. Ret (False, h2))
        | None \<Rightarrow> drain rt verify q h1) = Ret (fl, h')"
    using Cons.prems(2) by (auto simp: im elim!: obind_RetE)
  have h1: "running rt ok hp h1" using keep[OF Cons.prems(1) v] Cons.prems(3) im by simp
  show ?case
    using Cons.IH[OF h1] k running_abort[OF h1] Cons.prems(3) by (cases e) (auto elim!: obind_RetE)
qed simp

text \<open>Delivering one message of the current round.\<close>

lemma settled_verifyMessage:
  assumes run: "running rt ok hp h" and set: "settledX rt gotB gotM SB SM h"
    and v: "verifyMessage rt m h = Ret (None, h')" and m: "RoundNumber m = s_number (ops rt) (currentRound h)"
    and o: "other hp (From m)"
  shows "settledX rt gotB gotM SB (SM - {From m}) h'"
    and "s_isBroadcast (ops rt) (currentRound h') = s_isBroadcast (ops rt) (currentRound h)"
proof -
  obtain r where r: "currentRound h = Live r" "good r" "same_session hp (r_helper (ops rt) r)"
    "mget (rounds h) (r_number (ops rt) r) = Some (Live r)"
    by (rule running_current[OF run])
  have "settledX rt gotB gotM SB (SM - {From m}) h' \<and>
    s_isBroadcast (ops rt) (currentRound h') = s_isBroadcast (ops rt) (currentRound h)"
    using v
  proof (cases rule: verifyMessage_cases)
    case 1
    then have "r_isBroadcast (ops rt) r" "qget (broadcast h) (r_number (ops rt) r) (From m) = None"
      using m r(1,4) by auto
    then show ?thesis using set 1(1) r(1) by (auto simp: settledX_def)
  next
    case (2 s rm s')
    have "s = Live r" using 2(2) m r(1,4) by simp
    then obtain r' where r': "r_store (ops rt) r rm = Ret (Inr r')" "s' = Live r'"
      using 2(3) by (auto elim!: obind_RetE map_sum_InrE)
    have k: "same_round (ops rt) r r'" "gotB r \<subseteq> gotB r'" "insert (From m) (gotM r) \<subseteq> gotM r'"
      using store_keeps[OF r(2) _ r'(1)] 2(5) o r(3) by (auto simp: other_def same_session_def)
    have h': "h' = set_round (ops rt) (r_number (ops rt) r) (Live r') h" using 2(4) m r(1) r'(2) by simp
    have "settledX rt gotB gotM (SB - gotB r') (SM - gotM r') h'"
      unfolding h' by (rule settledX_set_round[OF set r(1) refl k(1,2)]) (use k(3) in blast)
    then show ?thesis
      using k r(1) by (auto simp: h' set_round_def same_round_def intro: settledX_mono)
  qed
  then show "settledX rt gotB gotM SB (SM - {From m}) h'"
    and "s_isBroadcast (ops rt) (currentRound h') = s_isBroadcast (ops rt) (currentRound h)" by blast+
qed

lemma settled_verifyBroadcastMessage:
  assumes run: "running rt ok hp h" and set: "settledX rt gotB gotM SB SM h"
    and v: "verifyBroadcastMessage rt m h = Ret (None, h')"
    and m: "RoundNumber m = s_number (ops rt) (currentRound h)" and o: "other hp (From m)"
  shows "settledX rt gotB gotM (SB - {From m}) (SM - {From m}) h'"
    and "s_isBroadcast (ops rt) (currentRound h') = s_isBroadcast (ops rt) (currentRound h)"
proof -
  obtain r where r: "currentRound h = Live r" "good r" "same_session hp (r_helper (ops rt) r)"
    "mget (rounds h) (r_number (ops rt) r) = Some (Live r)"
    by (rule running_current[OF run])
  let ?n = "r_number (ops rt) r"
  have mn: "RoundNumber m = ?n" using m r(1) by simp
  have step: "\<exists>r'. s' = Live r' \<and> same_round (ops rt) r r' \<and>
      settledX rt gotB gotM (SB - {From m}) SM (set_round (ops rt) ?n (Live r') h)"
    if s: "mget (rounds h) (RoundNumber m) = Some s" "s_storeBroadcast (ops rt) s rm = Ret (Inr s')"
      "rm_From rm = From m" for s rm s'
  proof -
    have "s = Live r" using s(1) mn r(4) by simp
    then obtain r' where r': "r_storeBroadcast (ops rt) r rm = Ret (Inr r')" "s' = Live r'"
      using s(2) by (auto elim!: obind_RetE map_sum_InrE split: if_splits)
    have k: "same_round (ops rt) r r'" "gotM r \<subseteq> gotM r'" "insert (From m) (gotB r) \<subseteq> gotB r'"
      using storeBroadcast_keeps[OF r(2) _ r'(1)] s(3) o r(3) by (auto simp: other_def same_session_def)
    have "settledX rt gotB gotM (SB - gotB r') (SM - gotM r') (set_round (ops rt) ?n (Live r') h)"
      by (rule settledX_set_round[OF set r(1) refl k(1)]) (use k in auto)
    then show ?thesis using r'(2) k by (auto intro: settledX_mono)
  qed
  have "settledX rt gotB gotM (SB - {From m}) (SM - {From m}) h' \<and>
    s_isBroadcast (ops rt) (currentRound h') = s_isBroadcast (ops rt) (currentRound h)"
    using v
  proof (cases rule: verifyBroadcastMessage_cases)
    case 1
    then show ?thesis using mn r(4) by simp
  next
    case (2 s rm s')
    obtain r' where r': "s' = Live r'" "same_round (ops rt) r r'"
      "settledX rt gotB gotM (SB - {From m}) SM h'"
      using step[OF 2(2,3,5)] 2(4) mn by auto
    have c: "currentRound h' = Live r'" "messages h' = messages h"
      using 2(4) r'(1) mn r(1) by (simp_all add: set_round_def)
    have "qget (messages h') (r_number (ops rt) r') (From m) = None" if "r_hasContent (ops rt) r'"
      using 2(6) that r'(1,2) c(2) mn by (simp add: same_round_def)
    then show ?thesis using r'(2,3) r(1) c(1) by (auto simp: settledX_def same_round_def)
  next
    case (3 s rm s' p2p)
    obtain r' where r': "s' = Live r'" "same_round (ops rt) r r'"
      "settledX rt gotB gotM (SB - {From m}) SM (set_round (ops rt) ?n (Live r') h)"
      using step[OF 3(1,2,3)] by auto
    let ?h1 = "set_round (ops rt) ?n (Live r') h"
    have run1: "running rt ok hp ?h1"
      using running_storedBroadcast[OF run 3(1,2)] 3(3) o r'(1) mn by simp
    have p: "From p2p = From m" "RoundNumber p2p = ?n" using queued_From[OF run 3(4)] mn by simp_all
    have cur: "currentRound ?h1 = Live r'" using r(1) by (simp add: set_round_def)
    then have "RoundNumber p2p = s_number (ops rt) (currentRound ?h1)"
      using p(2) r'(2) by (simp add: same_round_def)
    then show ?thesis
      using settled_verifyMessage[OF run1 r'(3), of p2p h'] 3(5) r'(1,2) mn p(1) o cur r(1)
      by (simp add: same_round_def)
  qed
  then show "settledX rt gotB gotM (SB - {From m}) (SM - {From m}) h'"
    and "s_isBroadcast (ops rt) (currentRound h') = s_isBroadcast (ops rt) (currentRound h)" by blast+
qed

lemma running_number:
  assumes "running rt ok hp h" and "running rt ok hp h'" and "verify_frame h h'"
  shows "s_number (ops rt) (currentRound h') = s_number (ops rt) (currentRound h)"
proof -
  obtain r where r: "currentRound h = Live r" "set (mkeys (rounds h)) = {1..r_number (ops rt) r}" "good r"
    by (rule running_current[OF assms(1)])
  obtain r' where r': "currentRound h' = Live r'" "set (mkeys (rounds h')) = {1..r_number (ops rt) r'}" "good r'"
    by (rule running_current[OF assms(2)])
  have "set (mkeys (rounds h')) = set (mkeys (rounds h))"
    using assms(3) by (simp add: verify_frame_def)
  then have "{1..r_number (ops rt) r} = {1..r_number (ops rt) r'}"
    unfolding r(2) r'(2) by (rule sym)
  then show ?thesis
    using good_number[OF r(3)] good_number[OF r'(3)] r(1) r'(1) by auto
qed

text \<open>Delivering all queued messages of the round just entered. \<open>P S\<close> says that only the senders in
  \<open>S\<close> are outstanding.\<close>

lemma settled_drain:
  assumes "running rt ok hp h" and "drain rt verify q h = Ret (True, h')" and "P S h"
    and step: "\<And>m h S h'. running rt ok hp h \<Longrightarrow> P S h \<Longrightarrow> verify m h = Ret (None, h') \<Longrightarrow>
      RoundNumber m = s_number (ops rt) (currentRound h) \<Longrightarrow> other hp (From m) \<Longrightarrow>
      P (S - {From m}) h' \<and> running rt ok hp h' \<and> verify_frame h h'"
    and q: "\<forall>(i, m)\<in>set q. other hp (From m) \<and> RoundNumber m = s_number (ops rt) (currentRound h)"
  shows "P (S - (\<lambda>(i, m). From m) ` set q) h'"
  using assms(1-3) q
proof (induction q arbitrary: h S)
  case (Cons im q)
  obtain i m where im: "im = (i, m)" by force
  obtain e h1 where v: "verify m h = Ret (e, h1)"
    and k: "(case e of Some e' \<Rightarrow> obind (abort rt (Some e') [From m] h1) (\<lambda>h2. Ret (False, h2))
        | None \<Rightarrow> drain rt verify q h1) = Ret (True, h')"
    using Cons.prems(2) by (auto simp: im elim!: obind_RetE)
  then have e: "e = None" "drain rt verify q h1 = Ret (True, h')"
    by (auto split: option.splits elim!: obind_RetE)
  have h1: "P (S - {From m}) h1" "running rt ok hp h1" "verify_frame h h1"
    using step[OF Cons.prems(1,3), of m h1] v e(1) Cons.prems(4) im by auto
  have "P (S - {From m} - (\<lambda>(i, m). From m) ` set q) h'"
    using Cons.IH[OF h1(2) e(2) h1(1)] Cons.prems(4) running_number[OF Cons.prems(1) h1(2,3)] by auto
  moreover have "S - {From m} - (\<lambda>(i, m). From m) ` set q = S - (\<lambda>(i, m). From m) ` set (im # q)"
    by (auto simp: im)
  ultimately show ?case by simp
qed simp

lemma running_queued:
  assumes "running rt ok hp h" and "(i, m) \<in> set (qrange (queue_of b h) n)"
  shows "RoundNumber m = n \<and> From m = i \<and> Broadcast m = b \<and> sender_ok hp b i"
  using assms unfolding running_def core_inv_def queue_inv_def by blast

lemma sender_other:
  assumes "session_ok hp" and "sender_ok hp b i" and "b \<Longrightarrow> i \<noteq> SelfID (info hp)"
  shows "other hp i"
  using assms by (cases b) (auto simp: sender_ok_def other_def session_ok_def)

lemma settled_enter_drain:
  assumes run: "running rt ok hp h" and cur: "currentRound h = Live r"
    and d: "(if r_isBroadcast (ops rt) r
       then drain rt (verifyBroadcastMessage rt)
              (filter (\<lambda>(i, m). i \<noteq> SelfID (info (r_helper (ops rt) r)))
                (range_order rt (qrange (broadcast h) (r_number (ops rt) r)))) h
       else drain rt (verifyMessage rt) (range_order rt (qrange (messages h) (r_number (ops rt) r))) h)
       = Ret (fl, h')"
  shows "if fl then running rt ok hp h' \<and> settled rt gotB gotM h' else ended rt ok hp h'"
proof -
  let ?n = "r_number (ops rt) r" and ?b = "r_isBroadcast (ops rt) r"
  obtain r0 where "currentRound h = Live r0" "same_session hp (r_helper (ops rt) r0)" and so: "session_ok hp"
    by (rule running_current[OF run])
  then have ss: "same_session hp (r_helper (ops rt) r)" using cur by simp
  define q where "q = (if ?b then filter (\<lambda>(i, m). i \<noteq> SelfID (info (r_helper (ops rt) r)))
      (range_order rt (qrange (broadcast h) ?n)) else range_order rt (qrange (messages h) ?n))"
  define verify where "verify = (if ?b then verifyBroadcastMessage rt else verifyMessage rt)"
  have d': "drain rt verify q h = Ret (fl, h')" using d by (simp add: q_def verify_def split: if_splits)
  have qs: "set q = {(i, m). (i, m) \<in> set (qrange (queue_of ?b h) ?n) \<and>
      (?b \<longrightarrow> i \<noteq> SelfID (info hp))}"
    using ss by (auto simp: q_def order_set queue_of_def same_session_def)
  have qo: "\<forall>(i, m)\<in>set q. other hp (From m) \<and> RoundNumber m = s_number (ops rt) (currentRound h)"
  proof (rule ballI)
    fix im assume im: "im \<in> set q"
    obtain i m where [simp]: "im = (i, m)" by force
    have mem: "(i, m) \<in> set (qrange (queue_of ?b h) ?n)" "?b \<Longrightarrow> i \<noteq> SelfID (info hp)"
      using im by (simp_all add: qs)
    note rq = running_queued[OF run mem(1)]
    have "other hp i" by (rule sender_other[OF so, where b = ?b]) (use rq mem(2) in simp_all)
    then show "case im of (i, m) \<Rightarrow> other hp (From m) \<and> RoundNumber m = s_number (ops rt) (currentRound h)"
      using rq cur by simp
  qed
  have keep: "running rt ok hp h2" if "running rt ok hp h1" "verify m h1 = Ret (e, h2)" "other hp (From m)"
    for m h1 e h2
    using that(2) running_verifyMessage[OF that(1) _ that(3)] running_verifyBroadcastMessage[OF that(1) _ that(3)]
    by (simp add: verify_def split: if_splits)
  have vf: "verify_frame h1 h2" if "verify m h1 = Ret (e, h2)" for m h1 e h2
    using that verifyMessage_frame[of rt m h1] verifyBroadcastMessage_frame[of rt m h1]
    by (simp add: verify_def split: if_splits)
  have "hext h h' \<and> (fl \<longrightarrow> verify_frame h h') \<and> (\<not> fl \<longrightarrow> finished h')"
    by (rule drain_Ret[OF d']) (rule vf)
  then have frame: "verify_frame h h'" if fl using that by blast
  have dr: "if fl then running rt ok hp h' else ended rt ok hp h'"
  proof (rule running_drain[OF run d'])
    show "\<forall>(i, m)\<in>set q. other hp (From m)" using qo by auto
  qed (rule keep)
  have "settled rt gotB gotM h'" if fl: fl
  proof -
    define P where "P = (\<lambda>S h1. settledX rt gotB gotM (if ?b then S else {}) S h1 \<and>
        s_isBroadcast (ops rt) (currentRound h1) = ?b)"
    have "P UNIV h" using cur by (simp add: P_def settledX_def)
    moreover have "P (S - {From m}) h2 \<and> running rt ok hp h2 \<and> verify_frame h1 h2"
      if "running rt ok hp h1" "P S h1" "verify m h1 = Ret (None, h2)"
        "RoundNumber m = s_number (ops rt) (currentRound h1)" "other hp (From m)" for m h1 S h2
    proof (cases ?b)
      case True
      have "settledX rt gotB gotM S S h1" "verifyBroadcastMessage rt m h1 = Ret (None, h2)"
        using that(2,3) True by (simp_all add: P_def verify_def)
      note s = settled_verifyBroadcastMessage[OF that(1) this that(4,5)]
      show ?thesis using s that(2) True keep[OF that(1,3,5)] vf[OF that(3)] by (simp add: P_def)
    next
      case False
      have "settledX rt gotB gotM {} S h1" "verifyMessage rt m h1 = Ret (None, h2)"
        using that(2,3) False by (simp_all add: P_def verify_def)
      note s = settled_verifyMessage[OF that(1) this that(4,5)]
      show ?thesis using s that(2) False keep[OF that(1,3,5)] vf[OF that(3)] by (simp add: P_def)
    qed
    ultimately have "P (UNIV - (\<lambda>(i, m). From m) ` set q) h'"
      using d' fl qo by (intro settled_drain[OF run, of verify q h' P UNIV]) simp_all
    then have X: "settledX rt gotB gotM (if ?b then UNIV - (\<lambda>(i, m). From m) ` set q else {})
        (UNIV - (\<lambda>(i, m). From m) ` set q) h'" and b': "s_isBroadcast (ops rt) (currentRound h') = ?b"
      by (simp_all add: P_def)
    have run': "running rt ok hp h'" using dr fl by simp
    have n': "s_number (ops rt) (currentRound h') = ?n"
      using running_number[OF run run' frame[OF fl]] cur by simp
    have sq: "broadcast h' = broadcast h" "messages h' = messages h"
      using frame[OF fl] by (simp_all add: verify_frame_def same_queues_def)
    have mem: "i \<in> (\<lambda>(i, m). From m) ` set q"
      if g: "qget (queue_of ?b h) ?n i \<noteq> None" and i: "i \<in> set (otherPartyIDs hp)" for i
    proof -
      obtain m where m: "qget (queue_of ?b h) ?n i = Some m" using g by auto
      have "i \<noteq> SelfID (info hp)" using i so by (auto simp: session_ok_def)
      then have "(i, m) \<in> set q" using qget_in_qrange[OF m] by (simp add: qs)
      moreover have "From m = i" using running_queued[OF run qget_in_qrange[OF m]] by simp
      ultimately show ?thesis by force
    qed
    obtain r' where r': "currentRound h' = Live r'" "same_session hp (r_helper (ops rt) r')"
      by (rule running_current[OF run'])
    have o': "otherPartyIDs (r_helper (ops rt) r') = otherPartyIDs hp"
      using r'(2) by (simp add: same_session_def)
    show ?thesis
      using X b' n' r'(1) mem unfolding settledX_def sq
      by (cases ?b) (auto simp: o' queue_of_def)
  qed
  then show ?thesis using dr by auto
qed

section \<open>Finalizing\<close>

lemma running_receivedAll:
  assumes run: "running rt ok hp h" and eq: "receivedAll rt h = (fl, h')"
  shows "running rt ok hp h'"
proof (cases "h' = h")
  case False
  obtain r where r: "currentRound h = Live r" "r_number (ops rt) r + 1 \<notin> set (mkeys (rounds h))"
    "mget (rounds h) (r_number (ops rt) r) = Some (Live r)"
    by (rule running_current[OF run])
  let ?n = "r_number (ops rt) r" and ?hp = "r_helper (ops rt) r"
  have h': "h' = h\<lparr>broadcastHashes := mput ?n (hash_Sum (blake3 rt)
      (broadcast_transcript (blake3 rt) (hstate ?hp) (broadcast h) ?n (partyIDs ?hp))) (broadcastHashes h)\<rparr>"
    and all: "\<forall>i\<in>set (partyIDs ?hp). qget (broadcast h) ?n i \<noteq> None"
    using eq False r(1) by (auto simp: receivedAll_def Let_def list_all_iff split: if_split_asm)
  have core: "rounds_inv rt ok hp h" "queue_inv hp h" "queue_dom hp h" "hash_inv rt h" "echo_inv rt h"
    using run by (simp_all add: running_def core_inv_def)
  have q: "queue_of b h' = queue_of b h" for b by (simp add: h' queue_of_def)
  have "rounds_inv rt ok hp h'" "queue_inv hp h'" "queue_dom hp h'"
    using core(1,2,3) unfolding queue_inv_def queue_dom_def q by (simp_all add: rounds_inv_def h')
  moreover have "hash_inv rt h'"
    unfolding hash_inv_def
  proof (intro allI impI)
    fix n x assume "mget (broadcastHashes h') n = Some x"
    then show "\<exists>s. mget (rounds h') n = Some s \<and>
       (\<forall>i\<in>set (partyIDs (s_helper (ops rt) s)). qget (broadcast h') n i \<noteq> None) \<and>
       x = hash_Sum (blake3 rt) (broadcast_transcript (blake3 rt) (hstate (s_helper (ops rt) s))
             (broadcast h') n (partyIDs (s_helper (ops rt) s)))"
      using core(4) r(3) all by (cases "n = ?n") (auto simp: h' hash_inv_def)
  qed
  moreover have "echo_inv rt h'"
  proof -
    have "n - 1 = ?n \<longleftrightarrow> n = ?n + 1" for n by (auto simp: algebra_simps)
    then show ?thesis
      using core(5) r(2) unfolding echo_inv_def q by (auto simp: h' split: if_splits)
  qed
  ultimately show ?thesis
    using run by (auto simp: running_def core_inv_def h' finished_def)
qed (use run in simp)

text \<open>When \<open>receivedAll\<close> says so, the round has stored the messages of every other party.\<close>

lemma receivedAll_complete:
  assumes run: "running rt ok hp h" and set: "settled rt gotB gotM h"
    and eq: "receivedAll rt h = (True, h')" and cur: "currentRound h = Live r"
  shows "complete (ops rt) gotB gotM r"
proof -
  let ?n = "r_number (ops rt) r" and ?hp = "r_helper (ops rt) r"
  obtain r0 where r0: "currentRound h = Live r0" "good r0" "same_session hp (r_helper (ops rt) r0)" "session_ok hp"
    by (rule running_current[OF run])
  then have g: "good r" "same_session hp ?hp" using cur by simp_all
  have others: "set (otherPartyIDs ?hp) \<subseteq> set (partyIDs ?hp)"
    using good_session[OF g(1)] by (auto simp: session_ok_def)
  have dom: "mget (broadcast h) ?n \<noteq> None \<and> mget (messages h) ?n \<noteq> None"
    if "r_isBroadcast (ops rt) r \<or> r_hasContent (ops rt) r"
  proof -
    have "2 \<le> ?n" "?n \<le> FinalRoundNumber (info hp)"
      using good_receives[OF g(1) that] good_number[OF g(1)] g(2) by (simp_all add: same_session_def)
    moreover have "mget (queue_of b h) ?n \<noteq> None \<longleftrightarrow> 2 \<le> ?n \<and> ?n \<le> FinalRoundNumber (info hp)" for b
      using run by (simp add: running_def core_inv_def queue_dom_def)
    from this[of True] this[of False] show ?thesis using calculation by (simp add: queue_of_def)
  qed
  have b: "\<forall>i\<in>set (partyIDs ?hp). qget (broadcast h) ?n i \<noteq> None" if "r_isBroadcast (ops rt) r"
    using eq cur that dom by (auto simp: receivedAll_def Let_def list_all_iff split: if_split_asm)
  have m: "\<forall>i\<in>set (otherPartyIDs ?hp). qget (messages h) ?n i \<noteq> None" if "r_hasContent (ops rt) r"
    using eq cur that dom by (auto simp: receivedAll_def Let_def list_all_iff split: if_split_asm)
  show ?thesis
    using set cur b m others unfolding settledX_def complete_def by blast
qed

lemma running_store:
  assumes "running rt ok hp h" and "sender_ok hp (Broadcast m) (From m)"
    and "RoundNumber m \<notin> set (mkeys (rounds h)) \<or> RoundNumber m = s_number (ops rt) (currentRound h)"
  shows "running rt ok hp (store m h)"
  using assms core_inv_store[of rt ok hp h m] by (simp add: running_def finished_def)

lemma running_send:
  assumes "running rt ok hp h" and "send m h = Ret h'"
  shows "running rt ok hp h'"
proof -
  have h': "h' = h\<lparr>h_out := h_out h @ [m]\<rparr>" using assms(2) by (simp add: send_Ret)
  have "core_inv rt ok hp h'"
    by (rule core_inv_verdict[of rt ok hp h]) (use assms(1) in \<open>auto simp: h' running_def same_queues_def\<close>)
  then show ?thesis using assms(1) by (simp add: h' running_def finished_def)
qed

lemma running_forward:
  assumes "running rt ok hp h" and "forward rt s out h = Ret h'" and "same_session hp (s_helper (ops rt) s)"
    and "\<forall>m\<in>set out. r_contentRound (ops rt) (rm_Content m) \<notin> set (mkeys (rounds h))"
  shows "running rt ok hp h'"
  using assms(1,2,4)
proof (induction out arbitrary: h)
  case (Cons rm out)
  then obtain bs where bs: "r_marshal (ops rt) (rm_Content rm) = Some bs"
    by (auto split: option.splits)
  define m where "m = wire_message rt s rm bs h"
  define h1 where "h1 = (if Broadcast m then store m h else h)"
  obtain h2 where h2: "send m h1 = Ret h2" "forward rt s out h2 = Ret h'"
    using Cons.prems(2) bs by (auto simp: Let_def m_def[symmetric] h1_def[symmetric] elim!: obind_RetE)
  have mf: "RoundNumber m = r_contentRound (ops rt) (rm_Content rm)" "From m = SelfID (info hp)"
    using assms(3) by (simp_all add: m_def wire_message_def Let_def same_session_def)
  have "session_ok hp" by (rule running_current[OF Cons.prems(1)])
  then have "sender_ok hp True (From m)" using mf(2) by (simp add: sender_ok_def session_ok_def)
  then have "running rt ok hp h1"
    using Cons.prems(1,3) running_store[OF Cons.prems(1), of m] mf(1) by (auto simp: h1_def)
  then have "running rt ok hp h2" by (rule running_send[OF _ h2(1)])
  moreover have "rounds h2 = rounds h" using h2(1) by (auto simp: send_Ret h1_def)
  ultimately show ?case using Cons.IH[OF _ h2(2)] Cons.prems(3) by simp
qed simp

lemma core_inv_enter:
  assumes "core_inv rt ok hp h" and "echo_ok h (s_number (ops rt) (currentRound h))"
    and new: "s_number (ops rt) s \<notin> set (mkeys (rounds h))"
    and s: "same_session hp (s_helper (ops rt) s)" "ok s"
  shows "core_inv rt ok hp (h\<lparr>rounds := mput (s_number (ops rt) s) s (rounds h), currentRound := s\<rparr>)"
    (is "core_inv rt ok hp ?h")
proof -
  have core: "rounds_inv rt ok hp h" "queue_inv hp h" "queue_dom hp h" "hash_inv rt h" "echo_inv rt h"
    using assms(1) by (simp_all add: core_inv_def)
  have q: "queue_of b ?h = queue_of b h" for b by (simp add: queue_of_def)
  have none: "mget (rounds h) (s_number (ops rt) s) = None" using new by (simp add: set_mkeys domIff)
  have "rounds_inv rt ok hp ?h" "queue_inv hp ?h" "queue_dom hp ?h"
    using core(1,2,3) s unfolding queue_inv_def queue_dom_def q by (auto simp: rounds_inv_def)
  moreover have "hash_inv rt ?h"
    by (rule hash_inv_ext[OF core(4)]) (use none in auto)
  moreover have "echo_inv rt ?h"
    unfolding echo_inv_def q
  proof (intro allI impI)
    fix n x b i m
    assume a: "n \<noteq> 0" "n \<in> set (mkeys (rounds ?h))" "n \<noteq> s_number (ops rt) (currentRound ?h)"
      "mget (broadcastHashes ?h) (n - 1) = Some x" "qget (queue_of b h) n i = Some m"
    show "bytes_Equal (BroadcastVerification m) x"
    proof (cases "n = s_number (ops rt) (currentRound h)")
      case True
      then show ?thesis using assms(2) a by (simp add: echo_ok_def)
    next
      case False
      have "n \<in> set (mkeys (rounds h))" using a(2,3) by auto
      then show ?thesis using core(5) a(1,4,5) False by (simp add: echo_inv_def)
    qed
  qed
  ultimately show ?thesis by (simp add: core_inv_def)
qed

lemma running_enter_round:
  assumes run: "running rt ok hp h" and echo: "echo_ok h (s_number (ops rt) (currentRound h))"
    and cur: "currentRound h = Live r0"
    and s: "same_session hp (s_helper (ops rt) s)" "ok s"
      "\<And>r. s = Live r \<Longrightarrow> r_number (ops rt) r = r_number (ops rt) r0 + 1"
    and step: "enter_round rt s h = Ret (again, h')"
  shows "if again then running rt ok hp h' \<and> settled rt gotB gotM h' else ended rt ok hp h'"
proof -
  let ?n = "s_number (ops rt) s"
  let ?h1 = "h\<lparr>rounds := mput ?n s (rounds h), currentRound := s\<rparr>"
  have keys: "set (mkeys (rounds h)) = {1..r_number (ops rt) r0}" and k: "r_number (ops rt) r0 < - 1"
    using running_current[OF run] cur by (metis session.inject(1))+
  have new: "?n \<notin> set (mkeys (rounds h))"
    using s(3) Number_less_Suc[OF k] by (cases s) (auto simp: keys)
  then have none: "mget (rounds h) ?n = None" by (simp add: set_mkeys domIff)
  have core: "core_inv rt ok hp ?h1"
    using core_inv_enter[of hp h s] run echo new s by (auto simp: running_def)
  show ?thesis
  proof (cases s)
    case (Live r)
    then have run1: "running rt ok hp ?h1"
      using run core s(3)[OF Live] keys Number_atLeastAtMost_Suc[OF k] by (simp add: running_def finished_def)
    have c1: "currentRound ?h1 = Live r" using Live by simp
    show ?thesis
      by (rule settled_enter_drain[OF run1 c1]) (use step none Live in \<open>simp add: enter_round_def Let_def split: if_splits\<close>)
  next
    case (AbortRound hp' e cs)
    then have a: "abort rt (Some e) cs ?h1 = Ret h'" "\<not> again"
      using step none by (auto simp: enter_round_def Let_def elim!: obind_RetE)
    show ?thesis
      using a abort_Ret[OF a(1)] core_inv_abort[OF core a(1)] run
      by (simp add: ended_def running_def finished_def)
  next
    case (OutputRound hp' res)
    then have a: "abort rt None [] (?h1\<lparr>h_result := Some res\<rparr>) = Ret h'" "\<not> again"
      using step none by (auto simp: enter_round_def Let_def elim!: obind_RetE)
    have "core_inv rt ok hp (?h1\<lparr>h_result := Some res\<rparr>)"
      by (rule core_inv_verdict[OF core]) (simp_all add: same_queues_def)
    then show ?thesis
      using a abort_Ret[OF a(1)] core_inv_abort[OF _ a(1)] run OutputRound
      by (simp add: ended_def running_def finished_def)
  qed
qed

lemma running_finalize_step:
  assumes run: "running rt ok hp h" and set: "settled rt gotB gotM h"
    and step: "finalize_step rt h = Ret (again, h')"
  shows "if again then running rt ok hp h' \<and> settled rt gotB gotM h' else handler_inv rt ok gotB gotM hp h'"
proof -
  obtain fl h1 where ra: "receivedAll rt h = (fl, h1)" by fastforce
  note fr1 = receivedAll_frame[OF ra]
  have h1: "running rt ok hp h1" by (rule running_receivedAll[OF run ra])
  have set1: "settled rt gotB gotM h1" by (rule settledX_same[OF set]) (simp_all add: fr1)
  obtain r where r: "currentRound h1 = Live r" "good r" "same_session hp (r_helper (ops rt) r)"
    "r_number (ops rt) r + 1 \<notin> set (mkeys (rounds h1))"
    by (rule running_current[OF h1])
  consider (stop) "h' = h1" "\<not> again" | (abort) e cs where "abort rt (Some e) cs h1 = Ret h'" "\<not> again"
    | (advance) x out where fl "checkBroadcastHash rt h1"
      "r_finalize (ops rt) r (Helper_N (r_helper (ops rt) r) + 1) = Ret (Inr (x, out))"
    using step ra r(1)
    by (auto simp: finalize_step_def Let_def obind_case
        split: if_split_asm outcome.split_asm sum.split_asm prod.split_asm)
  then show ?thesis
  proof cases
    case stop
    then show ?thesis using h1 set1 by (simp add: handler_inv_def)
  next
    case abort
    then show ?thesis using running_abort[OF h1] by (simp add: handler_inv_def)
  next
    case (advance x out)
    have "complete (ops rt) gotB gotM r"
      using receivedAll_complete[OF run set] ra advance(1) fr1(3) r(1) by simp
    then obtain s where s: "x = Some s" "same_session (r_helper (ops rt) r) (s_helper (ops rt) s)"
      "\<And>r'. s = Live r' \<Longrightarrow> good r' \<and> r_number (ops rt) r' = r_number (ops rt) r + 1"
      "\<forall>r'. s \<noteq> Live r' \<Longrightarrow> final_ok s"
      using finalize_next[OF r(2) _ advance(3)] by blast
    obtain h2 where f: "forward rt s out h1 = Ret h2" and e: "enter_round rt s h2 = Ret (again, h')"
      using step ra r(1) advance s(1) by (auto simp: finalize_step_def Let_def obind_case split: outcome.split_asm if_split_asm)
    have fr: "currentRound h2 = Live r" "broadcastHashes h2 = broadcastHashes h1"
      using forward_frame[OF f] r(1) by simp_all
    have ss: "same_session hp (s_helper (ops rt) s)" by (rule same_session_trans[OF r(3) s(2)])
    have h2: "running rt ok hp h2"
      by (rule running_forward[OF h1 f ss]) (use finalize_messages[OF r(2) advance(3)] r(4) in simp)
    have "echo_ok h1 (r_number (ops rt) r)"
      using checkBroadcastHash_echo_ok[OF advance(2)] r(1) by simp
    moreover have "qget (queue_of b h2) (r_number (ops rt) r) i = qget (queue_of b h1) (r_number (ops rt) r) i" for b i
      by (rule forward_qget[OF f]) (use finalize_messages[OF r(2) advance(3)] in simp)
    ultimately have "echo_ok h2 (s_number (ops rt) (currentRound h2))"
      by (simp add: echo_ok_def fr)
    moreover have "ok s" using s(3,4) by (cases s) auto
    ultimately show ?thesis
      using running_enter_round[OF h2 _ fr(1) ss _ _ e] s(3) by (auto simp: handler_inv_def split: if_splits)
  qed
qed

section \<open>The entry points\<close>

lemma running_finalize:
  "running rt ok hp h \<Longrightarrow> settled rt gotB gotM h \<Longrightarrow> finalize rt h = Ret h' \<Longrightarrow>
     handler_inv rt ok gotB gotM hp h'"
proof (induction h rule: measure_induct_rule[of "\<lambda>h. card (UNIV - set (mkeys (rounds h)))"])
  case (less h)
  obtain again h1 where s: "finalize_step rt h = Ret (again, h1)"
    and k: "(if again then finalize rt h1 else Ret h1) = Ret h'"
    using less.prems(3) by (auto simp: finalize.simps[of rt h] split: outcome.splits)
  note step = running_finalize_step[OF less.prems(1,2) s]
  show ?case
  proof (cases again)
    case True
    have "UNIV - set (mkeys (rounds h1)) \<subset> UNIV - set (mkeys (rounds h))"
      using finalize_step_Ret(2)[OF s True] by blast
    then have "card (UNIV - set (mkeys (rounds h1))) < card (UNIV - set (mkeys (rounds h)))"
      by (simp add: psubset_card_mono)
    then show ?thesis using less.IH[of h1] step k True by simp
  qed (use step k in simp)
qed

lemma CanAccept_other:
  assumes "running rt ok hp h" and "CanAccept rt h (Some m)"
  shows "other hp (From m)"
proof -
  obtain r where r: "currentRound h = Live r" "same_session hp (r_helper (ops rt) r)" "session_ok hp"
    by (rule running_current[OF assms(1)])
  have "From m \<noteq> SelfID (info hp)" "Contains (partyIDs hp) [From m]"
    using assms(2) r(1,2) by (auto simp: CanAccept_def Let_def IsFor_def same_session_def split: if_split_asm)
  then show ?thesis
    using r(3) Contains_set[of "partyIDs hp" "[From m]"] by (simp add: session_ok_def other_def del: Contains.simps)
qed

lemma running_accepted:
  assumes "running rt ok hp h" and "CanAccept rt h (Some m)" and "RoundNumber m \<noteq> 0"
  shows "running rt ok hp (store m h)"
proof (rule running_store[OF assms(1)])
  obtain r where r: "currentRound h = Live r" "set (mkeys (rounds h)) = {1..r_number (ops rt) r}" "session_ok hp"
    by (rule running_current[OF assms(1)])
  have "r_number (ops rt) r \<le> RoundNumber m"
    using assms(2,3) r(1) by (auto simp: CanAccept_def Let_def word_gt_0 not_less split: if_splits)
  then show "RoundNumber m \<notin> set (mkeys (rounds h)) \<or> RoundNumber m = s_number (ops rt) (currentRound h)"
    using r by auto
  show "sender_ok hp (Broadcast m) (From m)"
    using CanAccept_other[OF assms(1,2)] r(3) by (auto simp: other_def sender_ok_def session_ok_def)
qed

lemma inv_not_finished:
  "handler_inv rt ok gotB gotM hp h \<Longrightarrow> \<not> finished h \<Longrightarrow> running rt ok hp h \<and> settled rt gotB gotM h"
  by (auto simp: handler_inv_def ended_def finished_def)

lemma accepted_verified:
  assumes run: "running rt ok hp h" and set: "settled rt gotB gotM h" and acc: "CanAccept rt h (Some m)"
    and nz: "RoundNumber m \<noteq> 0" and cur: "s_number (ops rt) (currentRound h) = RoundNumber m"
    and v: "verify_either rt m (store m h) = Ret (e, h2)"
  shows "running rt ok hp h2 \<and> (e = None \<longrightarrow> settled rt gotB gotM h2)"
proof -
  let ?h = "store m h"
  have run1: "running rt ok hp ?h" by (rule running_accepted[OF run acc nz])
  have o: "other hp (From m)" by (rule CanAccept_other[OF run acc])
  have m: "RoundNumber m = s_number (ops rt) (currentRound ?h)" using cur by simp
  note set1 = settledX_store[OF set, of m]
  show ?thesis
  proof (cases "Broadcast m")
    case True
    then have v': "verifyBroadcastMessage rt m ?h = Ret (e, h2)" using v by simp
    have "settled rt gotB gotM h2" if "e = None"
      using settled_verifyBroadcastMessage(1)[OF run1 _ _ m o, of "{From m}" "{From m}" h2] set1 v' that True
      by simp
    then show ?thesis using running_verifyBroadcastMessage[OF run1 v' o] by blast
  next
    case False
    then have v': "verifyMessage rt m ?h = Ret (e, h2)" using v by simp
    have "settled rt gotB gotM h2" if "e = None"
      using settled_verifyMessage(1)[OF run1 _ _ m o, of "{}" "{From m}" h2] set1 v' that False
      by simp
    then show ?thesis using running_verifyMessage[OF run1 v' o] by blast
  qed
qed

lemma inv_Accept:
  assumes inv: "handler_inv rt ok gotB gotM hp h" and step: "Accept rt msg h = Ret h'"
  shows "handler_inv rt ok gotB gotM hp h'"
  using step
proof (cases rule: Accept_cases)
  case (told m)
  then show ?thesis
    using running_abort[OF _ told(4)] inv_not_finished[OF inv told(3)] by (auto simp: handler_inv_def)
next
  case (queued m)
  note r = inv_not_finished[OF inv queued(4)]
  show ?thesis
    using running_accepted[OF _ queued(3,2)] settledX_store_other[OF _ queued(5)] r queued(6)
    by (auto simp: handler_inv_def)
next
  case (bad m e h2)
  note r = inv_not_finished[OF inv bad(4)]
  have "running rt ok hp h2" using accepted_verified[OF _ _ bad(3,2,7,5)] r by blast
  then show ?thesis using running_abort[OF _ bad(6)] by (auto simp: handler_inv_def)
next
  case (good m h2)
  note r = inv_not_finished[OF inv good(4)]
  have "running rt ok hp h2 \<and> settled rt gotB gotM h2"
    using accepted_verified[OF _ _ good(3,2,7,5)] r by blast
  then show ?thesis using running_finalize[OF _ _ good(6)] by blast
qed (use inv in simp)

lemma inv_Listen:
  assumes inv: "handler_inv rt ok gotB gotM hp h" and l: "Listen_recv h = (m, h')"
  shows "handler_inv rt ok gotB gotM hp h'"
proof -
  obtain ms where h': "h' = h \<or> h' = h\<lparr>h_out := ms\<rparr>"
    using l by (auto simp: Listen_recv_def split: list.splits)
  then have "core_inv rt ok hp h \<Longrightarrow> core_inv rt ok hp h'"
    by (auto intro: core_inv_verdict simp: same_queues_def)
  moreover have "settled rt gotB gotM h \<Longrightarrow> settled rt gotB gotM h'"
    by (erule settledX_same) (use h' in auto)
  ultimately show ?thesis
    using inv h' by (auto simp: handler_inv_def running_def ended_def finished_def)
qed

lemma inv_Stop: "handler_inv rt ok gotB gotM hp h \<Longrightarrow> Stop rt h = Ret h' \<Longrightarrow> h' = h"
  by (auto simp: handler_inv_def running_def ended_def finished_def Stop_def abort_closed split: if_splits)

lemma running_started:
  assumes "good r" and "r_number (ops rt) r = 1"
  shows "running rt ok (r_helper (ops rt) r) (started_handler (r_helper (ops rt) r) r)"
    and "settled rt gotB gotM (started_handler (r_helper (ops rt) r) r)"
proof -
  let ?hp = "r_helper (ops rt) r" let ?h0 = "started_handler ?hp r"
  have q0: "queue_of b ?h0 = newQueue (FinalRoundNumber (info ?hp))" for b by (simp add: queue_of_def started_handler_def)
  have "queue_dom ?hp ?h0" unfolding queue_dom_def q0 by (intro allI newQueue_dom)
  then have "core_inv rt ok ?hp ?h0"
    using assms
    by (auto simp: core_inv_def rounds_inv_def queue_inv_def hash_inv_def echo_inv_def queue_of_def mkeys_def started_handler_def)
  then show "running rt ok ?hp ?h0"
    using assms by (auto simp: running_def finished_def mkeys_def started_handler_def)
  show "settled rt gotB gotM ?h0" by (simp add: settledX_def started_handler_def)
qed

lemma inv_New:
  assumes "create sid = Inr (Live r)" and "good r" and "r_number (ops rt) r = 1"
    and "NewMultiHandler rt create sid = Ret (Inr h)"
  shows "handler_inv rt ok gotB gotM (r_helper (ops rt) r) h"
proof -
  have "finalize rt (started_handler (r_helper (ops rt) r) r) = Ret h"
    using assms by (auto simp: NewMultiHandler_def Let_def started_handler_def elim!: obind_RetE)
  then show ?thesis using running_started[OF assms(2,3)] running_finalize by blast
qed

lemma inv_reachable:
  assumes "reachable rt (Live r) h" and "good r" and "r_number (ops rt) r = 1"
  shows "handler_inv rt ok gotB gotM (r_helper (ops rt) r) h"
  using assms(1)
proof (induction rule: reachable.induct)
  case (start create sid h)
  then show ?case using inv_New assms(2,3) by blast
next
  case (stop h h')
  then show ?case using inv_Stop by blast
qed (use inv_Accept inv_Listen in blast)+

text \<open>The result of a handler is one the protocol vouches for.\<close>

lemma reachable_result:
  assumes "reachable rt (Live r) h" and "good r" and "r_number (ops rt) r = 1" and "Result h = Inr res"
  shows "\<exists>hp. same_session (r_helper (ops rt) r) hp \<and> final_ok (OutputRound hp res)"
proof -
  have "h_result h = Some res"
    using assms(4) by (auto simp: Result_def split: option.splits)
  then have "ended rt ok (r_helper (ops rt) r) h"
    using inv_reachable[OF assms(1-3)] by (auto simp: handler_inv_def running_def finished_def)
  then obtain hp where c: "currentRound h = OutputRound hp res" and core: "core_inv rt ok (r_helper (ops rt) r) h"
    using \<open>h_result h = Some res\<close> by (auto simp: ended_def)
  have "mget (rounds h) 0 = Some (OutputRound hp res)"
    using core c by (simp add: core_inv_def rounds_inv_def)
  then show ?thesis using core by (force simp: core_inv_def rounds_inv_def)
qed

text \<open>A handler only enters a final round the protocol vouches for.\<close>

lemma reachable_final:
  assumes "reachable rt (Live r) h" and "good r" and "r_number (ops rt) r = 1"
  shows "ok (currentRound h)"
  using inv_reachable[OF assms] unfolding handler_inv_def running_def ended_def core_inv_def rounds_inv_def
  by blast

end

end
