(* ===== verification/Echo.thy ===== *)
theory Echo
  imports HandlerInv
begin

text \<open>
  The echo broadcast of \<open>pkg/protocol/handler.go\<close>: every message carries a hash of the broadcasts its
  sender received in the round before, and \<open>checkBroadcastHash\<close> compares it with our own. Two handlers
  whose hashes agree received the same broadcasts, unless two different hash inputs with the same digest
  are at hand.
\<close>

text \<open>Two different inputs of the hash with the same digest.\<close>

definition collision :: "xof \<Rightarrow> hash \<Rightarrow> hash \<Rightarrow> bool" where
  "collision b3 x y \<longleftrightarrow> x \<noteq> y \<and> hash_Sum b3 x = hash_Sum b3 y"

text \<open>The fields of a message are shorter than \<open>2 ^ 64\<close> bytes, the range of the length prefix.\<close>

definition opt_length :: "'a list option \<Rightarrow> nat" where
  "opt_length x = (case x of None \<Rightarrow> 0 | Some l \<Rightarrow> length l)"

definition message_small :: "Message \<Rightarrow> bool" where
  "message_small m \<longleftrightarrow> opt_length (SSID m) < 2 ^ 64 \<and> length (From m) < 2 ^ 64 \<and> length (To m) < 2 ^ 64 \<and>
     length (Protocol m) < 2 ^ 64 \<and> opt_length (Data m) < 2 ^ 64 \<and> opt_length (BroadcastVerification m) < 2 ^ 64"

section \<open>What a digest determines\<close>

definition frames_of :: "any list \<Rightarrow> (string \<times> bytes) list" where
  "frames_of ds = List.map_filter (\<lambda>d. case toBeWritten d of Inl _ \<Rightarrow> None | Inr f \<Rightarrow> Some f) ds"

lemma foldl_write_frames:
  "foldl (\<lambda>h d. fst (WriteAny h [d])) h ds = h @ concat (map frame (frames_of ds))"
  by (induction ds arbitrary: h) (auto simp: frames_of_def List.map_filter_simps split: sum.splits)

lemma hash_New_frames: "hash_New ds = str_bytes ''CMP-BLAKE'' @ concat (map frame (frames_of ds))"
  unfolding hash_New_def by (rule foldl_write_frames)

lemma hash_New_inject:
  assumes "hash_New ds = hash_New es" and "list_all any_ok ds" and "list_all any_ok es"
  shows "frames_of ds = frames_of es"
proof -
  have ok: "list_all frame_ok (frames_of xs)" if "list_all any_ok xs" for xs
    using that by (induction xs) (auto simp: frames_of_def List.map_filter_simps any_ok_def split: sum.splits)
  show ?thesis
    using frame_code.concat_inject[OF ok[OF assms(2)] ok[OF assms(3)]] assms(1) by (simp add: hash_New_frames)
qed

text \<open>The piece written under a domain.\<close>

definition piece :: "string \<Rightarrow> any list \<Rightarrow> bytes option" where
  "piece d as = map_of (frames_of as) d"

definition written :: "any \<Rightarrow> (string \<times> bytes) list" where
  "written a = (case toBeWritten a of Inl _ \<Rightarrow> [] | Inr f \<Rightarrow> [f])"

lemma frames_of_written: "frames_of as = concat (map written as)"
  by (induction as) (auto simp: frames_of_def written_def List.map_filter_simps split: sum.splits)

lemma map_of_written_bwd: "map_of (written (any_bwd d x)) e = (if e = d then x else None)"
  by (cases x) (auto simp: written_def BytesWithDomain_WriteTo_def)

lemma map_of_written_ID: "e \<noteq> ''ID'' \<Longrightarrow> map_of (written (any_ID i)) e = None"
  by (auto simp: written_def any_ID_def ID_WriteTo_def ID_Domain_def)

lemma map_of_written_Number: "e \<noteq> ''Round Number'' \<Longrightarrow> map_of (written (any_Number n)) e = None"
  by (simp add: written_def any_Number_def)

lemma Message_pieces:
  "piece ''Content'' (Message_parts m) = Data m"
  "piece ''SSID'' (Message_parts m) = SSID m"
  "piece ''BroadcastVerification'' (Message_parts m) = BroadcastVerification m"
  "piece ''Broadcast'' (Message_parts m) = Some [if Broadcast m then 1 else 0]"
  by (simp_all add: piece_def frames_of_written Message_parts_def map_add_def map_of_written_bwd
      map_of_written_ID map_of_written_Number split: option.split)

lemma any_ok_bwd: "length d < 2 ^ 64 \<Longrightarrow> opt_length x < 2 ^ 64 \<Longrightarrow> any_ok (any_bwd d x)"
  by (cases x) (simp_all add: any_ok_def BytesWithDomain_WriteTo_def frame_ok_def opt_length_def)

lemma any_ok_ID: "length i < 2 ^ 64 \<Longrightarrow> any_ok (any_ID i)"
  by (simp add: any_ok_def any_ID_def ID_WriteTo_def ID_Domain_def frame_ok_def)

lemma any_ok_Number: "any_ok (any_Number n)"
  by (simp add: any_ok_def any_Number_def frame_ok_def)

lemma Message_any_ok: "message_small m \<Longrightarrow> list_all any_ok (Message_parts m)"
  unfolding Message_parts_def message_small_def
  by (simp add: any_ok_bwd any_ok_ID any_ok_Number opt_length_def)

lemma Message_digest_binds:
  assumes "Message_Hash b3 m = Message_Hash b3 m'" and "message_small m" and "message_small m'"
  shows "collision b3 (hash_New (Message_parts m)) (hash_New (Message_parts m')) \<or>
    (Data m = Data m' \<and> SSID m = SSID m' \<and> BroadcastVerification m = BroadcastVerification m' \<and>
     Broadcast m = Broadcast m')"
proof (cases "hash_New (Message_parts m) = hash_New (Message_parts m')")
  case True
  then have "frames_of (Message_parts m) = frames_of (Message_parts m')"
    using hash_New_inject Message_any_ok assms(2,3) by blast
  then have p: "piece d (Message_parts m) = piece d (Message_parts m')" for d by (simp add: piece_def)
  show ?thesis
    using p[of "''Content''"] p[of "''SSID''"] p[of "''BroadcastVerification''"] p[of "''Broadcast''"]
    by (auto simp: Message_pieces split: if_splits)
qed (use assms(1) in \<open>simp add: collision_def Message_Hash_def\<close>)

section \<open>Agreement\<close>

lemma transcript_frames:
  assumes "\<forall>i\<in>set ids. qget q n i \<noteq> None"
  shows "broadcast_transcript b3 hs q n ids =
    hs @ concat (map frame (map (\<lambda>i. (''Message'', Message_Hash b3 (the (qget q n i)))) ids))"
  using assms unfolding broadcast_transcript_def
  by (induction ids arbitrary: hs) (auto simp: BytesWithDomain_WriteTo_def)

lemma transcript_agree:
  assumes "\<forall>i\<in>set ids. qget q n i \<noteq> None" and "\<forall>i\<in>set ids. qget q' n i \<noteq> None"
    and "broadcast_transcript b3 hs q n ids = broadcast_transcript b3 hs q' n ids" and "i \<in> set ids"
  shows "Message_Hash b3 (the (qget q n i)) = Message_Hash b3 (the (qget q' n i))"
proof -
  have ok: "list_all frame_ok (map (\<lambda>i. (''Message'', Message_Hash b3 (f i))) ids)" for f
    by (simp add: list_all_iff frame_ok_def Message_Hash_def DigestLengthBytes_def)
  have "map (\<lambda>i. (''Message'', Message_Hash b3 (the (qget q n i)))) ids =
      map (\<lambda>i. (''Message'', Message_Hash b3 (the (qget q' n i)))) ids"
    by (rule frame_code.concat_inject[OF ok ok])
      (use assms(3) in \<open>simp add: transcript_frames[OF assms(1)] transcript_frames[OF assms(2)]\<close>)
  then show ?thesis using assms(4) by simp
qed

text \<open>Two handlers hold the same broadcasts of a round.\<close>

definition same_broadcasts :: "xof \<Rightarrow> IDSlice \<Rightarrow> Number \<Rightarrow> ('r, 'res) MultiHandler \<Rightarrow> ('r, 'res) MultiHandler \<Rightarrow> bool" where
  "same_broadcasts b3 ids n h h' \<longleftrightarrow> (\<forall>i\<in>set ids. \<exists>m m'.
     qget (broadcast h) n i = Some m \<and> qget (broadcast h') n i = Some m' \<and>
     (message_small m \<longrightarrow> message_small m' \<longrightarrow>
       collision b3 (hash_New (Message_parts m)) (hash_New (Message_parts m')) \<or> Data m = Data m'))"

lemma echo_agreement:
  assumes h: "hash_inv rt h" "echo_inv rt h" and h': "hash_inv rt' h'" and b3: "blake3 rt = b3" "blake3 rt' = b3"
    and r: "mget (rounds h) n = Some s" "mget (rounds h') n = Some s'"
    and hp: "partyIDs (s_helper (ops rt) s) = ids" "hstate (s_helper (ops rt) s) = hs"
      "partyIDs (s_helper (ops rt') s') = ids" "hstate (s_helper (ops rt') s') = hs"
    and x: "mget (broadcastHashes h) n = Some x" and x': "mget (broadcastHashes h') n = Some x'"
    and left: "n + 1 \<noteq> 0" "n + 1 \<in> set (mkeys (rounds h))" "n + 1 \<noteq> s_number (ops rt) (currentRound h)"
    and m: "qget (queue_of b h) (n + 1) i = Some m" "BroadcastVerification m = Some x'"
  shows "collision b3 (broadcast_transcript b3 hs (broadcast h) n ids) (broadcast_transcript b3 hs (broadcast h') n ids)
    \<or> same_broadcasts b3 ids n h h'"
proof -
  have "mget (broadcastHashes h) (n + 1 - 1) = Some x" using x by simp
  then have "bytes_Equal (BroadcastVerification m) x"
    using h(2) left m(1) unfolding echo_inv_def by blast
  then have eq: "x' = x" using m(2) by (simp add: bytes_Equal_def)
  have all: "\<forall>i\<in>set ids. qget (broadcast h) n i \<noteq> None" "\<forall>i\<in>set ids. qget (broadcast h') n i \<noteq> None"
    and sums: "x = hash_Sum b3 (broadcast_transcript b3 hs (broadcast h) n ids)"
      "x' = hash_Sum b3 (broadcast_transcript b3 hs (broadcast h') n ids)"
    using h(1) h' x x' r hp b3 unfolding hash_inv_def by fastforce+
  show ?thesis
  proof (cases "broadcast_transcript b3 hs (broadcast h) n ids = broadcast_transcript b3 hs (broadcast h') n ids")
    case True
    have "same_broadcasts b3 ids n h h'"
      unfolding same_broadcasts_def
    proof
      fix i assume i: "i \<in> set ids"
      then obtain m m' where q: "qget (broadcast h) n i = Some m" "qget (broadcast h') n i = Some m'"
        using all by blast
      then have "Message_Hash b3 m = Message_Hash b3 m'"
        using transcript_agree[OF all True i] by simp
      then show "\<exists>m m'. qget (broadcast h) n i = Some m \<and> qget (broadcast h') n i = Some m' \<and>
          (message_small m \<longrightarrow> message_small m' \<longrightarrow>
            collision b3 (hash_New (Message_parts m)) (hash_New (Message_parts m')) \<or> Data m = Data m')"
        using q Message_digest_binds by blast
    qed
    then show ?thesis by blast
  qed (use eq sums in \<open>simp add: collision_def\<close>)
qed

end
