(* ===== verification/Blame.thy ===== *)
theory Blame
  imports HandlerInv
begin

text \<open>
  Whom a handler blames (\<open>pkg/protocol/handler.go\<close>). For every protocol: an error without a culprit is the
  failure of the broadcast check, or comes from a round that aborted without naming one.
\<close>

definition blamed :: "('r, 'res) MultiHandler \<Rightarrow> bool" where
  "blamed h \<longleftrightarrow> (\<forall>e. h_err h = Some e \<longrightarrow> Culprits e = [] \<longrightarrow>
     pe_Err e = Err ''broadcast verification failed'' \<or> (\<exists>hp. currentRound h = AbortRound hp (pe_Err e) []))"

lemma blamed_no_error: "h_err h = None \<Longrightarrow> blamed h"
  by (simp add: blamed_def)

lemma blamed_abort: "abort rt e (c # cs) h = Ret h' \<Longrightarrow> h_err h = None \<Longrightarrow> blamed h'"
  using abort_Ret(8)[of rt e "c # cs" h h'] by (auto simp: blamed_def split: option.splits)

lemma drain_blamed:
  assumes "drain rt verify q h = Ret (ok, h')" and "h_err h = None"
    and frame: "\<And>m h e h'. verify m h = Ret (e, h') \<Longrightarrow> verify_frame h h'"
  shows "blamed h' \<and> (ok \<longrightarrow> h_err h' = None)"
  using assms(1,2)
proof (induction q arbitrary: h)
  case (Cons im q)
  obtain i m where im: "im = (i, m)" by force
  obtain e h1 where v: "verify m h = Ret (e, h1)"
    and k: "(case e of Some e' \<Rightarrow> obind (abort rt (Some e') [From m] h1) (\<lambda>h2. Ret (False, h2))
        | None \<Rightarrow> drain rt verify q h1) = Ret (ok, h')"
    using Cons.prems(1) by (auto simp: im elim!: obind_RetE)
  have "h_err h1 = None" using frame[OF v] Cons.prems(2) by (simp add: verify_frame_def same_verdict_def)
  then show ?case using Cons.IH k by (cases e) (auto elim!: obind_RetE intro: blamed_abort)
qed (simp add: blamed_no_error)

lemma enter_round_blamed:
  assumes "enter_round rt r h = Ret (again, h')" and "h_err h = None"
  shows "blamed h' \<and> (again \<longrightarrow> h_err h' = None)"
proof (cases "mget (rounds h) (s_number (ops rt) r)")
  case None
  let ?h1 = "h\<lparr>rounds := mput (s_number (ops rt) r) r (rounds h), currentRound := r\<rparr>"
  have e1: "h_err ?h1 = None" using assms(2) by simp
  show ?thesis
  proof (cases r)
    case (Live lr)
    then obtain verify q where d: "drain rt verify q ?h1 = Ret (again, h')"
      and f: "\<And>m h e h'. verify m h = Ret (e, h') \<Longrightarrow> verify_frame h h'"
      using assms(1) None that[OF _ verifyMessage_frame] that[OF _ verifyBroadcastMessage_frame]
      by (fastforce simp: enter_round_def Let_def split: if_splits)
    show ?thesis by (rule drain_blamed[OF d e1 f])
  next
    case (AbortRound hp e cs)
    then have a: "abort rt (Some e) cs ?h1 = Ret h'" "\<not> again"
      using assms(1) None by (auto simp: enter_round_def Let_def elim!: obind_RetE)
    show ?thesis using a(2) abort_Ret(3,8)[OF a(1)] by (auto simp: blamed_def AbortRound)
  next
    case (OutputRound hp res)
    then have a: "abort rt None [] (?h1\<lparr>h_result := Some res\<rparr>) = Ret h'" "\<not> again"
      using assms(1) None by (auto simp: enter_round_def Let_def elim!: obind_RetE)
    show ?thesis using a(2) abort_Ret(8)[OF a(1)] assms(2) by (simp add: blamed_def)
  qed
qed (use assms in \<open>auto simp: enter_round_def Let_def blamed_no_error\<close>)

lemma finalize_step_blamed:
  assumes "finalize_step rt h = Ret (again, h')" and "h_err h = None"
  shows "blamed h' \<and> (again \<longrightarrow> h_err h' = None)"
proof -
  obtain ok h1 where r: "receivedAll rt h = (ok, h1)" by fastforce
  have e1: "h_err h1 = None" using receivedAll_frame(4)[OF r] assms(2) by (simp add: same_verdict_def)
  consider (forward) s out h2 where "forward rt s out h1 = Ret h2" "enter_round rt s h2 = Ret (again, h')"
    | (nothing) "h' = h1" "\<not> again"
    | (hash) "abort rt (Some (Err ''broadcast verification failed'')) [] h1 = Ret h'" "\<not> again"
    | (self) x i where "abort rt x [i] h1 = Ret h'" "\<not> again"
    using assms(1) r
    by (auto simp: finalize_step_def Let_def obind_case
        split: if_split_asm outcome.split_asm sum.split_asm option.split_asm)
  then show ?thesis
  proof cases
    case forward
    then show ?thesis using enter_round_blamed forward_frame e1 by metis
  next
    case hash
    then show ?thesis using abort_Ret(8)[OF hash(1)] by (simp add: blamed_def)
  qed (use e1 in \<open>auto intro: blamed_abort blamed_no_error\<close>)
qed

lemma finalize_blamed: "finalize rt h = Ret h' \<Longrightarrow> h_err h = None \<Longrightarrow> blamed h'"
proof (induction rt h rule: finalize.induct)
  case (1 rt h)
  then obtain again h1 where s: "finalize_step rt h = Ret (again, h1)"
    and k: "(if again then finalize rt h1 else Ret h1) = Ret h'"
    by (auto simp: finalize.simps[of rt h] split: outcome.splits)
  show ?case using 1(1)[OF s refl] k finalize_step_blamed[OF s 1(3)] by (cases again) auto
qed

lemma Accept_blamed:
  assumes "Accept rt msg h = Ret h'" and "blamed h"
  shows "blamed h'"
  using assms(1)
proof (cases rule: Accept_cases)
  case (told m)
  then show ?thesis using blamed_abort by (auto simp: finished_def)
next
  case (queued m)
  then show ?thesis by (simp add: blamed_def finished_def)
next
  case (bad m e h2)
  have "h_err h2 = None"
    using verify_either_frame[OF bad(5)] bad(4) by (simp add: verify_frame_def same_verdict_def finished_def)
  then show ?thesis using bad(6) by (rule blamed_abort[rotated])
next
  case (good m h2)
  have "h_err h2 = None"
    using verify_either_frame[OF good(5)] good(4) by (simp add: verify_frame_def same_verdict_def finished_def)
  then show ?thesis using good(6) by (rule finalize_blamed[rotated])
qed (use assms(2) in simp)

lemma Stop_blamed: "Stop rt h = Ret h' \<Longrightarrow> blamed h \<Longrightarrow> blamed h'"
  using abort_Ret(8)[of rt "Some (Err ''aborted by user'')" "[SelfID (info (s_helper (ops rt) (currentRound h)))]" h h']
  by (auto simp: Stop_def blamed_def split: if_splits)

lemma reachable_blamed: "reachable rt r h \<Longrightarrow> blamed h"
proof (induction rule: reachable.induct)
  case (start create sid h)
  then show ?case by (auto simp: NewMultiHandler_def Let_def elim!: obind_RetE finalize_blamed)
next
  case (listen h m h')
  then show ?case by (auto simp: Listen_recv_def blamed_def split: list.split_asm)
qed (auto intro: Accept_blamed Stop_blamed)

text \<open>So a handler whose rounds do not abort fails without a culprit only at the broadcast check.\<close>

lemma no_culprit:
  assumes "reachable rt r h" and "\<And>hp e cs. currentRound h \<noteq> AbortRound hp e cs"
    and "h_err h = Some e" and "Culprits e = []"
  shows "pe_Err e = Err ''broadcast verification failed''"
  using reachable_blamed[OF assms(1)] assms(2-4) by (auto simp: blamed_def)

end
