(* ===== verification/Liveness.thy ===== *)
theory Liveness
  imports HandlerInv
begin

text \<open>
  Progress of the protocol engine. A handler at rest which has not ended is waiting for a message of
  another party for its current round, and no call of it ever blocks on its output channel: the
  channel has room for all messages the protocol will send, whether anyone receives them or not. Both
  follow from the contract \<open>live_protocol\<close>, which adds to \<open>round_protocol\<close> how many messages a round may
  still send and that a round followed by a broadcast round broadcasts. Key generation and signing
  fulfil it.
\<close>

section \<open>What is missing in the current round\<close>

definition missing :: "('r, 'c, 'res) runtime \<Rightarrow> ('r, 'res) MultiHandler \<Rightarrow> ID \<Rightarrow> bool" where
  "missing rt h i \<longleftrightarrow> (let s = currentRound h; n = s_number (ops rt) s in
     s_isBroadcast (ops rt) s \<and> qget (broadcast h) n i = None \<or>
     s_hasContent (ops rt) s \<and> qget (messages h) n i = None)"

lemma receivedAll_fst_cong:
  assumes "currentRound h' = currentRound h"
    and "\<And>b i. qget (queue_of b h') (s_number (ops rt) (currentRound h)) i = qget (queue_of b h) (s_number (ops rt) (currentRound h)) i"
    and "\<And>b. mget (queue_of b h') (s_number (ops rt) (currentRound h)) = None \<longleftrightarrow> mget (queue_of b h) (s_number (ops rt) (currentRound h)) = None"
  shows "fst (receivedAll rt h') = fst (receivedAll rt h)"
  using assms(1) assms(2)[of True] assms(2)[of False] assms(3)[of True] assms(3)[of False]
  by (auto simp: receivedAll_def Let_def queue_of_def)

lemma receivedAll_again: "receivedAll rt h = (False, h') \<Longrightarrow> \<not> fst (receivedAll rt h')"
  by (subst receivedAll_fst_cong[of h' h])
    (auto simp: queue_of_def receivedAll_frame)

section \<open>Calls that do not block\<close>

lemma abort_not_Blocked [simp]: "abort rt e cs h \<noteq> Blocked"
  by (auto simp: abort_def close_out_def send_def Let_def split: option.splits)

lemma obind_Blocked: "obind x f = Blocked \<longleftrightarrow> x = Blocked \<or> (\<exists>y. x = Ret y \<and> f y = Blocked)"
  by (cases x) auto

lemma forward_live:
  assumes "length (h_out h) + length out \<le> h_outcap h"
  shows "forward rt s out h \<noteq> Blocked" and "forward rt s out h = Ret h' \<Longrightarrow> length (h_out h') = length (h_out h) + length out"
proof -
  have "forward rt s out h \<noteq> Blocked \<and> (\<forall>h'. forward rt s out h = Ret h' \<longrightarrow> length (h_out h') = length (h_out h) + length out)"
    using assms
  proof (induction out arbitrary: h)
    case (Cons rm out)
    show ?case
    proof (cases "r_marshal (ops rt) (rm_Content rm)")
      case (Some bs)
      define m where "m = wire_message rt s rm bs h"
      define h1 where "h1 = (if Broadcast m then store m h else h)"
      have h1: "h_out h1 = h_out h" "h_outcap h1 = h_outcap h" by (simp_all add: h1_def)
      have s: "send m h1 = (if h_outclosed h1 then Panic else Ret (h1\<lparr>h_out := h_out h @ [m]\<rparr>))"
        using Cons.prems by (simp add: send_def h1)
      have f: "forward rt s (rm # out) h = obind (send m h1) (forward rt s out)"
        using Some by (simp add: Let_def m_def h1_def)
      show ?thesis
        unfolding f s using Cons.IH[of "h1\<lparr>h_out := h_out h @ [m]\<rparr>"] Cons.prems by (simp add: h1)
    qed simp
  qed simp
  then show "forward rt s out h \<noteq> Blocked"
    and "forward rt s out h = Ret h' \<Longrightarrow> length (h_out h') = length (h_out h) + length out" by blast+
qed

lemma qget_store_own:
  "mget (queue_of (Broadcast m) h) (RoundNumber m) \<noteq> None \<Longrightarrow> Broadcast m \<Longrightarrow>
    qget (broadcast (store m h)) (RoundNumber m) (From m) \<noteq> None"
  by (auto simp: store_def qget_def queue_of_def split: option.splits)

lemma forward_own:
  assumes "forward rt s out h = Ret h'" and "rm \<in> set out" and "rm_Broadcast rm"
    and "mget (broadcast h) (r_contentRound (ops rt) (rm_Content rm)) \<noteq> None"
  shows "qget (broadcast h') (r_contentRound (ops rt) (rm_Content rm)) (SelfID (info (s_helper (ops rt) s))) \<noteq> None"
  using assms(1,2,4)
proof (induction out arbitrary: h)
  case (Cons x out)
  then obtain bs where bs: "r_marshal (ops rt) (rm_Content x) = Some bs" by (auto split: option.splits)
  define m where "m = wire_message rt s x bs h"
  define h1 where "h1 = (if Broadcast m then store m h else h)"
  obtain h2 where h2: "send m h1 = Ret h2" "forward rt s out h2 = Ret h'"
    using Cons.prems(1) bs by (auto simp: Let_def m_def[symmetric] h1_def[symmetric] elim!: obind_RetE)
  have e: "broadcast h2 = broadcast h1" using h2(1) by (simp add: send_Ret)
  have x: "hext h2 h'" using forward_frame[OF h2(2)] by simp
  show ?case
  proof (cases "rm = x")
    case True
    have m: "RoundNumber m = r_contentRound (ops rt) (rm_Content rm)" "From m = SelfID (info (s_helper (ops rt) s))" "Broadcast m"
      using True assms(3) by (simp_all add: m_def wire_message_def Let_def)
    have "qget (broadcast h2) (RoundNumber m) (From m) \<noteq> None"
      using qget_store_own[of m h] Cons.prems(3) m e by (simp add: h1_def queue_of_def)
    then show ?thesis using x unfolding m hext_def qext_def by blast
  next
    case False
    have "hext h h1" by (simp add: h1_def hext_store)
    then have "mget (broadcast h2) (r_contentRound (ops rt) (rm_Content rm)) \<noteq> None"
      using Cons.prems(3) unfolding e by (auto simp: hext_def qext_def)
    then show ?thesis using Cons.IH[OF h2(2)] Cons.prems(2) False by simp
  qed
qed simp

lemma drain_live:
  assumes "\<And>m h. verify m h \<noteq> Blocked"
  shows "drain rt verify q h \<noteq> Blocked"
proof (induction q arbitrary: h)
  case (Cons x q)
  then show ?case
    using assms by (cases x) (auto simp: obind_Blocked split: option.splits)
qed simp

text \<open>Entering a round not visited before: the handler ends, or is in the round with its queued messages
  delivered.\<close>

lemma enter_round_new:
  assumes step: "enter_round rt s h = Ret (again, h')" and none: "mget (rounds h) (s_number (ops rt) s) = None"
  shows "if again then (\<exists>r. s = Live r) \<and> verify_frame (h\<lparr>rounds := mput (s_number (ops rt) s) s (rounds h), currentRound := s\<rparr>) h'
    else finished h'"
proof (cases s)
  case (Live r)
  let ?h1 = "h\<lparr>rounds := mput (s_number (ops rt) s) s (rounds h), currentRound := s\<rparr>"
  obtain verify q where d: "drain rt verify q ?h1 = Ret (again, h')"
    and f: "\<And>m h e h'. verify m h = Ret (e, h') \<Longrightarrow> verify_frame h h'"
    using step none Live that[OF _ verifyMessage_frame] that[OF _ verifyBroadcastMessage_frame]
    by (fastforce simp: enter_round_def Let_def split: if_splits)
  show ?thesis using drain_Ret[OF d f] Live by auto
next
  case (AbortRound hp e cs)
  then obtain h1 where "abort rt (Some e) cs h1 = Ret h' \<and> \<not> again"
    using step none by (auto simp: enter_round_def Let_def elim!: obind_RetE)
  then show ?thesis using abort_Ret(8)[of rt "Some e" cs h1 h'] by (simp add: finished_def)
next
  case (OutputRound hp res)
  then obtain h1 where "abort rt None [] (h1\<lparr>h_result := Some res\<rparr>) = Ret h' \<and> \<not> again"
    using step none by (auto simp: enter_round_def Let_def elim!: obind_RetE)
  then show ?thesis using abort_Ret(4)[of rt None "[]" "h1\<lparr>h_result := Some res\<rparr>" h'] by (simp add: finished_def)
qed

section \<open>The contract\<close>

locale live_protocol = round_protocol rt good gotB gotM final_ok
  for rt :: "('r, 'c, 'res) runtime" and good :: "'r \<Rightarrow> bool"
    and gotB :: "'r \<Rightarrow> ID set" and gotM :: "'r \<Rightarrow> ID set" and final_ok :: "('r, 'res) session \<Rightarrow> bool" +
  fixes bcast :: "Number \<Rightarrow> bool" and budget :: "nat \<Rightarrow> Number \<Rightarrow> nat"
  assumes bcast_number: "good r \<Longrightarrow> r_isBroadcast (ops rt) r = bcast (r_number (ops rt) r)"
    and rounds_return: "r_verify (ops rt) r m \<noteq> Blocked" "r_store (ops rt) r m \<noteq> Blocked"
      "r_storeBroadcast (ops rt) r m \<noteq> Blocked" "r_finalize (ops rt) r cap \<noteq> Blocked"
    and sends: "good r \<Longrightarrow> r_finalize (ops rt) r cap = Ret (Inr (Some s, out)) \<Longrightarrow>
      length out + (case s of Live r' \<Rightarrow> budget (Helper_N (r_helper (ops rt) r)) (r_number (ops rt) r') | _ \<Rightarrow> 0)
        \<le> budget (Helper_N (r_helper (ops rt) r)) (r_number (ops rt) r)"
    and announces: "good r \<Longrightarrow> r_finalize (ops rt) r cap = Ret (Inr (Some (Live r'), out)) \<Longrightarrow>
      r_isBroadcast (ops rt) r' \<Longrightarrow> \<exists>m\<in>set out. rm_Broadcast m"
    and first_budget: "good r \<Longrightarrow> budget (Helper_N (r_helper (ops rt) r)) 1 \<le> 2 * Helper_N (r_helper (ops rt) r)"
begin

text \<open>The channel has room for what the protocol may still send, and our own broadcast of the current
  round is queued.\<close>

definition provided :: "Helper \<Rightarrow> ('r, 'res) MultiHandler \<Rightarrow> bool" where
  "provided hp h \<longleftrightarrow> (let n = s_number (ops rt) (currentRound h) in
     length (h_out h) + budget (Helper_N hp) n \<le> h_outcap h \<and>
     (bcast n \<longrightarrow> qget (broadcast h) n (SelfID (info hp)) \<noteq> None))"

lemma provided_cong:
  "provided hp h \<Longrightarrow> s_number (ops rt) (currentRound h') = s_number (ops rt) (currentRound h) \<Longrightarrow>
    length (h_out h') \<le> length (h_out h) \<Longrightarrow> h_outcap h' = h_outcap h \<Longrightarrow> qext (broadcast h) (broadcast h') \<Longrightarrow> provided hp h'"
  unfolding provided_def Let_def qext_def by fastforce

lemma provided_verify:
  assumes "provided hp h" and "running rt ok hp h" and "running rt ok hp h'" and "verify_frame h h'"
  shows "provided hp h'"
  by (rule provided_cong[OF assms(1) running_number[OF assms(2-4)]])
    (use assms(4) in \<open>simp_all add: verify_frame_def same_verdict_def same_queues_def\<close>)

lemma verifyMessage_live: "verifyMessage rt m h \<noteq> Blocked"
proof -
  have "s_verify (ops rt) s rm \<noteq> Blocked" "s_store (ops rt) s rm \<noteq> Blocked" for s rm
    using rounds_return by (cases s; simp add: obind_Blocked)+
  then show ?thesis
    by (auto simp: verifyMessage_def obind_Blocked split: option.splits sum.splits)
qed

lemma verifyBroadcastMessage_live: "verifyBroadcastMessage rt m h \<noteq> Blocked"
proof -
  have "s_storeBroadcast (ops rt) s rm \<noteq> Blocked" for s rm
    using rounds_return by (cases s) (simp_all add: obind_Blocked)
  then show ?thesis
    by (auto simp: verifyBroadcastMessage_def obind_Blocked verifyMessage_live Let_def split: option.splits sum.splits)
qed

lemma enter_round_live: "enter_round rt s h \<noteq> Blocked"
  by (auto simp: enter_round_def Let_def obind_Blocked intro!: drain_live
      verifyMessage_live verifyBroadcastMessage_live split: session.splits)

text \<open>What happens when the current round is finalized.\<close>

lemma finalize_step_live:
  assumes run: "running rt ok hp h" and set: "settled rt gotB gotM h" and p: "provided hp h"
  shows "finalize_step rt h \<noteq> Blocked"
    and "finalize_step rt h = Ret (again, h') \<Longrightarrow> (again \<longrightarrow> provided hp h') \<and>
      (\<not> again \<longrightarrow> finished h' \<or> receivedAll rt h = (False, h') \<and> provided hp h')"
proof -
  obtain fl h1 where ra: "receivedAll rt h = (fl, h1)" by fastforce
  note fr = receivedAll_frame[OF ra]
  have h1: "running rt ok hp h1" by (rule running_receivedAll[OF run ra])
  have p1: "provided hp h1"
    by (rule provided_cong[OF p]) (use fr in \<open>simp_all add: same_verdict_def\<close>)
  obtain r where r: "currentRound h1 = Live r" "good r" "same_session hp (r_helper (ops rt) r)"
    "set (mkeys (rounds h1)) = {1..r_number (ops rt) r}" "r_number (ops rt) r < - 1"
    "r_number (ops rt) r + 1 \<notin> set (mkeys (rounds h1))"
    by (rule running_current[OF h1])
  let ?fin = "r_finalize (ops rt) r (Helper_N (r_helper (ops rt) r) + 1)"
  have N: "Helper_N (r_helper (ops rt) r) = Helper_N hp" using r(3) by (simp add: same_session_def Helper_N_def)
  have room: "length (h_out h1) + length out \<le> h_outcap h1" if "?fin = Ret (Inr (Some s, out))" for s out
    using sends[OF r(2) that] p1 r(1) by (simp add: provided_def N Let_def)
  show "finalize_step rt h \<noteq> Blocked"
    using ra r(1) rounds_return(4) forward_live(1)[OF room] enter_round_live
    by (auto simp: finalize_step_def Let_def obind_Blocked split: sum.splits option.splits)
  assume step: "finalize_step rt h = Ret (again, h')"
  consider (stop) "h' = h1" "\<not> again" "\<not> fl" | (abort) "finished h'" "\<not> again"
    | (advance) x out where fl "?fin = Ret (Inr (x, out))"
    using step ra r(1)
    by (auto simp: finalize_step_def Let_def obind_case finished_def dest!: abort_Ret(8)
        split: if_split_asm outcome.split_asm sum.split_asm prod.split_asm)
  then show "(again \<longrightarrow> provided hp h') \<and> (\<not> again \<longrightarrow> finished h' \<or> receivedAll rt h = (False, h') \<and> provided hp h')"
  proof cases
    case (advance x out)
    have "complete (ops rt) gotB gotM r"
      using receivedAll_complete[OF run set] ra advance(1) fr(3) r(1) by simp
    then obtain s where s: "x = Some s" "same_session (r_helper (ops rt) r) (s_helper (ops rt) s)"
      "\<And>r'. s = Live r' \<Longrightarrow> good r' \<and> r_number (ops rt) r' = r_number (ops rt) r + 1"
      using finalize_next[OF r(2) _ advance(2)] by blast
    show ?thesis
    proof (cases "checkBroadcastHash rt h1")
      case False
      then have "finished h' \<and> \<not> again"
        using step ra advance(1)
        by (auto simp: finalize_step_def Let_def obind_Ret_iff finished_def dest!: abort_Ret(8))
      then show ?thesis by blast
    next
      case True
      then obtain h2 where f: "forward rt s out h1 = Ret h2" and e: "enter_round rt s h2 = Ret (again, h')"
        using step ra r(1) advance s(1) by (auto simp: finalize_step_def Let_def obind_Ret_iff)
      note ff = forward_frame[OF f]
      let ?n = "s_number (ops rt) s"
      have "?n \<notin> set (mkeys (rounds h2))"
        using ff s(3) r(6) by (cases s) (auto simp: r(4))
      then have none: "mget (rounds h2) ?n = None" by (simp add: set_mkeys domIff)
      note new = enter_round_new[OF e none]
      have "finished h'" if "\<not> again" using new that by simp
      moreover have "provided hp h'" if a: again
      proof -
        obtain r' where r': "s = Live r'" "good r'" "r_number (ops rt) r' = r_number (ops rt) r + 1"
          using new a s(3) by auto
        let ?h = "h2\<lparr>rounds := mput ?n s (rounds h2), currentRound := s\<rparr>"
        have vf: "verify_frame ?h h'" using new a by simp
        have run': "running rt ok hp h'"
          using running_finalize_step[OF run set step] a by simp
        obtain r2 where r2: "currentRound h' = Live r2" "good r2" "set (mkeys (rounds h')) = {1..r_number (ops rt) r2}"
          by (rule running_current[OF run'])
        have "set (mkeys (rounds h')) = insert ?n {1..r_number (ops rt) r}"
          using vf ff r(4) by (simp add: verify_frame_def)
        then have "{1..r_number (ops rt) r2} = {1..r_number (ops rt) r'}"
          unfolding r2(3) using r' Number_atLeastAtMost_Suc[OF r(5)] by simp
        then have n': "s_number (ops rt) (currentRound h') = ?n"
          using good_number[OF r2(2)] good_number[OF r'(2)] r2(1) r'(1) by auto
        have out': "h_out h' = h_out h2" "h_outcap h' = h_outcap h1" "broadcast h' = broadcast h2"
          using vf ff by (simp_all add: verify_frame_def same_verdict_def same_queues_def)
        have len: "length (h_out h2) = length (h_out h1) + length out"
          by (rule forward_live(2)[OF room f]) (use advance(2) s(1) in simp)
        have fin: "?fin = Ret (Inr (Some (Live r'), out))" using advance(2) s(1) r'(1) by simp
        have "length (h_out h') + budget (Helper_N hp) ?n \<le> h_outcap h'"
          using sends[OF r(2) fin] p1 r(1) len r'(1) by (simp add: provided_def N out' Let_def)
        moreover have "qget (broadcast h') ?n (SelfID (info hp)) \<noteq> None" if "bcast ?n"
        proof -
          have b: "r_isBroadcast (ops rt) r'" using bcast_number[OF r'(2)] that r'(1) by simp
          then obtain m where m: "m \<in> set out" "rm_Broadcast m"
            using announces[OF r(2) fin] by blast
          have c: "r_contentRound (ops rt) (rm_Content m) = ?n"
            using finalize_messages[OF r(2) advance(2) m(1)] r' by simp
          have "2 \<le> ?n" "?n \<le> FinalRoundNumber (info hp)"
            using good_receives[OF r'(2)] good_number[OF r'(2)] b r'(1) s(2) r(3) by (simp_all add: same_session_def)
          then have "mget (broadcast h1) ?n \<noteq> None"
            using h1 unfolding running_def core_inv_def queue_dom_def by (metis queue_of_def)
          from forward_own[OF f m(1,2)] this show ?thesis
            using s(2) r(3) unfolding c by (simp add: out' same_session_def)
        qed
        ultimately show ?thesis by (simp add: provided_def n')
      qed
      ultimately show ?thesis by blast
    qed
  qed (use ra p1 in simp_all)
qed

lemma finalize_live:
  "running rt ok hp h \<Longrightarrow> settled rt gotB gotM h \<Longrightarrow> provided hp h \<Longrightarrow>
    finalize rt h \<noteq> Blocked \<and> (\<forall>h'. finalize rt h = Ret h' \<longrightarrow> finished h' \<or> provided hp h' \<and> \<not> fst (receivedAll rt h'))"
proof (induction h rule: measure_induct_rule[of "\<lambda>h. card (UNIV - set (mkeys (rounds h)))"])
  case (less h)
  note live = finalize_step_live[OF less.prems]
  show ?case
  proof (cases "finalize_step rt h")
    case (Ret x)
    obtain again h1 where x: "x = (again, h1)" by force
    note s = Ret[unfolded x]
    show ?thesis
    proof (cases again)
      case True
      have "UNIV - set (mkeys (rounds h1)) \<subset> UNIV - set (mkeys (rounds h))"
        using finalize_step_Ret(2)[OF s True] by blast
      then have "card (UNIV - set (mkeys (rounds h1))) < card (UNIV - set (mkeys (rounds h)))"
        by (simp add: psubset_card_mono)
      then show ?thesis
        using less.IH[of h1] live(2)[OF s] running_finalize_step[OF less.prems(1,2) s] True
        by (simp add: finalize.simps[of rt h] s)
    next
      case False
      then show ?thesis
        using live(2)[OF s] receivedAll_again by (auto simp: finalize.simps[of rt h] s)
    qed
  qed (use live(1) in \<open>simp_all add: finalize.simps[of rt h]\<close>)
qed

text \<open>At rest.\<close>

definition live_inv :: "Helper \<Rightarrow> ('r, 'res) MultiHandler \<Rightarrow> bool" where
  "live_inv hp h \<longleftrightarrow> handler_inv rt ok gotB gotM hp h \<and>
     (finished h \<or> provided hp h \<and> \<not> fst (receivedAll rt h))"

lemma provided_store: "provided hp h \<Longrightarrow> provided hp (store m h)"
  using hext_store[of h m] by (intro provided_cong[of hp h "store m h"]) (auto simp: hext_def)

lemma live_verified:
  assumes inv: "live_inv hp h" and acc: "CanAccept rt h (Some m)" "RoundNumber m \<noteq> 0" "\<not> finished h"
    and cur: "s_number (ops rt) (currentRound h) = RoundNumber m"
    and v: "verify_either rt m (store m h) = Ret (None, h2)"
  shows "finalize rt h2 \<noteq> Blocked \<and>
    (\<forall>h'. finalize rt h2 = Ret h' \<longrightarrow> finished h' \<or> provided hp h' \<and> \<not> fst (receivedAll rt h'))"
proof -
  have r: "running rt ok hp h" "settled rt gotB gotM h" "provided hp h"
    using inv inv_not_finished[OF _ acc(3)] acc(3) by (auto simp: live_inv_def)
  have h2: "running rt ok hp h2" "settled rt gotB gotM h2"
    using accepted_verified[OF r(1,2) acc(1,2) cur v] by simp_all
  have "verify_frame (store m h) h2"
    using v verifyMessage_frame[of rt m] verifyBroadcastMessage_frame[of rt m] by (simp split: if_splits)
  then have "provided hp h2"
    by (rule provided_verify[OF provided_store[OF r(3)] running_accepted[OF r(1) acc(1,2)] h2(1)])
  then show ?thesis by (rule finalize_live[OF h2])
qed

lemma Accept_live:
  assumes inv: "live_inv hp h"
  shows "Accept rt msg h \<noteq> Blocked"
proof
  assume b: "Accept rt msg h = Blocked"
  then obtain m where m: "CanAccept rt h (Some m)" "\<not> finished h" "RoundNumber m \<noteq> 0"
    "s_number (ops rt) (currentRound h) = RoundNumber m"
    "obind (verify_either rt m (store m h)) (\<lambda>(e, h2). case e of
       Some e' \<Rightarrow> abort rt (Some e') [From m] h2 | None \<Rightarrow> finalize rt h2) = Blocked"
    by (cases msg) (auto simp: Accept_def CanAccept_def[of _ _ None] Let_def finished_def split: if_splits)
  then obtain h2 where "verify_either rt m (store m h) = Ret (None, h2)" "finalize rt h2 = Blocked"
    using verifyMessage_live verifyBroadcastMessage_live by (auto simp: obind_Blocked split: option.splits if_splits)
  then show False using live_verified[OF inv m(1,3,2,4)] by blast
qed

lemma live_Accept:
  assumes inv: "live_inv hp h" and step: "Accept rt msg h = Ret h'"
  shows "live_inv hp h'"
proof -
  have "finished h' \<or> provided hp h' \<and> \<not> fst (receivedAll rt h')"
    using step
  proof (cases rule: Accept_cases)
    case (told m)
    then show ?thesis using abort_Ret(8)[OF told(4)] by (simp add: finished_def)
  next
    case (queued m)
    have q: "mget (queue_of b (store m h)) n = None \<longleftrightarrow> mget (queue_of b h) n = None" for b n
      using hext_store[of h m] by (auto simp: hext_def qext_def queue_of_def)
    have "fst (receivedAll rt (store m h)) = fst (receivedAll rt h)"
      by (rule receivedAll_fst_cong) (use q qget_store_same(1)[OF disjI1[OF queued(5)]] in simp_all)
    then show ?thesis
      using inv queued(4,6) provided_store[of hp h m] by (auto simp: live_inv_def)
  next
    case (bad m e h2)
    then show ?thesis using abort_Ret(8)[OF bad(6)] by (simp add: finished_def)
  next
    case (good m h2)
    then show ?thesis using live_verified[OF inv good(3,2,4,7,5)] by blast
  qed (use inv in \<open>simp add: live_inv_def\<close>)
  then show ?thesis using inv_Accept[OF _ step] inv by (simp add: live_inv_def)
qed

lemma live_Listen:
  assumes inv: "live_inv hp h" and l: "Listen_recv h = (m, h')"
  shows "live_inv hp h'"
proof -
  have f: "currentRound h' = currentRound h" "messages h' = messages h" "broadcast h' = broadcast h"
    "h_outcap h' = h_outcap h" "length (h_out h') \<le> length (h_out h)" "finished h' = finished h"
    using l by (auto simp: Listen_recv_def finished_def split: list.splits)
  have "fst (receivedAll rt h') = fst (receivedAll rt h)"
    by (rule receivedAll_fst_cong) (simp_all add: f queue_of_def)
  moreover have "provided hp h \<Longrightarrow> provided hp h'"
    by (erule provided_cong) (simp_all add: f)
  ultimately show ?thesis using inv inv_Listen[OF _ l] f(6) by (auto simp: live_inv_def)
qed

lemma New_live:
  assumes "create sid = Inr (Live r)" and "good r" and "r_number (ops rt) r = 1"
  shows "NewMultiHandler rt create sid \<noteq> Blocked"
    and "NewMultiHandler rt create sid = Ret (Inr h) \<Longrightarrow> live_inv (r_helper (ops rt) r) h"
proof -
  let ?h0 = "started_handler (r_helper (ops rt) r) r"
  have "\<not> bcast 1" using bcast_number[OF assms(2)] good_receives[OF assms(2)] assms(3) by (auto simp: word_le_nat_alt)
  then have "provided (r_helper (ops rt) r) ?h0"
    using first_budget[OF assms(2)] assms(3) by (simp add: provided_def started_handler_def)
  note f = finalize_live[OF running_started[OF assms(2,3)] this]
  show "NewMultiHandler rt create sid \<noteq> Blocked"
    using f assms(1,3) by (simp add: NewMultiHandler_def Let_def obind_Blocked started_handler_def)
  assume n: "NewMultiHandler rt create sid = Ret (Inr h)"
  then have "finalize rt ?h0 = Ret h"
    using assms(1,3) by (simp add: NewMultiHandler_def Let_def obind_Ret_iff started_handler_def)
  then show "live_inv (r_helper (ops rt) r) h"
    using f inv_New[OF assms n] by (simp add: live_inv_def)
qed

lemma live_reachable:
  assumes "reachable rt (Live r) h" and "good r" and "r_number (ops rt) r = 1"
  shows "live_inv (r_helper (ops rt) r) h"
  using assms(1)
proof (induction rule: reachable.induct)
  case (start create sid h)
  then show ?case using New_live(2) assms(2,3) by blast
next
  case (stop h h')
  then show ?case using inv_Stop[OF _ stop(2)] by (auto simp: live_inv_def)
qed (use live_Accept live_Listen in blast)+

lemma calls_return:
  "reachable rt (Live r) h \<Longrightarrow> good r \<Longrightarrow> r_number (ops rt) r = 1 \<Longrightarrow> Accept rt msg h \<noteq> Blocked"
  by (rule Accept_live[OF live_reachable])

text \<open>A handler that has not ended waits for another party.\<close>

lemma waits_for_other:
  assumes "reachable rt (Live r) h" and "good r" and "r_number (ops rt) r = 1" and "\<not> finished h"
  shows "\<exists>i\<in>set (otherPartyIDs (r_helper (ops rt) r)). missing rt h i"
proof -
  let ?hp = "r_helper (ops rt) r"
  have inv: "running rt ok ?hp h" "provided ?hp h" "\<not> fst (receivedAll rt h)"
    using live_reachable[OF assms(1-3)] inv_not_finished[OF _ assms(4)] assms(4) by (simp_all add: live_inv_def)
  obtain x where x: "currentRound h = Live x" "good x" "same_session ?hp (r_helper (ops rt) x)" "session_ok ?hp"
    by (rule running_current[OF inv(1)])
  have "\<exists>i\<in>set (partyIDs ?hp). r_isBroadcast (ops rt) x \<and> qget (broadcast h) (r_number (ops rt) x) i = None \<or>
      i \<in> set (otherPartyIDs ?hp) \<and> r_hasContent (ops rt) x \<and> qget (messages h) (r_number (ops rt) x) i = None"
    using inv(3) x(1,3,4)
    by (auto simp: receivedAll_def Let_def list_all_iff same_session_def session_ok_def split: if_splits)
  moreover have "r_isBroadcast (ops rt) x \<Longrightarrow> qget (broadcast h) (r_number (ops rt) x) (SelfID (info ?hp)) \<noteq> None"
    using inv(2) bcast_number[OF x(2)] x(1) by (simp add: provided_def Let_def)
  ultimately show ?thesis using x(1,4) by (auto simp: missing_def Let_def session_ok_def)
qed

end

end
