(* ===== verification/Interpolation.thy ===== *)
theory Interpolation
  imports Prelude
begin

text \<open>
  Polynomial interpolation over an arbitrary field, by divided differences. The Lagrange
  coefficients of \<open>pkg/math/polynomial/lagrange.go\<close> are justified by \<open>interpolate_at_zero\<close>.
\<close>

definition peval :: "'a::comm_semiring_1 list \<Rightarrow> 'a \<Rightarrow> 'a" where
  "peval cs x = foldr (\<lambda>a r. r * x + a) cs 0"

lemma peval_Nil [simp]: "peval [] x = 0"
  by (simp add: peval_def)

lemma peval_Cons [simp]: "peval (c # cs) x = peval cs x * x + c"
  by (simp add: peval_def)

lemma peval_zero_head: "cs \<noteq> [] \<Longrightarrow> peval cs 0 = hd cs"
  by (cases cs) auto

lemma peval_at_zero: "peval cs 0 = (case cs of [] \<Rightarrow> 0 | c # _ \<Rightarrow> c)"
  by (cases cs) auto

lemma peval_map2_add:
  "length as = length bs \<Longrightarrow> peval (map2 (+) as bs) x = peval as x + peval bs x"
  by (induction as bs rule: list_induct2) (auto simp: algebra_simps)

lemma peval_map_minus: "peval (map uminus cs) x = - peval cs (x :: 'a::comm_ring_1)"
  by (induction cs) auto

lemma peval_sum: "peval cs x = (\<Sum>k<length cs. cs ! k * x ^ k)"
proof (induction cs)
  case Nil
  then show ?case by simp
next
  case (Cons c cs)
  have "(\<Sum>k<length (c # cs). (c # cs) ! k * x ^ k) = c + (\<Sum>k<length cs. cs ! k * x ^ Suc k)"
    by (simp add: sum.lessThan_Suc_shift del: sum.lessThan_Suc)
  also have "(\<Sum>k<length cs. cs ! k * x ^ Suc k) = (\<Sum>k<length cs. cs ! k * x ^ k) * x"
    by (simp add: sum_distrib_left mult_ac)
  finally show ?case using Cons by (simp add: add.commute)
qed

section \<open>Divided differences\<close>

definition node_weight :: "'a::field set \<Rightarrow> 'a \<Rightarrow> 'a" where
  "node_weight S j = (\<Prod>i\<in>S - {j}. j - i)"

definition divided :: "('a \<Rightarrow> 'a) \<Rightarrow> 'a::field set \<Rightarrow> 'a" where
  "divided p S = (\<Sum>j\<in>S. p j / node_weight S j)"

lemma divided_add: "divided (\<lambda>x. p x + q x) S = divided p S + divided q S"
  by (simp add: divided_def add_divide_distrib sum.distrib)

lemma divided_diff: "divided (\<lambda>x. p x - q x) S = divided p S - divided q S"
  by (simp add: divided_def diff_divide_distrib sum_subtractf)

lemma divided_scale: "divided (\<lambda>x. c * p x) S = c * divided p S"
  by (simp add: divided_def sum_distrib_left)

lemma divided_sum: "divided (\<lambda>x. \<Sum>k\<in>A. f k x) S = (\<Sum>k\<in>A. divided (f k) S)"
  unfolding divided_def
  by (simp add: sum_divide_distrib) (rule sum.swap)

lemma node_weight_insert:
  assumes "finite S" and "a \<notin> S" and "j \<in> S"
  shows "node_weight (insert a S) j = (j - a) * node_weight S j"
proof -
  have "insert a S - {j} = insert a (S - {j})" using assms by auto
  then show ?thesis using assms by (simp add: node_weight_def)
qed

text \<open>Multiplying by \<open>x - a\<close> removes the node \<open>a\<close>.\<close>

lemma divided_shift:
  assumes "finite S" and "a \<notin> S"
  shows "divided (\<lambda>x. (x - a) * p x) (insert a S) = divided p S"
proof -
  have "divided (\<lambda>x. (x - a) * p x) (insert a S)
      = (\<Sum>j\<in>S. (j - a) * p j / node_weight (insert a S) j)"
    using assms by (simp add: divided_def)
  also have "\<dots> = (\<Sum>j\<in>S. p j / node_weight S j)"
  proof (rule sum.cong[OF refl])
    fix j assume "j \<in> S"
    then have "j - a \<noteq> 0" using assms by auto
    then show "(j - a) * p j / node_weight (insert a S) j = p j / node_weight S j"
      using node_weight_insert[OF assms \<open>j \<in> S\<close>] by simp
  qed
  finally show ?thesis by (simp add: divided_def)
qed

lemma divided_one:
  assumes "finite S" and "2 \<le> card S"
  shows "divided (\<lambda>_. 1) S = 0"
  using assms
proof (induction "card S" arbitrary: S rule: less_induct)
  case less
  obtain a S' where S': "S = insert a S'" "a \<notin> S'"
    using less.prems by (metis card_eq_0_iff equals0I insert_absorb mk_disjoint_insert not_numeral_le_zero)
  have "S' \<noteq> {}" using less.prems S' by auto
  then obtain b T where T: "S' = insert b T" "b \<notin> T"
    by (metis ex_in_conv mk_disjoint_insert)
  have fin: "finite T" using less.prems S' T by simp
  have ab: "a \<noteq> b" "a \<notin> T" using S' T by auto
  have S2: "S = insert b (insert a T)" using S' T by auto
  have "divided (\<lambda>x. x - a) S = divided (\<lambda>_. 1) (insert b T)"
    using divided_shift[of "insert b T" a "\<lambda>_. 1"] fin ab T by (simp add: S'(1) T(1))
  moreover have "divided (\<lambda>x. x - b) S = divided (\<lambda>_. 1) (insert a T)"
    using divided_shift[of "insert a T" b "\<lambda>_. 1"] fin ab T by (simp add: S2)
  ultimately have eq: "(b - a) * divided (\<lambda>_. 1) S
      = divided (\<lambda>_. 1) (insert b T) - divided (\<lambda>_. 1) (insert a T)"
    using divided_diff[of "\<lambda>x. x - a" "\<lambda>x. x - b" S] divided_scale[of "b - a" "\<lambda>_. 1" S] by simp
  have "divided (\<lambda>_. 1) (insert b T) = divided (\<lambda>_. 1) (insert a T)"
  proof (cases "T = {}")
    case True
    then show ?thesis by (simp add: divided_def node_weight_def)
  next
    case False
    then have "0 < card T" using fin by (simp add: card_gt_0_iff)
    moreover have "card S = card T + 2" using S' T fin by simp
    ultimately show ?thesis
      using less.hyps[of "insert b T"] less.hyps[of "insert a T"] fin ab T by simp
  qed
  then show ?case using eq ab by simp
qed

lemma divided_power:
  assumes "finite S" and "k + 1 < card S"
  shows "divided (\<lambda>x. x ^ k) S = 0"
  using assms
proof (induction k arbitrary: S)
  case 0
  then show ?case using divided_one[of S] by simp
next
  case (Suc k)
  obtain a T where T: "S = insert a T" "a \<notin> T"
    using Suc.prems by (metis card.empty equals0I less_nat_zero_code mk_disjoint_insert)
  have fin: "finite T" and card: "card S = Suc (card T)" using Suc.prems T by auto
  have "divided (\<lambda>x. x ^ Suc k) S = divided (\<lambda>x. (x - a) * x ^ k + a * x ^ k) S"
    by (simp add: algebra_simps)
  also have "\<dots> = divided (\<lambda>x. x ^ k) T + a * divided (\<lambda>x. x ^ k) S"
    using divided_shift[OF fin T(2)] by (simp add: divided_add divided_scale T(1))
  also have "\<dots> = 0"
    using Suc.IH[of T] Suc.IH[of S] Suc.prems fin card by simp
  finally show ?case .
qed

lemma divided_peval:
  assumes "finite S" and "length cs < card S"
  shows "divided (peval cs) S = 0"
proof -
  have "divided (peval cs) S = (\<Sum>k<length cs. cs ! k * divided (\<lambda>x. x ^ k) S)"
    by (simp add: peval_sum[abs_def] divided_sum divided_scale)
  also have "\<dots> = 0"
    using assms by (intro sum.neutral) (auto simp: divided_power)
  finally show ?thesis .
qed

section \<open>Interpolation at zero\<close>

definition lagrange_basis :: "'a::field set \<Rightarrow> 'a \<Rightarrow> 'a" where
  "lagrange_basis S j = (\<Prod>i\<in>S - {j}. i / (i - j))"

lemma lagrange_basis_weight:
  assumes "finite S" and "0 \<notin> S" and "j \<in> S"
  shows "(\<Prod>i\<in>S. 0 - i) / ((j - 0) * node_weight S j) = - lagrange_basis S j"
proof -
  define Q where "Q = (\<Prod>i\<in>S - {j}. 0 - i)"
  have P: "(\<Prod>i\<in>S. 0 - i) = (0 - j) * Q"
    unfolding Q_def using assms by (intro prod.remove)
  have j: "j \<noteq> 0" using assms by auto
  have "(\<Prod>i\<in>S. 0 - i) / ((j - 0) * node_weight S j) = - (Q / node_weight S j)"
    unfolding P using j by simp
  also have "Q / node_weight S j = (\<Prod>i\<in>S - {j}. (0 - i) / (j - i))"
    by (simp only: Q_def node_weight_def prod_dividef)
  also have "\<dots> = lagrange_basis S j"
    unfolding lagrange_basis_def
  proof (rule prod.cong[OF refl])
    fix i
    have "(- i) / (- (i - j)) = i / (i - j)" by (rule minus_divide_divide)
    then show "(0 - i) / (j - i) = i / (i - j)" by (simp only: minus_diff_eq diff_0)
  qed
  finally show ?thesis .
qed

theorem interpolate_at_zero:
  assumes "finite S" and "0 \<notin> S" and "length cs \<le> card S"
  shows "(\<Sum>j\<in>S. peval cs j * lagrange_basis S j) = peval cs 0"
proof -
  let ?P = "\<Prod>i\<in>S. 0 - i"
  have P: "?P \<noteq> 0" using assms by (auto simp: prod_zero_iff)
  have w: "node_weight (insert 0 S) 0 = ?P"
    using assms by (simp add: node_weight_def)
  have "0 = divided (peval cs) (insert 0 S)"
    using assms by (simp add: divided_peval)
  also have "\<dots> = peval cs 0 / ?P + (\<Sum>j\<in>S. peval cs j / node_weight (insert 0 S) j)"
    using assms w by (simp add: divided_def)
  also have "(\<Sum>j\<in>S. peval cs j / node_weight (insert 0 S) j)
      = (\<Sum>j\<in>S. peval cs j / ((j - 0) * node_weight S j))"
    using assms by (intro sum.cong) (auto simp: node_weight_insert)
  finally have "0 = ?P * (peval cs 0 / ?P + (\<Sum>j\<in>S. peval cs j / ((j - 0) * node_weight S j)))"
    by simp
  also have "\<dots> = peval cs 0 + (\<Sum>j\<in>S. peval cs j * (?P / ((j - 0) * node_weight S j)))"
    using P by (simp add: distrib_left sum_distrib_left mult_ac)
  also have "(\<Sum>j\<in>S. peval cs j * (?P / ((j - 0) * node_weight S j)))
      = - (\<Sum>j\<in>S. peval cs j * lagrange_basis S j)"
    unfolding sum_negf[symmetric]
  proof (rule sum.cong[OF refl])
    fix j assume "j \<in> S"
    then show "peval cs j * (?P / ((j - 0) * node_weight S j)) = - (peval cs j * lagrange_basis S j)"
      using lagrange_basis_weight[OF assms(1,2), of j] by (metis mult_minus_right)
  qed
  finally show ?thesis by simp
qed

end
