(* ===== verification/Curve.thy ===== *)
theory Curve
  imports Party
begin

text \<open>
  The curve interface and its secp256k1 instance: \<open>pkg/math/curve/curve.go\<close> and
  \<open>pkg/math/curve/secp256k1.go\<close>.

  \<open>curve.Scalar\<close> is documented as a number modulo the group order forming a field, and
  \<open>curve.Point\<close> as an element of the group; a scalar is an element of a field \<open>'s\<close> and a point an
  element of an abelian group \<open>'p\<close>, so that \<open>Add\<close>, \<open>Sub\<close>, \<open>Negate\<close>, \<open>Mul\<close>, \<open>Invert\<close>, \<open>Equal\<close>,
  \<open>IsZero\<close> and \<open>IsIdentity\<close> are the operations of those types. The arithmetic itself is the package
  \<open>dcrd/dcrec/secp256k1\<close>, which is not part of the repository: the record \<open>curve\<close> holds what the
  wrappers call in it, and the locale \<open>curve_laws\<close> states what that package documents. Everything
  the repository adds on top (encodings, \<open>LiftX\<close>, \<open>FromHash\<close>, \dots) is defined here.
\<close>

record ('s, 'p) curve =
  Name :: string
  Order :: nat                                  \<comment> \<open>\<open>Curve.Order()\<close>\<close>
  FieldPrime :: nat                             \<comment> \<open>modulus of \<open>secp256k1.FieldVal\<close>\<close>
  Act :: "'s \<Rightarrow> 'p \<Rightarrow> 'p"                        \<comment> \<open>\<open>ScalarMultNonConst\<close>\<close>
  NewBasePoint :: 'p
  sNat :: "'s \<Rightarrow> nat"                          \<comment> \<open>\<open>ModNScalar.Bytes\<close>, read as a number\<close>
  pX :: "'p \<Rightarrow> nat"                            \<comment> \<open>affine x coordinate\<close>
  pYOdd :: "'p \<Rightarrow> bool"                        \<comment> \<open>affine y coordinate is odd\<close>
  DecompressY :: "nat \<Rightarrow> bool \<Rightarrow> 'p option"     \<comment> \<open>\<open>secp256k1.DecompressY\<close>\<close>

section \<open>Scalars\<close>

definition ActOnBase :: "('s, 'p) curve \<Rightarrow> 's \<Rightarrow> 'p" where
  "ActOnBase C s = Act C s (NewBasePoint C)"

text \<open>\<open>SetNat\<close> reduces modulo the order and loads the bytes.\<close>

definition SetNat :: "('s::field, 'p) curve \<Rightarrow> nat \<Rightarrow> 's" where
  "SetNat C x = of_nat (x mod Order C)"

definition Scalar_MarshalBinary :: "('s, 'p) curve \<Rightarrow> 's \<Rightarrow> bytes" where
  "Scalar_MarshalBinary C s = be_bytes 32 (sNat C s)"

text \<open>
  \<open>UnmarshalBinary\<close> mutates its receiver. On a wrong length the receiver \<open>s\<close> is untouched; on an
  overflow \<open>ModNScalar.SetBytes\<close> has already stored the reduced number when the error is returned.
\<close>

definition Scalar_UnmarshalBinary ::
    "('s::field, 'p) curve \<Rightarrow> 's \<Rightarrow> bytes \<Rightarrow> 's \<times> go_error option" where
  "Scalar_UnmarshalBinary C s data =
     (if length data \<noteq> 32 then (s, Some (Err (''invalid length for secp256k1 scalar: '' @ nat_text (length data))))
      else if be_nat data \<ge> Order C
        then (of_nat (be_nat data), Some (Err ''invalid bytes for secp256k1 scalar''))
      else (of_nat (be_nat data), None))"

definition Scalar_Sub :: "'s::field \<Rightarrow> 's \<Rightarrow> 's" where
  "Scalar_Sub s that = s + (- that)"

definition IsOverHalfOrder :: "('s, 'p) curve \<Rightarrow> 's \<Rightarrow> bool" where
  "IsOverHalfOrder C s \<longleftrightarrow> sNat C s > Order C div 2"

text \<open>\<open>MakeInt\<close> reads the marshalled bytes back as an integer.\<close>

definition MakeInt :: "('s, 'p) curve \<Rightarrow> 's \<Rightarrow> int" where
  "MakeInt C s = int (be_nat (Scalar_MarshalBinary C s))"

fun bitlen :: "nat \<Rightarrow> nat" where
  "bitlen n = (if n = 0 then 0 else Suc (bitlen (n div 2)))"

declare bitlen.simps [simp del]

text \<open>\<open>FromHash\<close>: truncate the hash to the byte length of the order, drop the excess bits.\<close>

definition FromHash :: "('s::field, 'p) curve \<Rightarrow> bytes \<Rightarrow> 's" where
  "FromHash C h =
     (let orderBits = bitlen (Order C);
          orderBytes = (orderBits + 7) div 8;
          h' = (if length h > orderBytes then take orderBytes h else h);
          s = be_nat h';
          excess = int (length h') * 8 - int orderBits;
          s' = (if excess > 0 then drop_bit (nat excess) s else s)
      in SetNat C s')"

section \<open>Points\<close>

definition Point_Sub :: "'p::ab_group_add \<Rightarrow> 'p \<Rightarrow> 'p" where
  "Point_Sub P that = P + (- that)"

definition HasEvenY :: "('s, 'p) curve \<Rightarrow> 'p \<Rightarrow> bool" where
  "HasEvenY C P \<longleftrightarrow> \<not> pYOdd C P"

definition XBytes :: "('s, 'p) curve \<Rightarrow> 'p \<Rightarrow> bytes" where
  "XBytes C P = be_bytes 32 (pX C P)"

text \<open>\<open>XScalar\<close> loads the x coordinate with \<open>ModNScalar.SetBytes\<close>, which reduces it.\<close>

definition XScalar :: "('s::field, 'p) curve \<Rightarrow> 'p \<Rightarrow> 's" where
  "XScalar C P = of_nat (be_nat (XBytes C P))"

definition Point_MarshalBinary :: "('s, 'p) curve \<Rightarrow> 'p \<Rightarrow> bytes" where
  "Point_MarshalBinary C P = (of_bool (pYOdd C P) + 2) # XBytes C P"

text \<open>\<open>FieldVal.SetByteSlice\<close> uses the first 32 bytes and reports whether the number overflows. The callers
  drop the receiver after an error, so its value then is not returned.\<close>

definition Point_UnmarshalBinary :: "('s, 'p) curve \<Rightarrow> bytes \<Rightarrow> go_error + 'p" where
  "Point_UnmarshalBinary C data =
     (if length data \<noteq> 33 then Inl (Err (''invalid length for secp256k1Point: '' @ nat_text (length data)))
      else let x = be_nat (take 32 (tl data))
           in if x \<ge> FieldPrime C
                then Inl (Err ''secp256k1Point.UnmarshalBinary: x coordinate out of range'')
              else case DecompressY C x (hd data = 3) of
                None \<Rightarrow> Inl (Err ''secp256k1Point.UnmarshalBinary: x coordinate not on curve'')
              | Some P \<Rightarrow> Inr P)"

definition LiftX :: "('s, 'p) curve \<Rightarrow> bytes \<Rightarrow> go_error + 'p" where
  "LiftX C data =
     (let x = be_nat (take 32 data)
      in if x \<ge> FieldPrime C
           then Inl (Err ''secp256k1Point.UnmarshalBinary: x coordinate out of range'')
         else case DecompressY C x False of
           None \<Rightarrow> Inl (Err ''secp256k1Point.UnmarshalBinary: x coordinate not on curve'')
         | Some P \<Rightarrow> Inr P)"

section \<open>What the curve package documents\<close>

text \<open>
  The laws of the interface: scalars act linearly on the group, the base point is not the identity,
  numbers are read modulo the order, negation flips the parity of y and keeps x, and a point is
  recovered from x and the parity.
\<close>

locale curve_laws =
  fixes C :: "('s::field, 'p::ab_group_add) curve"
  assumes act_point_add: "Act C s (P + Q) = Act C s P + Act C s Q"
    and act_scalar_add: "Act C (s + t) P = Act C s P + Act C t P"
    and act_act: "Act C s (Act C t P) = Act C (s * t) P"
    and act_one: "Act C 1 P = P"
    and base_not_identity: "NewBasePoint C \<noteq> 0"
    and order_bounds: "1 < Order C" "Order C < 2 ^ 256"
    and field_bound: "FieldPrime C < 2 ^ 256"
    and sNat_of_nat: "sNat C (of_nat n) = n mod Order C"
    and of_nat_sNat: "of_nat (sNat C s) = s"
    and pX_bound: "P \<noteq> 0 \<Longrightarrow> pX C P < FieldPrime C"
    and pX_neg: "pX C (- P) = pX C P"
    and pYOdd_neg: "P \<noteq> 0 \<Longrightarrow> pYOdd C (- P) \<longleftrightarrow> \<not> pYOdd C P"
    and decompress: "P \<noteq> 0 \<Longrightarrow> DecompressY C (pX C P) b = Some (if pYOdd C P = b then P else - P)"
    and decompress_sound: "DecompressY C x b = Some P \<Longrightarrow> P \<noteq> 0 \<and> pX C P = x \<and> pYOdd C P = b"
begin

lemma act_zero_left [simp]: "Act C 0 P = 0"
  using act_scalar_add[of 0 0 P] by simp

lemma act_zero_right [simp]: "Act C s 0 = 0"
  using act_point_add[of s 0 0] by simp

lemma act_minus_left: "Act C (- s) P = - Act C s P"
  using act_scalar_add[of s "- s" P] by (simp add: eq_neg_iff_add_eq_0 add.commute)

lemma act_minus_right: "Act C s (- P) = - Act C s P"
  using act_point_add[of s P "- P"] by (simp add: eq_neg_iff_add_eq_0 add.commute)

lemma act_scalar_diff: "Act C (s - t) P = Act C s P - Act C t P"
  using act_scalar_add[of s "- t" P] by (simp add: act_minus_left)

lemma act_eq_zero_iff [simp]: "Act C s P = 0 \<longleftrightarrow> s = 0 \<or> P = 0"
proof
  assume z: "Act C s P = 0"
  show "s = 0 \<or> P = 0"
  proof (rule ccontr)
    assume n: "\<not> (s = 0 \<or> P = 0)"
    have "P = Act C (inverse s) (Act C s P)"
      using n by (simp add: act_act act_one)
    then show False using z n by simp
  qed
qed auto

lemma act_cancel: "Act C s P = Act C t P \<Longrightarrow> P \<noteq> 0 \<Longrightarrow> s = t"
  using act_scalar_diff[of s t P] by simp

lemma act_sum_left: "Act C (\<Sum>i\<in>A. f i) P = (\<Sum>i\<in>A. Act C (f i) P)"
  by (induction A rule: infinite_finite_induct) (auto simp: act_scalar_add)

lemma act_sum_right: "Act C s (\<Sum>i\<in>A. f i) = (\<Sum>i\<in>A. Act C s (f i))"
  by (induction A rule: infinite_finite_induct) (auto simp: act_point_add)

lemma act_sum_list_left: "Act C (\<Sum>i\<leftarrow>xs. f i) P = (\<Sum>i\<leftarrow>xs. Act C (f i) P)"
  by (induction xs) (auto simp: act_scalar_add)

lemma act_sum_list_right: "Act C s (\<Sum>i\<leftarrow>xs. f i) = (\<Sum>i\<leftarrow>xs. Act C s (f i))"
  by (induction xs) (auto simp: act_point_add)

lemma act_base_inject [simp]: "ActOnBase C s = ActOnBase C t \<longleftrightarrow> s = t"
  using act_cancel[of s "NewBasePoint C" t] base_not_identity by (auto simp: ActOnBase_def)

lemma act_base_zero [simp]: "ActOnBase C s = 0 \<longleftrightarrow> s = 0"
  using base_not_identity by (simp add: ActOnBase_def)

lemma act_base_add: "ActOnBase C (s + t) = ActOnBase C s + ActOnBase C t"
  by (simp add: ActOnBase_def act_scalar_add)

lemma act_base_minus: "ActOnBase C (- s) = - ActOnBase C s"
  by (simp add: ActOnBase_def act_minus_left)

lemma act_base_mult: "ActOnBase C (s * t) = Act C s (ActOnBase C t)"
  by (simp add: ActOnBase_def act_act)

lemma act_base_sum: "ActOnBase C (\<Sum>i\<in>A. f i) = (\<Sum>i\<in>A. ActOnBase C (f i))"
  by (simp add: ActOnBase_def act_sum_left)

lemma act_base_sum_list: "ActOnBase C (\<Sum>i\<leftarrow>xs. f i) = (\<Sum>i\<leftarrow>xs. ActOnBase C (f i))"
  by (simp add: ActOnBase_def act_sum_list_left)

lemma sNat_less: "sNat C s < Order C"
  by (metis of_nat_sNat sNat_of_nat order_bounds(1) mod_less_divisor less_trans zero_less_one)

lemma of_nat_mod_order [simp]: "(of_nat (n mod Order C) :: 's) = of_nat n"
  by (metis of_nat_sNat sNat_of_nat)

lemma of_nat_eq_iff_mod: "(of_nat m :: 's) = of_nat n \<longleftrightarrow> m mod Order C = n mod Order C"
  by (metis of_nat_mod_order sNat_of_nat)

lemma SetNat_of_nat: "SetNat C n = of_nat n"
  by (simp add: SetNat_def)

lemma sNat_zero [simp]: "sNat C 0 = 0"
  using sNat_of_nat[of 0] by simp

lemma sNat_zero_iff: "sNat C s = 0 \<longleftrightarrow> s = 0"
  using of_nat_sNat[of s] by auto

lemma sNat_minus: "s \<noteq> 0 \<Longrightarrow> sNat C (- s) = Order C - sNat C s"
proof -
  assume s: "s \<noteq> 0"
  have le: "sNat C s < Order C" by (rule sNat_less)
  have "(of_nat (Order C - sNat C s) :: 's) = of_nat (Order C) - of_nat (sNat C s)"
    using le by simp
  also have "(of_nat (Order C) :: 's) = 0"
    using of_nat_mod_order[of "Order C"] by simp
  finally have "- s = of_nat (Order C - sNat C s)"
    by (simp add: of_nat_sNat)
  then have "sNat C (- s) = (Order C - sNat C s) mod Order C"
    by (simp only: sNat_of_nat)
  moreover have "Order C - sNat C s < Order C"
    using le s sNat_zero_iff[of s] by simp
  ultimately show ?thesis by simp
qed

lemma pX_32: "P \<noteq> 0 \<Longrightarrow> pX C P < 256 ^ 32"
  using pX_bound[of P] field_bound by simp

lemma be_nat_XBytes: "P \<noteq> 0 \<Longrightarrow> be_nat (XBytes C P) = pX C P"
  using pX_32[of P] by (simp add: XBytes_def be_nat_be_bytes)

lemma XBytes_neg: "XBytes C (- P) = XBytes C P"
  by (simp add: XBytes_def pX_neg)

lemma XBytes_eqD:
  assumes "P \<noteq> 0" and "Q \<noteq> 0" and "XBytes C P = XBytes C Q"
  shows "Q = P \<or> Q = - P"
proof -
  have x: "pX C P = pX C Q"
    using assms by (metis be_nat_XBytes)
  have "Some (if pYOdd C P = pYOdd C Q then P else - P) = Some Q"
    using decompress[OF assms(1), of "pYOdd C Q"] decompress[OF assms(2), of "pYOdd C Q"]
    by (simp add: x)
  then show ?thesis by (simp split: if_splits)
qed

lemma scalar_marshal_roundtrip:
  "Scalar_UnmarshalBinary C s0 (Scalar_MarshalBinary C s) = (s, None)"
proof -
  have lt: "sNat C s < 2 ^ 256"
    using sNat_less[of s] order_bounds(2) by simp
  then have "be_nat (be_bytes 32 (sNat C s)) = sNat C s"
    by (simp add: be_nat_be_bytes)
  then show ?thesis
    using sNat_less[of s] by (simp add: Scalar_UnmarshalBinary_def Scalar_MarshalBinary_def of_nat_sNat)
qed

lemma scalar_unmarshal_strict:
  "Scalar_UnmarshalBinary C s0 data = (s, None) \<Longrightarrow> Scalar_MarshalBinary C s = data"
  using be_bytes_be_nat[of data]
  by (auto simp: Scalar_UnmarshalBinary_def Scalar_MarshalBinary_def sNat_of_nat split: if_splits)

lemma scalar_unmarshal_reduces:
  "length data = 32 \<Longrightarrow> fst (Scalar_UnmarshalBinary C s0 data) = of_nat (be_nat data)"
  by (simp add: Scalar_UnmarshalBinary_def)

lemma point_marshal_roundtrip:
  assumes "P \<noteq> 0"
  shows "Point_UnmarshalBinary C (Point_MarshalBinary C P) = Inr P"
proof -
  have "be_nat (XBytes C P) = pX C P" by (rule be_nat_XBytes[OF assms])
  moreover have "pX C P < FieldPrime C" by (rule pX_bound[OF assms])
  moreover have "((of_bool (pYOdd C P) + 2 :: byte) = 3) = pYOdd C P"
    by simp
  ultimately show ?thesis
    using decompress[OF assms]
    by (simp add: Point_UnmarshalBinary_def Point_MarshalBinary_def XBytes_def Let_def)
qed

lemma liftX_even:
  assumes "P \<noteq> 0"
  shows "LiftX C (XBytes C P) = Inr (if HasEvenY C P then P else - P)"
proof -
  have "be_nat (XBytes C P) = pX C P" by (rule be_nat_XBytes[OF assms])
  moreover have "pX C P < FieldPrime C" by (rule pX_bound[OF assms])
  ultimately show ?thesis
    using decompress[OF assms, of False] by (simp add: LiftX_def XBytes_def Let_def HasEvenY_def)
qed

lemma liftX_sound:
  assumes "LiftX C data = Inr P" and "length data = 32"
  shows "P \<noteq> 0 \<and> HasEvenY C P \<and> XBytes C P = data"
proof -
  have d: "DecompressY C (be_nat data) False = Some P"
    using assms by (auto simp: LiftX_def Let_def split: if_splits option.splits)
  have "be_bytes 32 (be_nat data) = data"
    using be_bytes_be_nat[of data] assms(2) by simp
  then show ?thesis
    using decompress_sound[OF d] by (simp add: HasEvenY_def XBytes_def)
qed

end

end
