(* ===== verification/CurveInstance.thy ===== *)
theory CurveInstance
  imports Curve
begin

text \<open>
  A concrete curve for the executable examples: the prime field with 13 elements, acting on itself. Its
  points are the residues, a point and its negative share the x coordinate, and the larger of the two
  has odd y. It shows that the laws of \<open>curve_laws\<close> can hold together, and makes the definitions that
  take a curve computable.
\<close>

section \<open>The prime field with 13 elements\<close>

typedef gf13 = "{0..<13 :: int}"
  morphisms rep13 abs13
  by (rule exI[of _ 0]) simp

setup_lifting type_definition_gf13

instantiation gf13 :: "{comm_ring_1, equal}"
begin

lift_definition zero_gf13 :: gf13 is 0 by simp
lift_definition one_gf13 :: gf13 is 1 by simp
lift_definition plus_gf13 :: "gf13 \<Rightarrow> gf13 \<Rightarrow> gf13" is "\<lambda>x y. (x + y) mod 13" by simp
lift_definition minus_gf13 :: "gf13 \<Rightarrow> gf13 \<Rightarrow> gf13" is "\<lambda>x y. (x - y) mod 13" by simp
lift_definition uminus_gf13 :: "gf13 \<Rightarrow> gf13" is "\<lambda>x. (- x) mod 13" by simp
lift_definition times_gf13 :: "gf13 \<Rightarrow> gf13 \<Rightarrow> gf13" is "\<lambda>x y. (x * y) mod 13" by simp
lift_definition equal_gf13 :: "gf13 \<Rightarrow> gf13 \<Rightarrow> bool" is "\<lambda>x y. x = y" .

instance
  by standard (transfer; simp add: algebra_simps mod_simps)+

end

lemma residues13:
  assumes "x \<in> {0..<13 :: int}"
  shows "x = 0 \<or> x = 1 \<or> x = 2 \<or> x = 3 \<or> x = 4 \<or> x = 5 \<or> x = 6 \<or> x = 7 \<or> x = 8 \<or> x = 9 \<or> x = 10 \<or> x = 11 \<or> x = 12"
proof -
  have "0 \<le> x" "x < 13" using assms by simp_all
  then show ?thesis by presburger
qed

instantiation gf13 :: field
begin

lift_definition inverse_gf13 :: "gf13 \<Rightarrow> gf13" is "\<lambda>x. x ^ 11 mod 13" by simp

definition divide_gf13 :: "gf13 \<Rightarrow> gf13 \<Rightarrow> gf13" where
  "divide_gf13 x y = x * inverse y"

instance
proof
  fix x :: gf13
  assume "x \<noteq> 0"
  then show "inverse x * x = 1"
    by transfer (drule residues13, elim disjE; simp)
next
  show "inverse (0 :: gf13) = 0" by transfer simp
qed (simp add: divide_gf13_def)

end

lemma rep13_of_nat: "rep13 (of_nat n) = int n mod 13"
  by (induction n) (simp_all add: zero_gf13.rep_eq plus_gf13.rep_eq one_gf13.rep_eq mod_simps add.commute)

section \<open>The curve\<close>

lift_definition half13 :: "gf13 \<Rightarrow> nat" is "\<lambda>x. nat (min x (13 - x))" .

lift_definition odd13 :: "gf13 \<Rightarrow> bool" is "\<lambda>x. x > 6" .

definition curve13 :: "(gf13, gf13) curve" where
  "curve13 = \<lparr>Name = ''gf13'', Order = 13, FieldPrime = 7, Act = (*), NewBasePoint = 1,
     sNat = (\<lambda>s. nat (rep13 s)), pX = half13, pYOdd = odd13,
     DecompressY = (\<lambda>x b. if 0 < x \<and> x < 7 then Some (if b then - of_nat x else of_nat x) else None)\<rparr>"

lemma rep13_bounds: "0 \<le> rep13 x" "rep13 x < 13"
  using rep13[of x] by simp_all

lemma rep13_uminus: "rep13 (- x) = (if x = 0 then 0 else 13 - rep13 x)"
proof (cases "x = 0")
  case False
  then have "rep13 x \<noteq> 0" by transfer simp
  then have "(- rep13 x) mod 13 = 13 - rep13 x"
    using rep13_bounds[of x] by (simp add: zmod_zminus1_eq_if)
  then show ?thesis using False by (simp add: uminus_gf13.rep_eq)
qed (simp add: zero_gf13.rep_eq uminus_gf13.rep_eq)

lemma half13_bound: "P \<noteq> 0 \<Longrightarrow> 0 < half13 P \<and> half13 P < 7"
  by transfer auto

lemma half13_neg: "half13 (- P) = half13 P"
  by transfer (drule residues13, elim disjE; simp)

lemma odd13_neg: "P \<noteq> 0 \<Longrightarrow> odd13 (- P) \<longleftrightarrow> \<not> odd13 P"
  by transfer (drule residues13, elim disjE; simp)

lemma of_nat_half13: "of_nat (half13 P) = (if odd13 P then - P else P)"
proof -
  have "rep13 (of_nat (half13 P)) = rep13 (if odd13 P then - P else P)"
    unfolding rep13_of_nat by transfer (drule residues13, elim disjE; simp)
  then show ?thesis by (simp only: rep13_inject)
qed

lemma small_of_nat:
  assumes "0 < x" and "x < (7 :: nat)"
  shows "(of_nat x :: gf13) \<noteq> 0" "half13 (of_nat x) = x" "\<not> odd13 (of_nat x)"
proof -
  have r: "rep13 (of_nat x) = int x" using assms by (simp add: rep13_of_nat)
  show "(of_nat x :: gf13) \<noteq> 0" using r assms by (metis of_nat_0_eq_iff less_irrefl zero_gf13.rep_eq)
  show "half13 (of_nat x) = x" "\<not> odd13 (of_nat x)"
    using r assms by (simp_all add: half13.rep_eq odd13.rep_eq)
qed

interpretation c13: curve_laws curve13
proof
  show "sNat curve13 (of_nat n) = n mod Order curve13" for n
    by (simp add: curve13_def rep13_of_nat nat_mod_distrib)
  show "of_nat (sNat curve13 s) = s" for s
  proof -
    have "rep13 (of_nat (nat (rep13 s))) = rep13 s"
      using rep13_bounds[of s] by (simp only: rep13_of_nat) simp
    then show ?thesis by (simp add: curve13_def rep13_inject)
  qed
  show "P \<noteq> 0 \<Longrightarrow> DecompressY curve13 (pX curve13 P) b = Some (if pYOdd curve13 P = b then P else - P)" for P b
    using half13_bound[of P] by (simp add: curve13_def of_nat_half13)
  show "P \<noteq> 0 \<and> pX curve13 P = x \<and> pYOdd curve13 P = b" if "DecompressY curve13 x b = Some P" for P x b
  proof -
    have x: "0 < x" "x < 7" and P: "P = (if b then - of_nat x else of_nat x)"
      using that by (auto simp: curve13_def split: if_splits)
    show ?thesis
      using small_of_nat[OF x] half13_neg[of "of_nat x"] odd13_neg[of "of_nat x"]
      by (simp add: P curve13_def)
  qed
qed (simp_all add: curve13_def algebra_simps half13_bound half13_neg odd13_neg)

lemma curve13_laws: "curve_laws curve13"
  by (rule c13.curve_laws_axioms)

section \<open>Executability\<close>

lemma curve13_simps [simp]:
  "Name curve13 = ''gf13''" "Order curve13 = 13" "FieldPrime curve13 = 7" "Act curve13 = (*)"
  "NewBasePoint curve13 = 1"
  by (simp_all add: curve13_def)

section \<open>Properties of the encodings\<close>

text \<open>C28: Scalars survive marshalling, and unmarshalling without an error accepts only the canonical
  encoding: 32 bytes that marshal back to themselves.\<close>

theorem scalar_encoding_canonical:
  assumes "curve_laws C"
  shows "Scalar_UnmarshalBinary C s0 (Scalar_MarshalBinary C s) = (s, None) \<and>
    (Scalar_UnmarshalBinary C s0 data = (s, None) \<longrightarrow> data = Scalar_MarshalBinary C s)"
  using curve_laws.scalar_marshal_roundtrip[OF assms] curve_laws.scalar_unmarshal_strict[OF assms] by blast

theorem scalar_encoding_canonical_witness:
  "Scalar_UnmarshalBinary curve13 0 (Scalar_MarshalBinary curve13 5) = (5, None)"
  using scalar_encoding_canonical[OF curve13_laws, of 0 5] by blast

text \<open>C29: A point other than the identity survives marshalling to its compressed form.\<close>

theorem point_encoding_roundtrip:
  assumes "curve_laws C" and "P \<noteq> 0"
  shows "Point_UnmarshalBinary C (Point_MarshalBinary C P) = Inr P"
  by (rule curve_laws.point_marshal_roundtrip[OF assms])

theorem point_encoding_roundtrip_witness:
  "Point_UnmarshalBinary curve13 (Point_MarshalBinary curve13 1) = Inr 1"
  by (rule point_encoding_roundtrip[OF curve13_laws]) simp

text \<open>C30: \<open>LiftX\<close> returns a point with even y and the given x coordinate, and applied to the x
  coordinate of a point it returns that point or its negative, whichever is even.\<close>

theorem liftX_even_point:
  assumes "curve_laws C" and "length data = 32" and "P \<noteq> 0"
  shows "(LiftX C data = Inr Q \<longrightarrow> Q \<noteq> 0 \<and> HasEvenY C Q \<and> XBytes C Q = data) \<and>
    LiftX C (XBytes C P) = Inr (if HasEvenY C P then P else - P)"
  using curve_laws.liftX_sound[OF assms(1)] curve_laws.liftX_even[OF assms(1,3)] assms(2) by blast

theorem liftX_even_point_witness:
  "LiftX curve13 (XBytes curve13 1) = Inr (if HasEvenY curve13 1 then 1 else - 1)"
  using liftX_even_point[OF curve13_laws, of "replicate 32 0" 1] by simp

end
