(* ===== verification/Polynomial.thy ===== *)
theory Polynomial
  imports Interpolation CurveInstance
begin

text \<open>
  Secret-sharing polynomials, their images in the exponent and Lagrange coefficients:
  \<open>pkg/math/polynomial/polynomial.go\<close>, \<open>exponent.go\<close> and \<open>lagrange.go\<close>.
\<close>

section \<open>Polynomials\<close>

type_synonym 's Polynomial = "'s list"

text \<open>\<open>NewPolynomial\<close>: the constant (0 when nil) and the coefficients sampled for \<open>1 \<dots> degree\<close>;
  \<open>smp i\<close> is the \<open>i\<close>-th sample read from \<open>rand.Reader\<close>.\<close>

definition NewPolynomial :: "nat \<Rightarrow> 's::field option \<Rightarrow> (nat \<Rightarrow> 's) \<Rightarrow> 's Polynomial" where
  "NewPolynomial degree constant smp =
     (case constant of None \<Rightarrow> 0 | Some c \<Rightarrow> c) # map smp [1..<Suc degree]"

text \<open>Horner's rule from the last coefficient down to the first; evaluating at 0 panics.\<close>

fun Evaluate_loop :: "'s::field Polynomial \<Rightarrow> 's \<Rightarrow> nat \<Rightarrow> 's \<Rightarrow> 's" where
  "Evaluate_loop cs index 0 result = result"
| "Evaluate_loop cs index (Suc i) result = Evaluate_loop cs index i (result * index + cs ! i)"

definition Polynomial_Evaluate :: "'s::field Polynomial \<Rightarrow> 's \<Rightarrow> 's outcome" where
  "Polynomial_Evaluate cs index =
     (if index = 0 then Panic else Ret (Evaluate_loop cs index (length cs) 0))"

definition Polynomial_Constant :: "'s Polynomial \<Rightarrow> 's outcome" where
  "Polynomial_Constant cs = (case cs of [] \<Rightarrow> Panic | c # _ \<Rightarrow> Ret c)"

definition Polynomial_Degree :: "'s Polynomial \<Rightarrow> 32 word" where
  "Polynomial_Degree cs = of_nat (length cs) - 1"

section \<open>Polynomials in the exponent\<close>

record 'p Exponent =
  IsConstant :: bool
  coefficients :: "'p list"

definition NewPolynomialExponent :: "('s::field, 'p) curve \<Rightarrow> 's Polynomial \<Rightarrow> 'p Exponent outcome" where
  "NewPolynomialExponent C cs = (case cs of
       [] \<Rightarrow> Panic
     | c # cs' \<Rightarrow> Ret \<lparr>IsConstant = (c = 0),
         coefficients = (if c = 0 then map (ActOnBase C) cs' else map (ActOnBase C) (c # cs'))\<rparr>)"

fun Exponent_loop :: "('s, 'p::ab_group_add) curve \<Rightarrow> 'p list \<Rightarrow> 's \<Rightarrow> nat \<Rightarrow> 'p \<Rightarrow> 'p" where
  "Exponent_loop C As x 0 result = result"
| "Exponent_loop C As x (Suc i) result = Exponent_loop C As x i (Act C x result + As ! i)"

definition Exponent_Evaluate :: "('s, 'p::ab_group_add) curve \<Rightarrow> 'p Exponent \<Rightarrow> 's \<Rightarrow> 'p" where
  "Exponent_Evaluate C p x =
     (let result = Exponent_loop C (coefficients p) x (length (coefficients p)) 0
      in if IsConstant p then Act C x result else result)"

text \<open>\<open>evaluateClassic\<close>: the same value with all powers of \<open>x\<close> computed from the low end.\<close>

fun classic_loop :: "('s::field, 'p::ab_group_add) curve \<Rightarrow> 's \<Rightarrow> 'p list \<Rightarrow> 's \<Rightarrow> 'p \<Rightarrow> 'p" where
  "classic_loop C x [] xPower result = result"
| "classic_loop C x (A # As) xPower result =
     classic_loop C x As (xPower * x) (result + Act C xPower A)"

definition evaluateClassic :: "('s::field, 'p::ab_group_add) curve \<Rightarrow> 'p Exponent \<Rightarrow> 's \<Rightarrow> 'p" where
  "evaluateClassic C p x = classic_loop C x (coefficients p) (if IsConstant p then 1 * x else 1) 0"

definition Exponent_Degree :: "'p Exponent \<Rightarrow> int" where
  "Exponent_Degree p = (if IsConstant p then int (length (coefficients p))
     else int (length (coefficients p)) - 1)"

definition Exponent_add :: "'p::ab_group_add Exponent \<Rightarrow> 'p Exponent \<Rightarrow> go_error + 'p Exponent" where
  "Exponent_add p q =
     (if length (coefficients p) \<noteq> length (coefficients q) then Inl (Err ''q is not the same length as p'')
      else if IsConstant p \<noteq> IsConstant q then Inl (Err (''p and q differ in '' @ [CHR 0x27] @ ''IsConstant'' @ [CHR 0x27]))
      else Inr (p\<lparr>coefficients := map2 (+) (coefficients p) (coefficients q)\<rparr>))"

fun Exponent_add_all :: "'p::ab_group_add Exponent \<Rightarrow> 'p Exponent list \<Rightarrow> go_error + 'p Exponent" where
  "Exponent_add_all summed [] = Inr summed"
| "Exponent_add_all summed (q # qs) = (case Exponent_add summed q of
     Inl e \<Rightarrow> Inl e | Inr s \<Rightarrow> Exponent_add_all s qs)"

text \<open>\<open>Sum\<close> indexes the first polynomial: an empty slice panics.\<close>

definition Exponent_Sum :: "'p::ab_group_add Exponent list \<Rightarrow> (go_error + 'p Exponent) outcome" where
  "Exponent_Sum ps = (case ps of [] \<Rightarrow> Panic | p # qs \<Rightarrow> Ret (Exponent_add_all p qs))"

definition Exponent_Equal :: "'p Exponent \<Rightarrow> 'p Exponent \<Rightarrow> bool" where
  "Exponent_Equal p other =
     (if IsConstant p \<noteq> IsConstant other then False
      else if length (coefficients p) \<noteq> length (coefficients other) then False
      else list_all2 (=) (coefficients p) (coefficients other))"

definition Exponent_Constant :: "'p::ab_group_add Exponent \<Rightarrow> 'p outcome" where
  "Exponent_Constant p = (if IsConstant p then Ret 0
     else case coefficients p of [] \<Rightarrow> Panic | A # _ \<Rightarrow> Ret A)"

section \<open>Lagrange coefficients\<close>

definition getScalarsAndNumerator :: "ID list \<Rightarrow> (ID, 's::field) gomap \<times> 's" where
  "getScalarsAndNumerator interpolationDomain =
     foldl (\<lambda>(scalars, numerator) i. (mput i (ID_Scalar i) scalars, numerator * ID_Scalar i))
       ([], 1) interpolationDomain"

text \<open>\<open>lagrange\<close>: numerator over the product of the \<open>xI - xJ\<close> and of \<open>xJ\<close>. A party outside a
  non-empty domain has no scalar and the first \<open>tmp.Set(nil)\<close> panics.\<close>

definition lagrange :: "(ID, 's::field) gomap \<Rightarrow> 's \<Rightarrow> ID \<Rightarrow> 's outcome" where
  "lagrange interpolationDomain numerator j = (case mget interpolationDomain j of
       None \<Rightarrow> if interpolationDomain = [] then Ret (inverse 1 * numerator) else Panic
     | Some xJ \<Rightarrow>
         let denominator = foldl (\<lambda>d (i, xI). if i = j then d * xJ else d * (- xJ + xI)) 1 interpolationDomain
         in Ret (inverse denominator * numerator))"

fun LagrangeFor_loop :: "(ID, 's::field) gomap \<Rightarrow> 's \<Rightarrow> ID list \<Rightarrow> (ID, 's) gomap \<Rightarrow> (ID, 's) gomap outcome" where
  "LagrangeFor_loop scalars numerator [] cs = Ret cs"
| "LagrangeFor_loop scalars numerator (j # js) cs =
     obind (lagrange scalars numerator j) (\<lambda>l. LagrangeFor_loop scalars numerator js (mput j l cs))"

definition LagrangeFor :: "ID list \<Rightarrow> ID list \<Rightarrow> (ID, 's::field) gomap outcome" where
  "LagrangeFor interpolationDomain sub =
     (let (scalars, numerator) = getScalarsAndNumerator interpolationDomain
      in LagrangeFor_loop scalars numerator sub [])"

definition Lagrange :: "ID list \<Rightarrow> (ID, 's::field) gomap outcome" where
  "Lagrange interpolationDomain = LagrangeFor interpolationDomain interpolationDomain"

definition LagrangeSingle :: "ID list \<Rightarrow> ID \<Rightarrow> 's::field option outcome" where
  "LagrangeSingle interpolationDomain j =
     obind (LagrangeFor interpolationDomain [j]) (\<lambda>m. Ret (mget m j))"

section \<open>Horner's rule\<close>

lemma Evaluate_loop_peval:
  "n \<le> length cs \<Longrightarrow> Evaluate_loop cs x n r = foldr (\<lambda>a r. r * x + a) (take n cs) r"
  by (induction n arbitrary: r) (auto simp: take_Suc_conv_app_nth)

lemma Polynomial_Evaluate_peval: "x \<noteq> 0 \<Longrightarrow> Polynomial_Evaluate cs x = Ret (peval cs x)"
  by (simp add: Polynomial_Evaluate_def Evaluate_loop_peval peval_def)

lemma length_NewPolynomial [simp]: "length (NewPolynomial d c smp) = Suc d"
  by (simp add: NewPolynomial_def)

lemma peval_NewPolynomial_zero: "peval (NewPolynomial d (Some c) smp) 0 = c"
  by (simp add: NewPolynomial_def)

definition exp_eval :: "('s, 'p::ab_group_add) curve \<Rightarrow> 'p list \<Rightarrow> 's \<Rightarrow> 'p" where
  "exp_eval C As x = foldr (\<lambda>A r. Act C x r + A) As 0"

lemma exp_eval_simps [simp]:
  "exp_eval C [] x = 0" "exp_eval C (A # As) x = Act C x (exp_eval C As x) + A"
  by (simp_all add: exp_eval_def)

lemma Exponent_loop_foldr:
  "n \<le> length As \<Longrightarrow> Exponent_loop C As x n r = foldr (\<lambda>A r. Act C x r + A) (take n As) r"
  by (induction n arbitrary: r) (auto simp: take_Suc_conv_app_nth)

text \<open>The coefficients with the elided identity put back.\<close>

definition full_coeffs :: "'p::ab_group_add Exponent \<Rightarrow> 'p list" where
  "full_coeffs p = (if IsConstant p then 0 # coefficients p else coefficients p)"

lemma Exponent_Evaluate_full: "Exponent_Evaluate C p x = exp_eval C (full_coeffs p) x"
  by (simp add: Exponent_Evaluate_def Exponent_loop_foldr full_coeffs_def exp_eval_def Let_def)

lemma Exponent_Degree_full: "Exponent_Degree p = int (length (full_coeffs p)) - 1"
  by (simp add: Exponent_Degree_def full_coeffs_def)

lemma full_coeffs_eq: "full_coeffs p = full_coeffs q \<Longrightarrow> IsConstant p = IsConstant q \<Longrightarrow> p = q"
  by (cases p; cases q) (auto simp: full_coeffs_def split: if_splits)

lemma Exponent_Constant_full:
  "full_coeffs p \<noteq> [] \<Longrightarrow> Exponent_Constant p = Ret (hd (full_coeffs p))"
  by (auto simp: Exponent_Constant_def full_coeffs_def split: list.splits if_splits)

lemma Exponent_add_full:
  assumes "Exponent_add p q = Inr r"
  shows "full_coeffs r = map2 (+) (full_coeffs p) (full_coeffs q)"
    and "length (full_coeffs q) = length (full_coeffs p)"
    and "IsConstant r = IsConstant p"
  using assms by (auto simp: Exponent_add_def full_coeffs_def split: if_splits)

context curve_laws
begin

lemma exp_eval_base: "exp_eval C (map (ActOnBase C) cs) x = ActOnBase C (peval cs x)"
  by (induction cs) (auto simp: ActOnBase_def act_scalar_add act_act mult.commute)

lemma exp_eval_map2_add:
  "length As = length Bs \<Longrightarrow> exp_eval C (map2 (+) As Bs) x = exp_eval C As x + exp_eval C Bs x"
  by (induction As Bs rule: list_induct2) (auto simp: act_point_add)

lemma exp_eval_zero: "As \<noteq> [] \<Longrightarrow> exp_eval C As 0 = hd As"
  by (cases As) auto

lemma full_coeffs_New:
  assumes "NewPolynomialExponent C cs = Ret E"
  shows "full_coeffs E = map (ActOnBase C) cs"
  using assms by (auto simp: NewPolynomialExponent_def full_coeffs_def split: list.splits if_splits)

lemma exponent_homomorphism:
  assumes "NewPolynomialExponent C cs = Ret E"
  shows "Exponent_Evaluate C E x = ActOnBase C (peval cs x)"
  by (simp add: Exponent_Evaluate_full full_coeffs_New[OF assms] exp_eval_base)

lemma classic_loop_eq:
  "classic_loop C x As w r = r + Act C w (exp_eval C As x)"
proof (induction As arbitrary: w r)
  case Nil
  then show ?case by simp
next
  case (Cons A As)
  then show ?case by (simp add: act_point_add act_act add_ac)
qed

lemma evaluateClassic_eq: "evaluateClassic C p x = Exponent_Evaluate C p x"
  by (simp add: evaluateClassic_def classic_loop_eq Exponent_Evaluate_full full_coeffs_def act_one)

lemma Exponent_add_all_evaluate:
  assumes "Exponent_add_all p qs = Inr s"
  shows "Exponent_Evaluate C s x = Exponent_Evaluate C p x + (\<Sum>q\<leftarrow>qs. Exponent_Evaluate C q x)"
    and "length (full_coeffs s) = length (full_coeffs p)"
  using assms
proof (induction p qs rule: Exponent_add_all.induct)
  case (1 p)
  { case 1 then show ?case by simp }
  { case 2 then show ?case by simp }
next
  case (2 p q qs)
  have *: thesis if "Exponent_add_all p (q # qs) = Inr s"
      "\<And>r. Exponent_add p q = Inr r \<Longrightarrow> Exponent_add_all r qs = Inr s \<Longrightarrow> thesis" for thesis
    using that by (auto split: sum.splits)
  { case 1
    then show ?case
    proof (rule *)
      fix r assume r: "Exponent_add p q = Inr r" and s: "Exponent_add_all r qs = Inr s"
      show ?thesis
        using "2.IH"(1)[OF r s] Exponent_add_full[OF r]
        by (simp add: Exponent_Evaluate_full exp_eval_map2_add add_ac)
    qed }
  { case 2
    then show ?case
    proof (rule *)
      fix r assume r: "Exponent_add p q = Inr r" and s: "Exponent_add_all r qs = Inr s"
      show ?thesis
        using "2.IH"(2)[OF r s] Exponent_add_full[OF r] by simp
    qed }
qed

lemma Exponent_Sum_evaluate:
  assumes "Exponent_Sum ps = Ret (Inr s)"
  shows "Exponent_Evaluate C s x = (\<Sum>p\<leftarrow>ps. Exponent_Evaluate C p x)"
  using assms Exponent_add_all_evaluate(1)
  by (auto simp: Exponent_Sum_def split: list.splits)

end

text \<open>\<open>Sum\<close> fails exactly when some polynomial differs from the first one in shape.\<close>

lemma Exponent_add_Inr_iff:
  "(\<exists>r. Exponent_add p q = Inr r) \<longleftrightarrow>
     length (coefficients q) = length (coefficients p) \<and> IsConstant q = IsConstant p"
  by (auto simp: Exponent_add_def)

lemma Exponent_add_shape:
  "Exponent_add p q = Inr r \<Longrightarrow> length (coefficients r) = length (coefficients p) \<and> IsConstant r = IsConstant p"
  by (auto simp: Exponent_add_def split: if_splits)

lemma Exponent_add_all_Inr_iff:
  "(\<exists>r. Exponent_add_all p qs = Inr r) \<longleftrightarrow>
     (\<forall>q\<in>set qs. length (coefficients q) = length (coefficients p) \<and> IsConstant q = IsConstant p)"
proof (induction p qs rule: Exponent_add_all.induct)
  case (1 p)
  then show ?case by simp
next
  case (2 p q qs)
  show ?case
  proof (cases "Exponent_add p q")
    case (Inl e)
    then show ?thesis using Exponent_add_Inr_iff[of p q] by auto
  next
    case (Inr r)
    then show ?thesis
      using "2.IH"[OF Inr] Exponent_add_shape[OF Inr] Exponent_add_Inr_iff[of p q] by auto
  qed
qed

section \<open>Lagrange coefficients interpolate\<close>

lemma update_new_key: "k \<notin> set (map fst m) \<Longrightarrow> AList.update k v m = m @ [(k, v)]"
  by (induction m) auto

lemma getScalarsAndNumerator_eq:
  assumes "distinct ids"
  shows "getScalarsAndNumerator ids =
    (map (\<lambda>i. (i, ID_Scalar i :: 's::field)) ids, prod_list (map ID_Scalar ids))"
  using assms
proof (induction ids rule: rev_induct)
  case Nil
  then show ?case by (simp add: getScalarsAndNumerator_def)
next
  case (snoc i ids)
  have "i \<notin> set (map fst (map (\<lambda>i. (i, ID_Scalar i :: 's)) ids))"
    using snoc.prems by (simp add: comp_def)
  then show ?case
    using snoc by (simp add: getScalarsAndNumerator_def update_new_key)
qed

lemma foldl_mult_prod_list: "foldl (\<lambda>d y. d * f y) a ys = a * prod_list (map f (ys :: 'b list))"
  for a :: "'a::comm_monoid_mult"
  by (induction ys arbitrary: a) (auto simp: mult_ac)

lemma map_of_graph: "i \<in> set ids \<Longrightarrow> map_of (map (\<lambda>i. (i, f i)) ids) i = Some (f i)"
  by (induction ids) auto

lemma prod_list_distinct: "distinct xs \<Longrightarrow> prod_list (map f xs) = (\<Prod>x\<in>set xs. f x)"
  for f :: "'b \<Rightarrow> 'a::comm_monoid_mult"
  by (induction xs) auto

lemma lagrange_eq:
  assumes "distinct ids" and "inj_on (ID_Scalar :: ID \<Rightarrow> 's::field) (set ids)" and "j \<in> set ids"
    and "(0 :: 's) \<notin> ID_Scalar ` set ids"
  shows "(case getScalarsAndNumerator ids of (scalars, numerator) \<Rightarrow> lagrange scalars numerator j)
     = Ret (lagrange_basis (ID_Scalar ` set ids) (ID_Scalar j :: 's))"
proof -
  let ?x = "ID_Scalar :: ID \<Rightarrow> 's"
  have fin: "finite (set ids)" by simp
  have xj: "?x j \<noteq> 0" using assms(3,4) by force
  have num: "prod_list (map ?x ids) = ?x j * (\<Prod>i\<in>set ids - {j}. ?x i)"
    using assms(1,3) by (simp add: prod_list_distinct prod.remove)
  have "foldl (\<lambda>d (i, xI). if i = j then d * ?x j else d * (- ?x j + xI)) 1 (map (\<lambda>i. (i, ?x i)) ids)
      = foldl (\<lambda>d i. d * (if i = j then ?x j else ?x i - ?x j)) 1 ids"
    by (simp add: foldl_map if_distrib cong: if_cong)
  also have "\<dots> = (\<Prod>i\<in>set ids. if i = j then ?x j else ?x i - ?x j)"
    using assms(1) by (simp add: foldl_mult_prod_list prod_list_distinct)
  also have "\<dots> = ?x j * (\<Prod>i\<in>set ids - {j}. ?x i - ?x j)"
    using assms(3) by (simp add: prod.remove[of _ j])
  finally have den: "foldl (\<lambda>d (i, xI). if i = j then d * ?x j else d * (- ?x j + xI)) 1 (map (\<lambda>i. (i, ?x i)) ids)
      = ?x j * (\<Prod>i\<in>set ids - {j}. ?x i - ?x j)" .
  have img: "?x ` set ids - {?x j} = ?x ` (set ids - {j})"
    using assms(2,3) by (auto simp: inj_on_def)
  have inj: "inj_on ?x (set ids - {j})"
    using assms(2) by (rule inj_on_subset) auto
  have "lagrange_basis (?x ` set ids) (?x j) = (\<Prod>i\<in>set ids - {j}. ?x i / (?x i - ?x j))"
    unfolding lagrange_basis_def img using inj by (simp add: prod.reindex)
  also have "\<dots> = inverse (?x j * (\<Prod>i\<in>set ids - {j}. ?x i - ?x j)) * (?x j * (\<Prod>i\<in>set ids - {j}. ?x i))"
    using xj by (simp add: prod_dividef field_simps)
  finally show ?thesis
    using assms(1,3) den num
    by (simp add: getScalarsAndNumerator_eq lagrange_def map_of_graph Let_def)
qed

text \<open>The identifiers of a domain give distinct, non-zero scalars.\<close>

definition good_ids :: "('s::field, 'p) curve \<Rightarrow> ID list \<Rightarrow> bool" where
  "good_ids C ids \<longleftrightarrow> distinct (map (ID_Scalar :: ID \<Rightarrow> 's) ids) \<and> (0 :: 's) \<notin> set (map ID_Scalar ids)"

lemma good_idsD:
  assumes "good_ids (C :: ('s::field, 'p) curve) ids"
  shows "distinct ids" and "inj_on (ID_Scalar :: ID \<Rightarrow> 's) (set ids)"
    and "(0 :: 's) \<notin> ID_Scalar ` set ids" and "i \<in> set ids \<Longrightarrow> ID_Scalar i \<noteq> (0 :: 's)"
  using assms by (force simp: good_ids_def distinct_map)+

definition lambda_of :: "('s::field, 'p) curve \<Rightarrow> ID list \<Rightarrow> ID \<Rightarrow> 's" where
  "lambda_of C ids j = lagrange_basis (ID_Scalar ` set ids) (ID_Scalar j)"

lemma LagrangeFor_loop_eq:
  assumes "\<And>j. j \<in> set js \<Longrightarrow> lagrange scalars numerator j = Ret (l j)"
    and "distinct (map fst cs @ js)"
  shows "LagrangeFor_loop scalars numerator js cs = Ret (cs @ map (\<lambda>j. (j, l j)) js)"
  using assms
proof (induction js arbitrary: cs)
  case Nil
  then show ?case by simp
next
  case (Cons j js)
  have "LagrangeFor_loop scalars numerator js (cs @ [(j, l j)]) = Ret ((cs @ [(j, l j)]) @ map (\<lambda>j. (j, l j)) js)"
    using Cons.prems by (intro Cons.IH) auto
  then show ?case
    using Cons.prems by (simp add: update_new_key)
qed

lemma Lagrange_eq:
  assumes "good_ids (C :: ('s::field, 'p) curve) ids"
  shows "Lagrange ids = Ret (map (\<lambda>j. (j, lambda_of C ids j)) ids)"
proof -
  note g = good_idsD[OF assms]
  obtain sc num where sn: "getScalarsAndNumerator ids = (sc, num :: 's)" by force
  have "lagrange sc num j = Ret (lambda_of C ids j)" if "j \<in> set ids" for j
    using lagrange_eq[OF g(1,2) that g(3)] by (simp add: sn lambda_of_def)
  then show ?thesis
    using LagrangeFor_loop_eq[of ids sc num "lambda_of C ids" "[]"] g(1)
    by (simp add: Lagrange_def LagrangeFor_def sn)
qed

text \<open>Interpolation over the identifiers of a domain.\<close>

lemma lambda_interpolates:
  assumes "good_ids C ids" and "length cs \<le> length ids"
  shows "(\<Sum>j\<leftarrow>ids. lambda_of C ids j * peval cs (ID_Scalar j)) = peval cs 0"
proof -
  note g = good_idsD[OF assms(1)]
  have "(\<Sum>j\<leftarrow>ids. lambda_of C ids j * peval cs (ID_Scalar j))
      = (\<Sum>j\<in>set ids. peval cs (ID_Scalar j) * lambda_of C ids j)"
    using g(1) by (simp add: sum_list_distinct_conv_sum_set mult.commute)
  also have "\<dots> = (\<Sum>x\<in>ID_Scalar ` set ids. peval cs x * lagrange_basis (ID_Scalar ` set ids) x)"
    using g(2) by (simp add: sum.reindex lambda_of_def)
  also have "\<dots> = peval cs 0"
    using assms(2) g by (intro interpolate_at_zero) (auto simp: card_image distinct_card)
  finally show ?thesis .
qed

text \<open>The same interpolation in the exponent.\<close>

context curve_laws
begin

lemma act_sum: "Act C (\<Sum>a\<in>A. f a) P = (\<Sum>a\<in>A. Act C (f a) P)"
  by (induction A rule: infinite_finite_induct) (simp_all add: act_scalar_add)

lemma act_sum_right: "Act C s (\<Sum>a\<in>A. f a) = (\<Sum>a\<in>A. Act C s (f a))"
  by (induction A rule: infinite_finite_induct) (simp_all add: act_point_add)

lemma exp_eval_sum: "exp_eval C As x = (\<Sum>k<length As. Act C (x ^ k) (As ! k))"
proof (induction As)
  case (Cons A As)
  then show ?case
    by (simp add: act_sum_right act_act sum.lessThan_Suc_shift act_one add.commute del: sum.lessThan_Suc)
qed simp

lemma lambda_power:
  assumes "good_ids C ids" and "k < length ids"
  shows "(\<Sum>j\<in>set ids. lambda_of C ids j * ID_Scalar j ^ k) = 0 ^ k"
proof -
  have p: "peval (replicate k 0 @ [1]) x = x ^ k" for x :: 's
    by (induction k) (simp_all add: mult.commute)
  have "distinct ids" using good_idsD[OF assms(1)] by blast
  then show ?thesis
    using lambda_interpolates[OF assms(1), of "replicate k 0 @ [1]"] assms(2)
    by (simp add: p sum_list_distinct_conv_sum_set)
qed

lemma exp_interpolates:
  assumes "good_ids C ids" and "length As \<le> length ids"
  shows "(\<Sum>j\<leftarrow>ids. Act C (lambda_of C ids j) (exp_eval C As (ID_Scalar j))) = exp_eval C As 0"
proof -
  have "distinct ids" using good_idsD[OF assms(1)] by blast
  then have "(\<Sum>j\<leftarrow>ids. Act C (lambda_of C ids j) (exp_eval C As (ID_Scalar j)))
      = (\<Sum>j\<in>set ids. \<Sum>k<length As. Act C (lambda_of C ids j * ID_Scalar j ^ k) (As ! k))"
    by (simp add: sum_list_distinct_conv_sum_set exp_eval_sum act_sum_right act_act)
  also have "\<dots> = (\<Sum>k<length As. Act C (\<Sum>j\<in>set ids. lambda_of C ids j * ID_Scalar j ^ k) (As ! k))"
    by (subst sum.swap) (simp add: act_sum)
  also have "\<dots> = exp_eval C As 0"
    using assms by (simp add: exp_eval_sum lambda_power)
  finally show ?thesis .
qed

end

section \<open>Properties\<close>

text \<open>C20: Secret sharing reconstructs: the Lagrange coefficients computed for a set of parties with
  distinct non-zero scalars, applied to the shares \<open>Polynomial.Evaluate\<close> gives those parties, yield
  the constant of the polynomial whenever there are more parties than its degree.\<close>

theorem lagrange_reconstructs_secret:
  fixes cs :: "'s::field Polynomial"
  assumes "distinct (map (ID_Scalar :: ID \<Rightarrow> 's) ids)" and "\<forall>j\<in>set ids. ID_Scalar j \<noteq> (0 :: 's)"
    and "cs \<noteq> []" and "length cs \<le> length ids"
  shows "\<exists>ls share. Lagrange ids = Ret ls \<and> (\<forall>j\<in>set ids. Polynomial_Evaluate cs (ID_Scalar j) = Ret (share j)) \<and>
    Polynomial_Constant cs = Ret (\<Sum>j\<leftarrow>ids. the (mget ls j) * share j)"
proof -
  define C :: "('s, 's) curve" where "C = undefined"
  have g: "good_ids C ids" using assms(1,2) by (auto simp: good_ids_def)
  have l: "Lagrange ids = Ret (map (\<lambda>j. (j, lambda_of C ids j)) ids)" by (rule Lagrange_eq[OF g])
  have s: "(\<Sum>j\<leftarrow>ids. the (mget (map (\<lambda>j. (j, lambda_of C ids j)) ids) j) * peval cs (ID_Scalar j)) = peval cs 0"
    using lambda_interpolates[OF g assms(4)] by (simp add: map_of_graph cong: map_cong)
  have c: "Polynomial_Constant cs = Ret (peval cs 0)"
    using assms(3) by (cases cs) (simp_all add: Polynomial_Constant_def peval_def)
  show ?thesis
    using l s c assms(2) Polynomial_Evaluate_peval[of _ cs]
    by (intro exI[of _ "map (\<lambda>j. (j, lambda_of C ids j)) ids"] exI[of _ "\<lambda>j. peval cs (ID_Scalar j)"]) simp
qed

lemma scalars13_ab:
  "distinct (map (ID_Scalar :: ID \<Rightarrow> gf13) [''a'', ''b''])" "\<forall>j\<in>set [''a'', ''b'']. ID_Scalar j \<noteq> (0 :: gf13)"
  by code_simp+

theorem lagrange_reconstructs_secret_witness:
  "\<exists>ls share. Lagrange [''a'', ''b''] = Ret ls \<and>
    (\<forall>j\<in>set [''a'', ''b'']. Polynomial_Evaluate [3, 5 :: gf13] (ID_Scalar j) = Ret (share j)) \<and>
    Polynomial_Constant [3, 5] = Ret (\<Sum>j\<leftarrow>[''a'', ''b'']. the (mget ls j) * share j)"
  by (rule lagrange_reconstructs_secret[OF scalars13_ab]) simp_all

text \<open>C21: The commitment to a polynomial in the exponent evaluates, by Horner's rule over points, to
  the base point times the value of the polynomial: the check a share receiver makes holds for honest
  shares.\<close>

theorem exponent_commits_to_shares:
  assumes "curve_laws C" and "NewPolynomialExponent C cs = Ret E" and "Polynomial_Evaluate cs x = Ret y"
  shows "Exponent_Evaluate C E x = ActOnBase C y"
  using curve_laws.exponent_homomorphism[OF assms(1,2), of x] assms(3) Polynomial_Evaluate_peval[of x cs]
  by (auto simp: Polynomial_Evaluate_def split: if_splits)

theorem exponent_commits_to_shares_witness:
  "Exponent_Evaluate curve13 \<lparr>IsConstant = False, coefficients = [3, 5]\<rparr> 2 = ActOnBase curve13 0"
  by (rule exponent_commits_to_shares[OF curve13_laws, of "[3, 5]"]; code_simp)

text \<open>C26: The two evaluation routines for polynomials in the exponent, Horner's rule and the one that
  computes all powers of the argument, agree on every polynomial and argument.\<close>

theorem horner_equals_classic:
  assumes "curve_laws C"
  shows "Exponent_Evaluate C p x = evaluateClassic C p x"
  by (rule curve_laws.evaluateClassic_eq[OF assms, symmetric])

theorem horner_equals_classic_witness:
  "Exponent_Evaluate curve13 \<lparr>IsConstant = True, coefficients = [4, 6]\<rparr> 5 =
   evaluateClassic curve13 \<lparr>IsConstant = True, coefficients = [4, 6]\<rparr> 5"
  by (rule horner_equals_classic[OF curve13_laws])

text \<open>C27: \<open>Sum\<close> of a non-empty slice of polynomials fails exactly when two of them differ in length
  or in the constant flag, and otherwise evaluates to the sum of the values.\<close>

theorem exponent_sum_spec:
  assumes "curve_laws C"
  shows "((\<exists>s. Exponent_Sum (p # ps) = Ret (Inr s)) \<longleftrightarrow>
      (\<forall>q\<in>set ps. length (coefficients q) = length (coefficients p) \<and> IsConstant q = IsConstant p)) \<and>
    (\<forall>s. Exponent_Sum (p # ps) = Ret (Inr s) \<longrightarrow>
      Exponent_Evaluate C s x = (\<Sum>q\<leftarrow>p # ps. Exponent_Evaluate C q x))"
proof (intro conjI allI impI)
  fix s
  assume "Exponent_Sum (p # ps) = Ret (Inr s)"
  then show "Exponent_Evaluate C s x = (\<Sum>q\<leftarrow>p # ps. Exponent_Evaluate C q x)"
    by (rule curve_laws.Exponent_Sum_evaluate[OF assms])
qed (use Exponent_add_all_Inr_iff[of p ps] in \<open>simp add: Exponent_Sum_def\<close>)

theorem exponent_sum_spec_witness:
  "\<exists>s. Exponent_Sum [\<lparr>IsConstant = False, coefficients = [4, 6 :: gf13]\<rparr>, \<lparr>IsConstant = False, coefficients = [1, 2]\<rparr>]
     = Ret (Inr s)"
  using exponent_sum_spec[OF curve13_laws, of "\<lparr>IsConstant = False, coefficients = [4, 6 :: gf13]\<rparr>"
      "[\<lparr>IsConstant = False, coefficients = [1, 2]\<rparr>]"] by simp

end
