(* ===== verification/Schnorr.thy ===== *)
theory Schnorr
  imports CurveInstance Hash
begin

text \<open>
  Sampling scalars from a byte stream (\<open>pkg/math/sample/sample.go\<close>) and the Schnorr proof of
  knowledge of a discrete logarithm (\<open>pkg/zk/sch/sch.go\<close>).

  A reader that does not fail is its stream of bytes; reading consumes a prefix.
\<close>

section \<open>Sampling\<close>

type_synonym reader = "nat \<Rightarrow> byte"

definition hash_Digest :: "xof \<Rightarrow> hash \<Rightarrow> reader" where
  "hash_Digest blake3 h = blake3 h"

definition SafeScalarBytes :: nat where
  "SafeScalarBytes = 32"

definition sample_Scalar :: "('s::field, 'p) curve \<Rightarrow> reader \<Rightarrow> 's \<times> reader" where
  "sample_Scalar C rd =
     (SetNat C (be_nat (map rd [0..<SafeScalarBytes])), \<lambda>i. rd (SafeScalarBytes + i))"

definition maxIterations :: nat where
  "maxIterations = 255"

fun ScalarUnit_loop :: "('s::field, 'p) curve \<Rightarrow> nat \<Rightarrow> reader \<Rightarrow> ('s \<times> reader) outcome" where
  "ScalarUnit_loop C 0 rd = Panic"
| "ScalarUnit_loop C (Suc n) rd =
     (let (s, rd') = sample_Scalar C rd in if s \<noteq> 0 then Ret (s, rd') else ScalarUnit_loop C n rd')"

definition sample_ScalarUnit :: "('s::field, 'p) curve \<Rightarrow> reader \<Rightarrow> ('s \<times> reader) outcome" where
  "sample_ScalarUnit C rd = ScalarUnit_loop C maxIterations rd"

definition ScalarPointPair :: "('s::field, 'p) curve \<Rightarrow> reader \<Rightarrow> 's \<times> 'p" where
  "ScalarPointPair C rd = (let s = fst (sample_Scalar C rd) in (s, ActOnBase C s))"

text \<open>A point reaches \<open>WriteAny\<close> as an \<open>encoding.BinaryMarshaler\<close> named by its Go type.\<close>

definition any_Point :: "('s, 'p) curve \<Rightarrow> 'p \<Rightarrow> any" where
  "any_Point C P = AnyMarshaler ''*curve.Secp256k1Point'' (Inr (Point_MarshalBinary C P))"

section \<open>Schnorr proofs\<close>

record ('s, 'p) SchProof =
  sch_C :: 'p
  sch_Z :: 's

definition gen_or_base :: "('s, 'p) curve \<Rightarrow> 'p option \<Rightarrow> 'p" where
  "gen_or_base C gen = (case gen of None \<Rightarrow> NewBasePoint C | Some g \<Rightarrow> g)"

text \<open>The challenge. The hash is a copy at the callers in the FROST protocols, so what it has absorbed afterwards is
  not returned.\<close>

definition sch_challenge :: "('s::field, 'p) curve \<Rightarrow> xof \<Rightarrow> hash \<Rightarrow> 'p \<Rightarrow> 'p \<Rightarrow> 'p \<Rightarrow> 's \<times> go_error option" where
  "sch_challenge C blake3 h commitment public gen =
     (let (h', err) = WriteAny h [any_Point C commitment, any_Point C public, any_Point C gen]
      in (fst (sample_Scalar C (hash_Digest blake3 h')), err))"

text \<open>\<open>Randomness.Prove\<close>; \<open>None\<close> is the nil response.\<close>

definition sch_Prove :: "('s::field, 'p::ab_group_add) curve \<Rightarrow> xof \<Rightarrow> hash \<Rightarrow> 's \<Rightarrow> 'p \<Rightarrow> 'p \<Rightarrow> 's \<Rightarrow> 'p option
    \<Rightarrow> 's option" where
  "sch_Prove C blake3 h a commitment public secret gen =
     (let g = gen_or_base C gen
      in if public = 0 \<or> secret = 0 then None
         else case sch_challenge C blake3 h commitment public g of
           (e, Some err) \<Rightarrow> None
         | (e, None) \<Rightarrow> Some (e * secret + a))"

text \<open>\<open>NewProof\<close> with the sampled nonce \<open>a\<close>. It dereferences the response, so a nil one panics.\<close>

definition sch_NewProof :: "('s::field, 'p::ab_group_add) curve \<Rightarrow> xof \<Rightarrow> 's \<Rightarrow> hash \<Rightarrow> 'p \<Rightarrow> 's \<Rightarrow> 'p option
    \<Rightarrow> ('s, 'p) SchProof outcome" where
  "sch_NewProof C blake3 a h public private gen =
     (let commitment = Act C a (gen_or_base C gen)
      in case sch_Prove C blake3 h a commitment public private gen of
           None \<Rightarrow> Panic
         | Some z \<Rightarrow> Ret \<lparr>sch_C = commitment, sch_Z = z\<rparr>)"

definition sch_IsValid :: "('s::field, 'p::ab_group_add) SchProof option \<Rightarrow> bool" where
  "sch_IsValid p = (case p of None \<Rightarrow> False
     | Some pf \<Rightarrow> if sch_Z pf = 0 then False else if sch_C pf = 0 then False else True)"

definition sch_Response_Verify ::
    "('s::field, 'p::ab_group_add) curve \<Rightarrow> xof \<Rightarrow> hash \<Rightarrow> 's \<Rightarrow> 'p \<Rightarrow> 'p \<Rightarrow> 'p option \<Rightarrow> bool" where
  "sch_Response_Verify C blake3 h z public commitment gen =
     (let g = gen_or_base C gen
      in if z = 0 \<or> public = 0 then False
         else case sch_challenge C blake3 h commitment public g of
           (e, Some err) \<Rightarrow> False
         | (e, None) \<Rightarrow> Act C z g = Act C e public + commitment)"

definition sch_Verify ::
    "('s::field, 'p::ab_group_add) curve \<Rightarrow> xof \<Rightarrow> hash \<Rightarrow> ('s, 'p) SchProof option \<Rightarrow> 'p \<Rightarrow> 'p option \<Rightarrow> bool" where
  "sch_Verify C blake3 h p public gen =
     (if \<not> sch_IsValid p then False
      else case p of None \<Rightarrow> False
        | Some pf \<Rightarrow> sch_Response_Verify C blake3 h (sch_Z pf) public (sch_C pf) gen)"

section \<open>Sampling and proof lemmas\<close>

lemma ScalarUnit_nonzero: "sample_ScalarUnit C rd = Ret (s, rd') \<Longrightarrow> s \<noteq> 0"
proof -
  have "ScalarUnit_loop C n rd = Ret (s, rd') \<Longrightarrow> s \<noteq> 0" for n rd
    by (induction n arbitrary: rd) (auto simp: Let_def split: prod.splits if_splits)
  then show "sample_ScalarUnit C rd = Ret (s, rd') \<Longrightarrow> s \<noteq> 0"
    by (simp add: sample_ScalarUnit_def)
qed

lemma find_upt_Suc: "find P [0..<Suc n] = (if P 0 then Some 0 else map_option Suc (find (\<lambda>k. P (Suc k)) [0..<n]))"
proof -
  have "find P (map Suc xs) = map_option Suc (find (\<lambda>k. P (Suc k)) xs)" for xs by (induction xs) simp_all
  moreover have "[0..<Suc n] = 0 # map Suc [0..<n]" by (simp add: upt_conv_Cons map_Suc_upt del: upt_Suc)
  ultimately show ?thesis by simp
qed

lemma ScalarUnit_loop_find:
  "ScalarUnit_loop C n rd = (case find (\<lambda>k. SetNat C (be_nat (map rd [32 * k..<32 * k + 32])) \<noteq> 0) [0..<n] of
     None \<Rightarrow> Panic
   | Some k \<Rightarrow> Ret (SetNat C (be_nat (map rd [32 * k..<32 * k + 32])), \<lambda>i. rd (32 * (k + 1) + i)))"
proof (induction n arbitrary: rd)
  case (Suc n)
  have shift: "map (\<lambda>i. rd (32 + i)) [32 * k..<32 * k + 32] = map rd [32 * Suc k..<32 * Suc k + 32]" for k
    by (rule nth_equalityI) (simp_all add: algebra_simps)
  show ?case
    unfolding ScalarUnit_loop.simps find_upt_Suc sample_Scalar_def Let_def SafeScalarBytes_def prod.case Suc[of "\<lambda>i. rd (32 + i)"] shift
    by (auto simp: algebra_simps split: option.split)
qed simp

lemma ScalarUnit_not_blocked: "sample_ScalarUnit C rd \<noteq> Blocked"
proof -
  have "ScalarUnit_loop C n rd \<noteq> Blocked" for n rd
    by (induction n arbitrary: rd) (auto simp: Let_def split: prod.splits)
  then show ?thesis by (simp add: sample_ScalarUnit_def)
qed

lemma toBeWritten_Point [simp]:
  "toBeWritten (any_Point C P) = Inr (''*curve.Secp256k1Point'', Point_MarshalBinary C P)"
  by (simp add: any_Point_def)

lemma sch_challenge_no_error [simp]: "snd (sch_challenge C blake3 h commitment public gen) = None"
  by (simp add: sch_challenge_def)

lemma sch_challenge_cases:
  obtains e where "sch_challenge C blake3 h commitment public gen = (e, None)"
  by (metis prod.collapse sch_challenge_no_error)

lemma sch_Verify_equation:
  assumes "sch_Verify C b3 h (Some pf) P gen"
    and "fst (sch_challenge C b3 h (sch_C pf) P (gen_or_base C gen)) = e"
  shows "Act C (sch_Z pf) (gen_or_base C gen) = Act C e P + sch_C pf"
proof -
  obtain e' where "sch_challenge C b3 h (sch_C pf) P (gen_or_base C gen) = (e', None)"
    by (rule sch_challenge_cases)
  then show ?thesis
    using assms by (simp add: sch_Verify_def sch_Response_Verify_def Let_def split: if_splits)
qed

context curve_laws
begin

lemma sch_complete:
  assumes "sch_NewProof C blake3 a h (Act C x (gen_or_base C gen)) x gen = Ret pf"
  shows "sch_Verify C blake3 h (Some pf) (Act C x (gen_or_base C gen)) gen
    \<longleftrightarrow> sch_Z pf \<noteq> 0 \<and> sch_C pf \<noteq> 0"
proof -
  let ?g = "gen_or_base C gen"
  obtain e where e: "sch_challenge C blake3 h (Act C a ?g) (Act C x ?g) ?g = (e, None)"
    by (rule sch_challenge_cases)
  have pf: "pf = \<lparr>sch_C = Act C a ?g, sch_Z = e * x + a\<rparr>" and nz: "Act C x ?g \<noteq> 0"
    using assms e
    by (auto simp: sch_NewProof_def sch_Prove_def Let_def split: if_splits option.splits)
  show ?thesis
    using nz e
    by (simp add: pf sch_Verify_def sch_IsValid_def sch_Response_Verify_def Let_def
        act_scalar_add act_act)
qed

text \<open>Two accepting answers to different challenges for the same commitment yield the secret.\<close>

lemma sch_extract:
  assumes "Act C z1 g = Act C e1 P + A" and "Act C z2 g = Act C e2 P + A" and "e1 \<noteq> e2"
  shows "P = Act C ((z1 - z2) / (e1 - e2)) g"
proof -
  have "Act C (z1 - z2) g = Act C (e1 - e2) P"
    using assms(1,2) by (simp add: act_scalar_diff)
  then have "Act C (inverse (e1 - e2)) (Act C (e1 - e2) P) = Act C (inverse (e1 - e2)) (Act C (z1 - z2) g)"
    by simp
  then show ?thesis
    using assms(3) by (simp add: act_act act_one divide_inverse mult.commute)
qed

end

section \<open>Properties\<close>

text \<open>C22: Schnorr proofs are complete: a proof made by \<open>NewProof\<close> for \<open>x\<close> and \<open>x\<close> times the
  generator is accepted, unless the commitment is the identity or the response is zero, which
  \<open>IsValid\<close> refuses.\<close>

theorem schnorr_complete:
  assumes "curve_laws C" and "sch_NewProof C b3 a h (Act C x (gen_or_base C gen)) x gen = Ret pf"
  shows "sch_Verify C b3 h (Some pf) (Act C x (gen_or_base C gen)) gen \<longleftrightarrow> sch_Z pf \<noteq> 0 \<and> sch_C pf \<noteq> 0"
  by (rule curve_laws.sch_complete[OF assms])

theorem schnorr_complete_witness:
  "sch_Verify curve13 (\<lambda>_ _. 0) [] (Some \<lparr>sch_C = 2, sch_Z = 2\<rparr>) (Act curve13 3 (gen_or_base curve13 None)) None"
proof -
  have "sch_NewProof curve13 (\<lambda>_ _. 0) 2 [] (Act curve13 3 (gen_or_base curve13 None)) 3 None
      = Ret \<lparr>sch_C = 2, sch_Z = 2\<rparr>" by code_simp
  moreover have "(2 :: gf13) \<noteq> 0" by code_simp
  ultimately show ?thesis using schnorr_complete[OF curve13_laws] by simp
qed

text \<open>C23: Schnorr proofs are specially sound: two accepted proofs for the same statement with the same
  commitment but different challenges (two random oracles) determine the discrete logarithm.\<close>

theorem schnorr_special_soundness:
  assumes "curve_laws C" and "sch_Verify C b3 h (Some pf) P gen" and "sch_Verify C b3' h (Some pf') P gen"
    and "sch_C pf' = sch_C pf"
    and "fst (sch_challenge C b3 h (sch_C pf) P (gen_or_base C gen)) = e"
    and "fst (sch_challenge C b3' h (sch_C pf) P (gen_or_base C gen)) = e'" and "e \<noteq> e'"
  shows "P = Act C ((sch_Z pf - sch_Z pf') / (e - e')) (gen_or_base C gen)"
proof -
  have "Act C (sch_Z pf) (gen_or_base C gen) = Act C e P + sch_C pf"
    by (rule sch_Verify_equation[OF assms(2)]) (use assms(5) in simp)
  moreover have "Act C (sch_Z pf') (gen_or_base C gen) = Act C e' P + sch_C pf"
    using sch_Verify_equation[OF assms(3)] assms(4,6) by simp
  ultimately show ?thesis using curve_laws.sch_extract[OF assms(1)] assms(7) by blast
qed

theorem schnorr_special_soundness_witness:
  "(3 :: gf13) = Act curve13 ((2 - 5) / (0 - 1)) (gen_or_base curve13 None)"
proof -
  let ?b0 = "\<lambda>_ _. 0" and ?b1 = "\<lambda>_ i. if i = 31 then 1 else 0"
  have "sch_Verify curve13 ?b0 [] (Some \<lparr>sch_C = 2, sch_Z = 2\<rparr>) 3 None"
    "sch_Verify curve13 ?b1 [] (Some \<lparr>sch_C = 2, sch_Z = 5\<rparr>) 3 None" by code_simp+
  moreover have "fst (sch_challenge curve13 ?b0 [] 2 3 (gen_or_base curve13 None)) = 0"
    "fst (sch_challenge curve13 ?b1 [] 2 3 (gen_or_base curve13 None)) = 1" by code_simp+
  ultimately show ?thesis
    using schnorr_special_soundness[OF curve13_laws, of ?b0 "[]" "\<lparr>sch_C = 2, sch_Z = 2\<rparr>" 3 None ?b1
        "\<lparr>sch_C = 2, sch_Z = 5\<rparr>" 0 1] by simp
qed

text \<open>C40: Sampling a unit returns the first of the 255 scalars at the front of the stream that is not zero, and
  has then consumed the bytes up to the end of that scalar; it panics exactly when all 255 are zero.\<close>

theorem sample_unit_nonzero:
  "sample_ScalarUnit C rd = (case find (\<lambda>k. SetNat C (be_nat (map rd [32 * k..<32 * k + 32])) \<noteq> 0) [0..<255] of
     None \<Rightarrow> Panic
   | Some k \<Rightarrow> Ret (SetNat C (be_nat (map rd [32 * k..<32 * k + 32])), \<lambda>i. rd (32 * (k + 1) + i)))"
  unfolding sample_ScalarUnit_def maxIterations_def by (rule ScalarUnit_loop_find)

theorem sample_unit_nonzero_witness:
  "\<exists>rd. sample_ScalarUnit curve13 (\<lambda>i. if i = 95 then 5 else 0) = Ret (5, rd)"
proof -
  have "find (\<lambda>k. SetNat curve13 (be_nat (map (\<lambda>i. if i = 95 then 5 else 0) [32 * k..<32 * k + 32])) \<noteq> 0) [0..<255] = Some 2"
    "SetNat curve13 (be_nat (map (\<lambda>i. if i = 95 then 5 else 0) [32 * 2..<32 * 2 + 32])) = 5" by code_simp+
  then show ?thesis by (subst sample_unit_nonzero) (simp del: upt_Suc)
qed

end
