(* ===== verification/FrostKeygen.thy ===== *)
theory FrostKeygen
  imports Polynomial Schnorr HandlerInv
begin

text \<open>
  FROST key generation and refresh: \<open>protocols/frost/keygen/keygen.go\<close>, \<open>round1.go\<close>, \<open>round2.go\<close>,
  \<open>round3.go\<close> and the result types of \<open>config.go\<close>.

  The rounds embed one another in Go (\<open>round3\<close> holds a \<open>*round2\<close>, which holds a \<open>*round1\<close>); the
  records extend one another in the same way. What the rounds read from \<open>crypto/rand\<close> is the argument
  \<open>kg_rand\<close>, and the CBOR encoding of the message contents is the argument \<open>kg_codec\<close>.
\<close>

section \<open>Results\<close>

record ('s, 'p) Config =
  cfg_ID :: ID
  cfg_Threshold :: int
  cfg_PrivateShare :: 's
  cfg_PublicKey :: 'p
  cfg_ChainKey :: bytes
  cfg_VerificationShares :: "(ID, 'p) gomap"

record ('s, 'p) TaprootConfig =
  tap_ID :: ID
  tap_Threshold :: int
  tap_PrivateShare :: 's
  tap_PublicKey :: bytes
  tap_ChainKey :: bytes
  tap_VerificationShares :: "(ID, 'p) gomap"

datatype ('s, 'p) kg_result = KgConfig "('s, 'p) Config" | KgTaproot "('s, 'p) TaprootConfig"

section \<open>Messages\<close>

datatype ('s, 'p) kg_content =
    KgBroadcast2 "'p Exponent option" "('s, 'p) SchProof option" Commitment
  | KgBroadcast3 RID Decommitment
  | KgMessage3 "'s option"

fun kg_RoundNumber :: "('s, 'p) kg_content \<Rightarrow> Number" where
  "kg_RoundNumber (KgBroadcast2 phi sigma c) = 2"
| "kg_RoundNumber (KgBroadcast3 c d) = 3"
| "kg_RoundNumber (KgMessage3 f) = 3"

section \<open>Rounds\<close>

record ('s, 'p) kg_round1 =
  kg_Helper :: Helper
  kg_taproot :: bool
  kg_threshold :: int
  kg_refresh :: bool
  kg_privateShare :: 's
  kg_verificationShares :: "(ID, 'p) gomap"
  kg_publicKey :: 'p

record ('s, 'p) kg_round2 = "('s, 'p) kg_round1" +
  kg_f_i :: "'s Polynomial"
  kg_Phi :: "(ID, 'p Exponent) gomap"
  kg_ChainKeyDecommitment :: Decommitment
  kg_ChainKeys :: "(ID, RID) gomap"
  kg_ChainKeyCommitments :: "(ID, Commitment) gomap"

record ('s, 'p) kg_round3 = "('s, 'p) kg_round2" +
  kg_shareFrom :: "(ID, 's) gomap"

record 's kg_rand =
  kr_secret :: 's                 \<comment> \<open>\<open>sample.Scalar\<close> for \<open>a_i0\<close>\<close>
  kr_coeffs :: "nat \<Rightarrow> 's"         \<comment> \<open>samples of \<open>NewPolynomial\<close>\<close>
  kr_nonce :: 's                  \<comment> \<open>nonce of the Schnorr proof\<close>
  kr_rid :: "bytes option"        \<comment> \<open>\<open>types.NewRID\<close>\<close>
  kr_decommit :: "bytes option"   \<comment> \<open>decommitment of \<open>Commit\<close>\<close>

abbreviation kg_self :: "('s, 'p, 'm) kg_round1_scheme \<Rightarrow> ID" where
  "kg_self r \<equiv> SelfID (info (kg_Helper r))"

text \<open>
  \<open>StartKeygenCommon\<close> returns a closure over \<open>privateShare\<close> and \<open>publicKey\<close> which assigns to them when
  they are nil; \<open>captured\<close> holds the two variables, and the first component of the result is what they
  hold after the call. The copy of a nil map is the empty map.
\<close>

type_synonym ('s, 'p) kg_captured = "'s option \<times> 'p option"

definition StartKeygenCommon :: "('s::field, 'p::ab_group_add) curve \<Rightarrow> xof \<Rightarrow> bool \<Rightarrow> ID list \<Rightarrow> int \<Rightarrow> ID
    \<Rightarrow> (ID, 'p) gomap \<Rightarrow> ('s, 'p) kg_captured \<Rightarrow> bytes option
    \<Rightarrow> ('s, 'p) kg_captured \<times> (go_error + ('s, 'p) kg_round1)" where
  "StartKeygenCommon C b3 taproot participants threshold selfID verificationShares captured sessionID =
     (let nfo = \<lparr>ProtocolID = (if taproot then ''frost/keygen-threshold-taproot'' else ''frost/keygen-threshold''),
                 FinalRoundNumber = 3, SelfID = selfID, PartyIDs = participants, Threshold = threshold,
                 Group = Some (Name C)\<rparr>
      in case NewSession b3 nfo sessionID [] of
           Inl e \<Rightarrow> (captured, Inl (Wrap ''keygen.StartKeygen'' e))
         | Inr helper \<Rightarrow> (case captured of
             (Some s, Some Y) \<Rightarrow>
               (captured,
                Inr \<lparr>kg_Helper = helper, kg_taproot = taproot, kg_threshold = threshold, kg_refresh = True,
                     kg_privateShare = s, kg_verificationShares = verificationShares, kg_publicKey = Y\<rparr>)
           | _ \<Rightarrow>
               ((Some 0, Some 0),
                Inr \<lparr>kg_Helper = helper, kg_taproot = taproot, kg_threshold = threshold, kg_refresh = False,
                     kg_privateShare = 0,
                     kg_verificationShares = foldl (\<lambda>m k. mput k 0 m) verificationShares participants,
                     kg_publicKey = 0\<rparr>)))"

text \<open>\<open>round1.Finalize\<close>.\<close>

definition kg_round1_Finalize :: "('s::field, 'p::ab_group_add) curve \<Rightarrow> xof \<Rightarrow> 's kg_rand
    \<Rightarrow> ('s, 'p) kg_round1 \<Rightarrow> ('s, 'p) kg_content outchan
    \<Rightarrow> (go_error + ('s, 'p) kg_round2 \<times> ('s, 'p) kg_content outchan) outcome" where
  "kg_round1_Finalize C b3 rnd r out =
     (let self = kg_self r;
          a_i0 = (if kg_refresh r then 0 else kr_secret rnd);
          a_i0_times_G = (if kg_refresh r then 0 else ActOnBase C (kr_secret rnd));
          f_i = NewPolynomial (nat (kg_threshold r)) (Some a_i0) (kr_coeffs rnd)
      in obind (if kg_refresh r then Ret None
                else obind (sch_NewProof C b3 (kr_nonce rnd) (HashForID (kg_Helper r) self) a_i0_times_G a_i0 None)
                       (\<lambda>pf. Ret (Some pf))) (\<lambda>Sigma_i.
         obind (NewPolynomialExponent C f_i) (\<lambda>Phi_i.
         case kr_rid rnd of
           None \<Rightarrow> Ret (Inl (Err ''failed to sample ChainKey''))
         | Some c_i \<Rightarrow>
             (case hash_Commit b3 (HashForID (kg_Helper r) self) (kr_decommit rnd) [any_RID (Some c_i)] of
                Inl e \<Rightarrow> Ret (Inl (Err ''failed to commit to chain key''))
              | Inr (commitment, decommitment) \<Rightarrow>
                  (case BroadcastMessage (kg_Helper r) (KgBroadcast2 (Some Phi_i) Sigma_i commitment) out of
                     Inl e \<Rightarrow> Ret (Inl e)
                   | Inr out' \<Rightarrow> Ret (Inr (kg_round1.extend r
                       (kg_round2.fields f_i [(self, Phi_i)] decommitment [(self, c_i)] []), out')))))))"

text \<open>\<open>round2.StoreBroadcastMessage\<close>.\<close>

definition kg_round2_StoreBroadcast :: "('s::field, 'p::ab_group_add) curve \<Rightarrow> xof \<Rightarrow> ('s, 'p) kg_round2
    \<Rightarrow> ('s, 'p) kg_content RoundMessage \<Rightarrow> (go_error + ('s, 'p) kg_round2) outcome" where
  "kg_round2_StoreBroadcast C b3 r msg = (case rm_Content msg of
       KgBroadcast2 phi Sigma_i commitment \<Rightarrow>
         (let from = rm_From msg in
          case phi of
            None \<Rightarrow> Ret (Inl ErrNilFields)
          | Some Phi_i \<Rightarrow>
              if \<not> kg_refresh r \<and> \<not> sch_IsValid Sigma_i then Ret (Inl ErrNilFields)
              else case Commitment_Validate commitment of
                Some e \<Rightarrow> Ret (Inl (Wrap ''commitment'' e))
              | None \<Rightarrow>
                  let stored = r\<lparr>kg_Phi := mput from Phi_i (kg_Phi r),
                    kg_ChainKeyCommitments := mput from commitment (kg_ChainKeyCommitments r)\<rparr>
                  in obind (Exponent_Constant Phi_i) (\<lambda>constant.
                    if kg_refresh r
                    then (if constant \<noteq> 0
                          then Ret (Inl (Err (''party '' @ from @ '' sent a non-zero constant while refreshing'')))
                          else Ret (Inr stored))
                    else (if \<not> sch_Verify C b3 (HashForID (kg_Helper r) from) Sigma_i constant None
                          then Ret (Inl (Err (''failed to verify Schnorr proof for party '' @ from)))
                          else Ret (Inr stored))))
     | _ \<Rightarrow> Ret (Inl ErrInvalidContent))"

text \<open>\<open>round2.Finalize\<close>: the shares for the other parties, in the order of their identifiers.\<close>

fun kg_send_shares :: "('s::field, 'p) kg_round2 \<Rightarrow> ID list \<Rightarrow> ('s, 'p) kg_content outchan
    \<Rightarrow> (go_error + ('s, 'p) kg_content outchan) outcome" where
  "kg_send_shares r [] out = Ret (Inr out)"
| "kg_send_shares r (l # ls) out =
     obind (Polynomial_Evaluate (kg_f_i r) (ID_Scalar l)) (\<lambda>F_li.
       case SendMessage (kg_Helper r) (KgMessage3 (Some F_li)) l out of
         Inl e \<Rightarrow> Ret (Inl e)
       | Inr out' \<Rightarrow> kg_send_shares r ls out')"

definition kg_round2_Finalize :: "('s::field, 'p) kg_round2 \<Rightarrow> ('s, 'p) kg_content outchan
    \<Rightarrow> (go_error + ('s, 'p) kg_round3 \<times> ('s, 'p) kg_content outchan) outcome" where
  "kg_round2_Finalize r out =
     (let self = kg_self r;
          C_l = (case mget (kg_ChainKeys r) self of None \<Rightarrow> [] | Some c \<Rightarrow> c)
      in case BroadcastMessage (kg_Helper r) (KgBroadcast3 C_l (kg_ChainKeyDecommitment r)) out of
           Inl e \<Rightarrow> Ret (Inl e)
         | Inr out1 \<Rightarrow> obind (kg_send_shares r (otherPartyIDs (kg_Helper r)) out1) (\<lambda>res. case res of
               Inl e \<Rightarrow> Ret (Inl e)
             | Inr out2 \<Rightarrow> obind (Polynomial_Evaluate (kg_f_i r) (ID_Scalar self)) (\<lambda>selfShare.
                 Ret (Inr (kg_round2.extend r (kg_round3.fields [(self, selfShare)]), out2)))))"

text \<open>\<open>round3.StoreBroadcastMessage\<close>, \<open>VerifyMessage\<close> and \<open>StoreMessage\<close>. A missing commitment is nil;
  a missing polynomial is a nil pointer.\<close>

definition kg_round3_StoreBroadcast :: "xof \<Rightarrow> ('s, 'p) kg_round3
    \<Rightarrow> ('s, 'p) kg_content RoundMessage \<Rightarrow> go_error + ('s, 'p) kg_round3" where
  "kg_round3_StoreBroadcast b3 r msg = (case rm_Content msg of
       KgBroadcast3 C_l decommitment \<Rightarrow>
         (let from = rm_From msg in
          case RID_Validate C_l of
            Some e \<Rightarrow> Inl e
          | None \<Rightarrow>
              if \<not> hash_Decommit b3 (HashForID (kg_Helper r) from)
                    (case mget (kg_ChainKeyCommitments r) from of None \<Rightarrow> [] | Some c \<Rightarrow> c)
                    decommitment [any_RID (Some C_l)]
              then Inl (Err ''failed to verify chain key commitment'')
              else Inr (r\<lparr>kg_ChainKeys := mput from C_l (kg_ChainKeys r)\<rparr>))
     | _ \<Rightarrow> Inl ErrInvalidContent)"

definition kg_round3_VerifyMessage :: "('s, 'p) kg_content RoundMessage \<Rightarrow> go_error option" where
  "kg_round3_VerifyMessage msg = (case rm_Content msg of
       KgMessage3 F_li \<Rightarrow> (case F_li of None \<Rightarrow> Some ErrNilFields | Some _ \<Rightarrow> None)
     | _ \<Rightarrow> Some ErrInvalidContent)"

definition kg_round3_StoreMessage :: "('s::field, 'p::ab_group_add) curve \<Rightarrow> ('s, 'p) kg_round3
    \<Rightarrow> ('s, 'p) kg_content RoundMessage \<Rightarrow> (go_error + ('s, 'p) kg_round3) outcome" where
  "kg_round3_StoreMessage C r msg = (case rm_Content msg of
       KgMessage3 (Some F_li) \<Rightarrow>
         (let from = rm_From msg; expected = ActOnBase C F_li in
          case mget (kg_Phi r) from of
            None \<Rightarrow> Panic
          | Some phi \<Rightarrow>
              let actual = Exponent_Evaluate C phi (ID_Scalar (kg_self r))
              in if expected \<noteq> actual then Ret (Inl (Err ''VSS failed to validate''))
                 else Ret (Inr (r\<lparr>kg_shareFrom := mput from F_li (kg_shareFrom r)\<rparr>)))
     | _ \<Rightarrow> Panic)"

text \<open>
  \<open>round3.Finalize\<close>. The chain key is folded first: a missing or short contribution panics. The sums
  run over Go maps. \<open>Constant\<close> panics on an empty polynomial and a failing \<open>polynomial.Sum\<close> is turned
  into a panic. The chain key is computed and not used further. The code adds to the scalar the round was
  given, in place; here the sum is the private share of the result.
\<close>

fun kg_chain_key :: "(ID, RID) gomap \<Rightarrow> ID list \<Rightarrow> RID \<Rightarrow> RID outcome" where
  "kg_chain_key keys [] acc = Ret acc"
| "kg_chain_key keys (j # js) acc =
     obind (RID_XOR acc (case mget keys j of None \<Rightarrow> [] | Some c \<Rightarrow> c)) (kg_chain_key keys js)"

fun kg_sum_constants :: "'p::ab_group_add Exponent list \<Rightarrow> 'p \<Rightarrow> 'p outcome" where
  "kg_sum_constants [] acc = Ret acc"
| "kg_sum_constants (phi # phis) acc = obind (Exponent_Constant phi) (\<lambda>c. kg_sum_constants phis (acc + c))"

definition kg_round3_Finalize :: "('s::field, 'p::ab_group_add) curve \<Rightarrow> ('s, 'p) kg_round3
    \<Rightarrow> ('s, 'p) kg_result outcome" where
  "kg_round3_Finalize C r =
     obind (kg_chain_key (kg_ChainKeys r) (partyIDs (kg_Helper r)) EmptyRID) (\<lambda>ChainKey.
     let privateShare = foldl (+) (kg_privateShare r) (mvals (kg_shareFrom r)) in
     obind (kg_sum_constants (mvals (kg_Phi r)) (kg_publicKey r)) (\<lambda>publicKey.
     obind (Exponent_Sum (mvals (kg_Phi r))) (\<lambda>sum. case sum of
         Inl e \<Rightarrow> Panic
       | Inr verificationExponent \<Rightarrow>
           let verificationShares = mmap (\<lambda>k v. v + Exponent_Evaluate C verificationExponent (ID_Scalar k))
                 (kg_verificationShares r)
           in if kg_taproot r
              then let odd_y = \<not> HasEvenY C publicKey
                   in Ret (KgTaproot \<lparr>tap_ID = kg_self r, tap_Threshold = kg_threshold r,
                        tap_PrivateShare = (if odd_y then - privateShare else privateShare),
                        tap_PublicKey = XBytes C publicKey, tap_ChainKey = [],
                        tap_VerificationShares = (if odd_y then mmap (\<lambda>i y_i. - y_i) verificationShares
                          else verificationShares)\<rparr>)
              else Ret (KgConfig \<lparr>cfg_ID = kg_self r, cfg_Threshold = kg_threshold r,
                     cfg_PrivateShare = privateShare, cfg_PublicKey = publicKey, cfg_ChainKey = [],
                     cfg_VerificationShares = verificationShares\<rparr>))))"

section \<open>The rounds as a session\<close>

datatype ('s, 'p) kg_round = Kg1 "('s, 'p) kg_round1" | Kg2 "('s, 'p) kg_round2" | Kg3 "('s, 'p) kg_round3"

record ('s, 'p) kg_codec =
  kgc_marshal :: "('s, 'p) kg_content \<Rightarrow> bytes option"
  kgc_broadcast2 :: "bytes \<Rightarrow> ('s, 'p) kg_content option"
  kgc_broadcast3 :: "bytes \<Rightarrow> ('s, 'p) kg_content option"
  kgc_message3 :: "bytes \<Rightarrow> ('s, 'p) kg_content option"

fun kg_helper_of :: "('s, 'p) kg_round \<Rightarrow> Helper" where
  "kg_helper_of (Kg1 r) = kg_Helper r"
| "kg_helper_of (Kg2 r) = kg_Helper r"
| "kg_helper_of (Kg3 r) = kg_Helper r"

fun kg_Number :: "('s, 'p) kg_round \<Rightarrow> Number" where
  "kg_Number (Kg1 r) = 1"
| "kg_Number (Kg2 r) = 2"
| "kg_Number (Kg3 r) = 3"

fun kg_isBroadcast :: "('s, 'p) kg_round \<Rightarrow> bool" where
  "kg_isBroadcast (Kg1 r) = False"
| "kg_isBroadcast (Kg2 r) = True"
| "kg_isBroadcast (Kg3 r) = True"

fun kg_hasContent :: "('s, 'p) kg_round \<Rightarrow> bool" where
  "kg_hasContent (Kg1 r) = False"
| "kg_hasContent (Kg2 r) = False"
| "kg_hasContent (Kg3 r) = True"

fun kg_verify :: "('s, 'p) kg_round \<Rightarrow> ('s, 'p) kg_content RoundMessage \<Rightarrow> go_error option outcome" where
  "kg_verify (Kg1 r) m = Ret None"
| "kg_verify (Kg2 r) m = Ret None"
| "kg_verify (Kg3 r) m = Ret (kg_round3_VerifyMessage m)"

fun kg_store :: "('s::field, 'p::ab_group_add) curve \<Rightarrow> ('s, 'p) kg_round
    \<Rightarrow> ('s, 'p) kg_content RoundMessage \<Rightarrow> (go_error + ('s, 'p) kg_round) outcome" where
  "kg_store C (Kg1 r) m = Ret (Inr (Kg1 r))"
| "kg_store C (Kg2 r) m = Ret (Inr (Kg2 r))"
| "kg_store C (Kg3 r) m = obind (kg_round3_StoreMessage C r m) (\<lambda>x. Ret (map_sum id Kg3 x))"

fun kg_storeBroadcast :: "('s::field, 'p::ab_group_add) curve \<Rightarrow> xof \<Rightarrow> ('s, 'p) kg_round
    \<Rightarrow> ('s, 'p) kg_content RoundMessage \<Rightarrow> (go_error + ('s, 'p) kg_round) outcome" where
  "kg_storeBroadcast C b3 (Kg1 r) m = Panic"
| "kg_storeBroadcast C b3 (Kg2 r) m = obind (kg_round2_StoreBroadcast C b3 r m) (\<lambda>x. Ret (map_sum id Kg2 x))"
| "kg_storeBroadcast C b3 (Kg3 r) m = Ret (map_sum id Kg3 (kg_round3_StoreBroadcast b3 r m))"

fun kg_finalize :: "('s::field, 'p::ab_group_add) curve \<Rightarrow> xof \<Rightarrow> 's kg_rand \<Rightarrow> ('s, 'p) kg_round \<Rightarrow> nat
    \<Rightarrow> (go_error + (('s, 'p) kg_round, ('s, 'p) kg_result) session option
          \<times> ('s, 'p) kg_content RoundMessage list) outcome" where
  "kg_finalize C b3 rnd (Kg1 r) cap =
     obind (kg_round1_Finalize C b3 rnd r \<lparr>oc_cap = cap, oc_buf = []\<rparr>)
       (\<lambda>x. Ret (map_sum id (\<lambda>(r', out). (Some (Live (Kg2 r')), oc_buf out)) x))"
| "kg_finalize C b3 rnd (Kg2 r) cap =
     obind (kg_round2_Finalize r \<lparr>oc_cap = cap, oc_buf = []\<rparr>)
       (\<lambda>x. Ret (map_sum id (\<lambda>(r', out). (Some (Live (Kg3 r')), oc_buf out)) x))"
| "kg_finalize C b3 rnd (Kg3 r) cap =
     obind (kg_round3_Finalize C r) (\<lambda>res. Ret (Inr (Some (OutputRound (kg_Helper r) res), [])))"

definition kg_runtime :: "('s::field, 'p::ab_group_add) curve \<Rightarrow> xof \<Rightarrow> ('s, 'p) kg_codec \<Rightarrow> 's kg_rand
    \<Rightarrow> ((ID \<times> Message) list \<Rightarrow> (ID \<times> Message) list)
    \<Rightarrow> (('s, 'p) kg_round, ('s, 'p) kg_content, ('s, 'p) kg_result) runtime" where
  "kg_runtime C b3 codec rnd order =
     \<lparr>ops = \<lparr>r_helper = kg_helper_of, r_number = kg_Number, r_isBroadcast = kg_isBroadcast,
       r_hasContent = kg_hasContent, r_unmarshal = (\<lambda>r. kgc_message3 codec),
       r_unmarshalBroadcast = (\<lambda>r. case r of Kg2 _ \<Rightarrow> kgc_broadcast2 codec | _ \<Rightarrow> kgc_broadcast3 codec),
       r_marshal = kgc_marshal codec, r_contentRound = kg_RoundNumber, r_verify = kg_verify,
       r_store = kg_store C, r_storeBroadcast = kg_storeBroadcast C b3, r_finalize = kg_finalize C b3 rnd\<rparr>,
      blake3 = b3, range_order = order\<rparr>"

section \<open>What key generation maintains\<close>

text \<open>
  The public key and the verification shares lie on one polynomial of degree \<open>t\<close> in the exponent, so
  every \<open>t + 1\<close> shares determine the key and nothing less is needed.
\<close>

definition poly_shares :: "('s::field, 'p::ab_group_add) curve \<Rightarrow> nat \<Rightarrow> 'p \<Rightarrow> (ID, 'p) gomap \<Rightarrow> bool" where
  "poly_shares C t Y shares \<longleftrightarrow> (\<exists>F. length F = Suc t \<and> Y = exp_eval C F 0 \<and>
     (\<forall>k v. mget shares k = Some v \<longrightarrow> v = exp_eval C F (ID_Scalar k)))"

definition config_ok :: "('s::field, 'p::ab_group_add) curve \<Rightarrow> ('s, 'p) Config \<Rightarrow> bool" where
  "config_ok C cfg \<longleftrightarrow> poly_shares C (nat (cfg_Threshold cfg)) (cfg_PublicKey cfg) (cfg_VerificationShares cfg) \<and>
     mget (cfg_VerificationShares cfg) (cfg_ID cfg) = Some (ActOnBase C (cfg_PrivateShare cfg))"

definition tap_config_ok :: "('s::field, 'p::ab_group_add) curve \<Rightarrow> ('s, 'p) TaprootConfig \<Rightarrow> bool" where
  "tap_config_ok C cfg \<longleftrightarrow> (\<exists>Y. tap_PublicKey cfg = XBytes C Y \<and> (Y \<noteq> 0 \<longrightarrow> HasEvenY C Y) \<and>
     poly_shares C (nat (tap_Threshold cfg)) Y (tap_VerificationShares cfg) \<and>
     mget (tap_VerificationShares cfg) (tap_ID cfg) = Some (ActOnBase C (tap_PrivateShare cfg)))"

text \<open>The rounds share the data of the first one.\<close>

definition kg_from :: "('s, 'p) kg_round1 \<Rightarrow> ('s, 'p, 'm) kg_round1_scheme \<Rightarrow> bool" where
  "kg_from r0 r \<longleftrightarrow> kg_Helper r = kg_Helper r0 \<and> kg_taproot r = kg_taproot r0 \<and>
     kg_threshold r = kg_threshold r0 \<and> kg_refresh r = kg_refresh r0 \<and>
     kg_verificationShares r = kg_verificationShares r0 \<and> kg_publicKey r = kg_publicKey r0"

lemma kg_from_update [simp]:
  "kg_from r0 (kg_Phi_update f r2) = kg_from r0 r2"
  "kg_from r0 (kg_ChainKeys_update g r2) = kg_from r0 r2"
  "kg_from r0 (kg_ChainKeyCommitments_update k r2) = kg_from r0 r2"
  "kg_from r0 (kg_shareFrom_update l r3) = kg_from r0 r3"
  by (simp_all add: kg_from_def)

definition kg_base :: "('s::field, 'p::ab_group_add) curve \<Rightarrow> ('s, 'p) kg_round1 \<Rightarrow> ('s, 'p, 'm) kg_round1_scheme \<Rightarrow> bool" where
  "kg_base C r0 r \<longleftrightarrow> session_ok (kg_Helper r) \<and> FinalRoundNumber (info (kg_Helper r)) = 3 \<and>
     poly_shares C (nat (kg_threshold r)) (kg_publicKey r) (kg_verificationShares r) \<and>
     mget (kg_verificationShares r) (kg_self r) = Some (ActOnBase C (kg_privateShare r)) \<and>
     kg_from r0 r"

text \<open>Our own polynomial is committed to, and the commitments are those of parties of the session.\<close>

definition kg_committed :: "('s::field, 'p::ab_group_add) curve \<Rightarrow> ('s, 'p, 'm) kg_round2_scheme \<Rightarrow> bool" where
  "kg_committed C r \<longleftrightarrow> mwf (kg_Phi r) \<and> length (kg_f_i r) = Suc (nat (kg_threshold r)) \<and>
     (\<exists>phi. mget (kg_Phi r) (kg_self r) = Some phi \<and> NewPolynomialExponent C (kg_f_i r) = Ret phi) \<and>
     set (mkeys (kg_Phi r)) \<subseteq> set (partyIDs (kg_Helper r)) \<and>
     (kg_refresh r \<longrightarrow> (\<forall>l phi. mget (kg_Phi r) l = Some phi \<longrightarrow> Exponent_Constant phi = Ret 0))"

text \<open>Every share received is the value of the sender's polynomial at our identifier.\<close>

definition kg_shared :: "('s::field, 'p::ab_group_add) curve \<Rightarrow> ('s, 'p) kg_round3 \<Rightarrow> bool" where
  "kg_shared C r \<longleftrightarrow> mwf (kg_shareFrom r) \<and> set (mkeys (kg_Phi r)) = set (partyIDs (kg_Helper r)) \<and>
     kg_self r \<in> set (mkeys (kg_shareFrom r)) \<and>
     (\<forall>l f. mget (kg_shareFrom r) l = Some f \<longrightarrow>
       (\<exists>phi. mget (kg_Phi r) l = Some phi \<and> ActOnBase C f = Exponent_Evaluate C phi (ID_Scalar (kg_self r))))"

fun kg_good :: "('s::field, 'p::ab_group_add) curve \<Rightarrow> ('s, 'p) kg_round1 \<Rightarrow> ('s, 'p) kg_round \<Rightarrow> bool" where
  "kg_good C r0 (Kg1 r) \<longleftrightarrow> kg_base C r0 r"
| "kg_good C r0 (Kg2 r) \<longleftrightarrow> kg_base C r0 r \<and> kg_committed C r"
| "kg_good C r0 (Kg3 r) \<longleftrightarrow> kg_base C r0 r \<and> kg_committed C r \<and> kg_shared C r"

fun kg_gotB :: "('s, 'p) kg_round \<Rightarrow> ID set" where
  "kg_gotB (Kg1 r) = UNIV"
| "kg_gotB (Kg2 r) = set (mkeys (kg_Phi r))"
| "kg_gotB (Kg3 r) = set (mkeys (kg_ChainKeys r))"

fun kg_gotM :: "('s, 'p) kg_round \<Rightarrow> ID set" where
  "kg_gotM (Kg1 r) = UNIV"
| "kg_gotM (Kg2 r) = UNIV"
| "kg_gotM (Kg3 r) = set (mkeys (kg_shareFrom r))"

text \<open>What the protocol promises of its result: a consistent configuration of the kind asked for, with the
  parties and the threshold of the session, and with the old key after a refresh.\<close>

fun kg_result_ok :: "('s::field, 'p::ab_group_add) curve \<Rightarrow> ('s, 'p) kg_round1 \<Rightarrow> ('s, 'p) kg_result \<Rightarrow> bool" where
  "kg_result_ok C r0 (KgConfig cfg) \<longleftrightarrow> \<not> kg_taproot r0 \<and> config_ok C cfg \<and> cfg_ID cfg = kg_self r0 \<and>
     cfg_Threshold cfg = kg_threshold r0 \<and>
     mkeys (cfg_VerificationShares cfg) = mkeys (kg_verificationShares r0) \<and>
     (kg_refresh r0 \<longrightarrow> cfg_PublicKey cfg = kg_publicKey r0)"
| "kg_result_ok C r0 (KgTaproot cfg) \<longleftrightarrow> kg_taproot r0 \<and> tap_config_ok C cfg \<and> tap_ID cfg = kg_self r0 \<and>
     tap_Threshold cfg = kg_threshold r0 \<and>
     mkeys (tap_VerificationShares cfg) = mkeys (kg_verificationShares r0) \<and>
     (kg_refresh r0 \<longrightarrow> tap_PublicKey cfg = XBytes C (kg_publicKey r0))"

fun kg_final_ok :: "('s::field, 'p::ab_group_add) curve \<Rightarrow> ('s, 'p) kg_round1
    \<Rightarrow> (('s, 'p) kg_round, ('s, 'p) kg_result) session \<Rightarrow> bool" where
  "kg_final_ok C r0 (OutputRound hp res) = kg_result_ok C r0 res"
| "kg_final_ok C r0 s = False"

lemma BroadcastMessage_buf:
  "BroadcastMessage hp c out = Inr out' \<Longrightarrow> \<exists>m. oc_buf out' = oc_buf out @ [m] \<and> rm_Content m = c"
  by (auto simp: BroadcastMessage_def dest!: chan_send_Inr)

lemma SendMessage_buf:
  "SendMessage hp c l out = Inr out' \<Longrightarrow> \<exists>m. oc_buf out' = oc_buf out @ [m] \<and> rm_Content m = c"
  by (auto simp: SendMessage_def dest!: chan_send_Inr)

lemma kg_send_shares_buf:
  "kg_send_shares r ls out = Ret (Inr out') \<Longrightarrow>
     \<exists>ms. oc_buf out' = oc_buf out @ ms \<and> (\<forall>m\<in>set ms. \<exists>f. rm_Content m = KgMessage3 f)"
proof (induction ls arbitrary: out)
  case (Cons l ls)
  then obtain F out1 where s: "SendMessage (kg_Helper r) (KgMessage3 (Some F)) l out = Inr out1"
    and k: "kg_send_shares r ls out1 = Ret (Inr out')"
    by (auto elim!: obind_RetE split: sum.split_asm)
  obtain m where m: "oc_buf out1 = oc_buf out @ [m]" "rm_Content m = KgMessage3 (Some F)"
    using SendMessage_buf[OF s] by blast
  obtain ms where ms: "oc_buf out' = oc_buf out1 @ ms" "\<forall>m\<in>set ms. \<exists>f. rm_Content m = KgMessage3 f"
    using Cons.IH[OF k] by blast
  show ?case using m ms by (intro exI[of _ "m # ms"]) auto
qed simp

lemma kg_round2_StoreBroadcast_Ret:
  assumes "kg_round2_StoreBroadcast C b3 r msg = Ret (Inr r')"
  obtains phi commitment where
    "r' = r\<lparr>kg_Phi := mput (rm_From msg) phi (kg_Phi r),
       kg_ChainKeyCommitments := mput (rm_From msg) commitment (kg_ChainKeyCommitments r)\<rparr>"
    and "kg_refresh r \<Longrightarrow> Exponent_Constant phi = Ret 0"
  using assms
  by (auto simp: kg_round2_StoreBroadcast_def Let_def obind_case
      split: kg_content.split_asm option.split_asm if_split_asm outcome.split_asm)

lemma kg_round3_StoreBroadcast_Inr:
  assumes "kg_round3_StoreBroadcast b3 r msg = Inr r'"
  obtains c where "r' = r\<lparr>kg_ChainKeys := mput (rm_From msg) c (kg_ChainKeys r)\<rparr>"
  using assms
  by (auto simp: kg_round3_StoreBroadcast_def Let_def split: kg_content.split_asm option.split_asm if_split_asm)

lemma kg_round3_StoreMessage_Ret:
  assumes "kg_round3_StoreMessage C r msg = Ret (Inr r')"
  obtains f phi where "r' = r\<lparr>kg_shareFrom := mput (rm_From msg) f (kg_shareFrom r)\<rparr>"
    and "mget (kg_Phi r) (rm_From msg) = Some phi"
    and "ActOnBase C f = Exponent_Evaluate C phi (ID_Scalar (kg_self r))"
  using assms
  by (auto simp: kg_round3_StoreMessage_def Let_def split: kg_content.split_asm option.split_asm if_split_asm)

section \<open>The rounds keep it\<close>

lemma kg_base_cong:
  "kg_Helper r' = kg_Helper r \<Longrightarrow> kg_threshold r' = kg_threshold r \<Longrightarrow> kg_publicKey r' = kg_publicKey r \<Longrightarrow>
   kg_verificationShares r' = kg_verificationShares r \<Longrightarrow> kg_privateShare r' = kg_privateShare r \<Longrightarrow>
   kg_refresh r' = kg_refresh r \<Longrightarrow> kg_taproot r' = kg_taproot r \<Longrightarrow> kg_base C r0 r' = kg_base C r0 r"
  by (simp add: kg_base_def kg_from_def)

lemma kg_round1_Finalize_Ret:
  assumes "kg_round1_Finalize C b3 rnd r out = Ret (Inr (r2, out'))"
  obtains m phi where "oc_buf out' = oc_buf out @ [m]" and "kg_RoundNumber (rm_Content m) = 2"
    and "kg_Helper r2 = kg_Helper r" "kg_threshold r2 = kg_threshold r" "kg_publicKey r2 = kg_publicKey r"
      "kg_verificationShares r2 = kg_verificationShares r" "kg_privateShare r2 = kg_privateShare r"
      "kg_refresh r2 = kg_refresh r" "kg_taproot r2 = kg_taproot r"
    and "kg_f_i r2 = NewPolynomial (nat (kg_threshold r)) (Some (if kg_refresh r then 0 else kr_secret rnd)) (kr_coeffs rnd)"
    and "NewPolynomialExponent C (kg_f_i r2) = Ret phi" and "kg_Phi r2 = [(kg_self r, phi)]"
proof -
  let ?f = "NewPolynomial (nat (kg_threshold r)) (Some (if kg_refresh r then 0 else kr_secret rnd)) (kr_coeffs rnd)"
  obtain sigma phi c d u where phi: "NewPolynomialExponent C ?f = Ret phi"
    and b: "BroadcastMessage (kg_Helper r) (KgBroadcast2 (Some phi) sigma c) out = Inr out'"
    and r2: "r2 = kg_round1.extend r (kg_round2.fields ?f [(kg_self r, phi)] d [(kg_self r, u)] [])"
    using assms
    by (auto simp: kg_round1_Finalize_def Let_def elim!: obind_RetE split: option.split_asm sum.split_asm prod.split_asm)
  obtain m where "oc_buf out' = oc_buf out @ [m]" "rm_Content m = KgBroadcast2 (Some phi) sigma c"
    using BroadcastMessage_buf[OF b] by blast
  then show ?thesis
    using that phi by (simp add: r2 kg_round1.defs kg_round2.defs)
qed

lemma kg_round2_Finalize_Ret:
  assumes "kg_round2_Finalize r out = Ret (Inr (r3, out'))"
  obtains ms f where "oc_buf out' = oc_buf out @ ms" and "\<forall>m\<in>set ms. kg_RoundNumber (rm_Content m) = 3"
    and "r3 = kg_round2.extend r (kg_round3.fields [(kg_self r, f)])"
    and "Polynomial_Evaluate (kg_f_i r) (ID_Scalar (kg_self r)) = Ret f"
proof -
  obtain c out1 f where b: "BroadcastMessage (kg_Helper r) (KgBroadcast3 c (kg_ChainKeyDecommitment r)) out = Inr out1"
    and s: "kg_send_shares r (otherPartyIDs (kg_Helper r)) out1 = Ret (Inr out')"
    and f: "Polynomial_Evaluate (kg_f_i r) (ID_Scalar (kg_self r)) = Ret f"
    and r3: "r3 = kg_round2.extend r (kg_round3.fields [(kg_self r, f)])"
    using assms by (auto simp: kg_round2_Finalize_def Let_def elim!: obind_RetE split: sum.split_asm)
  obtain m where m: "oc_buf out1 = oc_buf out @ [m]" "kg_RoundNumber (rm_Content m) = 3"
    using BroadcastMessage_buf[OF b] by auto
  obtain ms where ms: "oc_buf out' = oc_buf out1 @ ms" "\<forall>m\<in>set ms. \<exists>f. rm_Content m = KgMessage3 f"
    using kg_send_shares_buf[OF s] by blast
  have "\<forall>x\<in>set (m # ms). kg_RoundNumber (rm_Content x) = 3" using m(2) ms(2) by auto
  then show ?thesis using that[of "m # ms" f] m(1) ms(1) r3 f by simp
qed

lemma Evaluate_RetD: "Polynomial_Evaluate cs x = Ret v \<Longrightarrow> x \<noteq> 0 \<and> v = peval cs x"
  using Polynomial_Evaluate_peval[of x cs] by (auto simp: Polynomial_Evaluate_def split: if_splits)

lemma Exponent_Sum_shape:
  assumes "Exponent_Sum ps = Ret (Inr s)" and "p \<in> set ps"
  shows "length (full_coeffs s) = length (full_coeffs p)"
proof -
  obtain p0 qs where ps: "ps = p0 # qs" and a: "Exponent_add_all p0 qs = Inr s"
    using assms(1) by (auto simp: Exponent_Sum_def split: list.splits)
  have "length (full_coeffs s) = length (full_coeffs p0)"
    using a
  proof (induction p0 qs rule: Exponent_add_all.induct)
    case (2 p q qs)
    then obtain r where r: "Exponent_add p q = Inr r" "Exponent_add_all r qs = Inr s"
      by (auto split: sum.split_asm)
    have "length (full_coeffs r) = length (full_coeffs p)"
      using Exponent_add_full(1,2)[OF r(1)] by simp
    then show ?case using "2.IH"[OF r] by simp
  qed simp
  moreover have "length (full_coeffs q) = length (full_coeffs p0)" if "q \<in> set qs" for q
  proof -
    have "length (coefficients q) = length (coefficients p0)" "IsConstant q = IsConstant p0"
      using Exponent_add_all_Inr_iff[of p0 qs] a that by auto
    then show ?thesis by (simp add: full_coeffs_def)
  qed
  ultimately show ?thesis using assms(2) ps by auto
qed

context curve_laws
begin

lemma Constant_evaluate: "Exponent_Constant phi = Ret c \<Longrightarrow> c = Exponent_Evaluate C phi 0"
  by (cases "coefficients phi")
    (auto simp: Exponent_Constant_def Exponent_Evaluate_full full_coeffs_def split: if_splits)

lemma kg_sum_constants_eq:
  "kg_sum_constants phis acc = Ret Y \<Longrightarrow> Y = acc + (\<Sum>phi\<leftarrow>phis. Exponent_Evaluate C phi 0)"
proof (induction phis arbitrary: acc)
  case (Cons phi phis)
  then obtain c where c: "Exponent_Constant phi = Ret c" "kg_sum_constants phis (acc + c) = Ret Y"
    by (auto elim!: obind_RetE)
  then show ?case using Cons.IH[OF c(2)] Constant_evaluate[OF c(1)] by (simp add: add.assoc)
qed simp

text \<open>Adding a polynomial in the exponent to a key and its shares.\<close>

lemma poly_shares_add:
  assumes "poly_shares C t Y shares" and "length (full_coeffs E) = Suc t"
  shows "poly_shares C t (Y + Exponent_Evaluate C E 0)
    (mmap (\<lambda>k v. v + Exponent_Evaluate C E (ID_Scalar k)) shares)"
proof -
  obtain F where F: "length F = Suc t" "Y = exp_eval C F 0"
    "\<forall>k v. mget shares k = Some v \<longrightarrow> v = exp_eval C F (ID_Scalar k)"
    using assms(1) by (auto simp: poly_shares_def)
  have e: "exp_eval C (map2 (+) F (full_coeffs E)) x = exp_eval C F x + Exponent_Evaluate C E x" for x
    using F(1) assms(2) by (simp add: exp_eval_map2_add Exponent_Evaluate_full)
  show ?thesis
    unfolding poly_shares_def
    by (rule exI[of _ "map2 (+) F (full_coeffs E)"]) (use F assms(2) in \<open>auto simp: e mget_mmap split: option.splits\<close>)
qed

lemma exp_eval_uminus: "exp_eval C (map uminus F) x = - exp_eval C F x"
  by (induction F) (auto simp: act_minus_right)

lemma poly_shares_uminus:
  "poly_shares C t Y shares \<Longrightarrow> poly_shares C t (- Y) (mmap (\<lambda>i y. - y) shares)"
  unfolding poly_shares_def
  by (elim exE, rule_tac x = "map uminus F" in exI) (auto simp: exp_eval_uminus mget_mmap split: option.splits)

lemma kg_good_round1:
  assumes "kg_base C r0 r" and "kg_round1_Finalize C b3 rnd r out = Ret (Inr (r2, out'))"
  shows "kg_base C r0 r2 \<and> kg_committed C r2"
  using assms(2)
proof (rule kg_round1_Finalize_Ret)
  fix m phi
  assume f: "kg_Helper r2 = kg_Helper r" "kg_threshold r2 = kg_threshold r" "kg_publicKey r2 = kg_publicKey r"
      "kg_verificationShares r2 = kg_verificationShares r" "kg_privateShare r2 = kg_privateShare r"
      "kg_refresh r2 = kg_refresh r" "kg_taproot r2 = kg_taproot r"
    and fi: "kg_f_i r2 = NewPolynomial (nat (kg_threshold r)) (Some (if kg_refresh r then 0 else kr_secret rnd)) (kr_coeffs rnd)"
    and phi: "NewPolynomialExponent C (kg_f_i r2) = Ret phi" "kg_Phi r2 = [(kg_self r, phi)]"
  have base: "kg_base C r0 r2" using assms(1) kg_base_cong[OF f] by simp
  have "Exponent_Constant phi = Ret 0" if "kg_refresh r"
    using phi(1) fi that by (auto simp: NewPolynomial_def NewPolynomialExponent_def Exponent_Constant_def)
  then have "kg_committed C r2"
    using base phi f fi by (auto simp: kg_committed_def mkeys_def kg_base_def session_ok_def)
  then show ?thesis using base by blast
qed

lemma kg_good_round2:
  assumes "kg_base C r0 r" and "kg_committed C r" and "set (otherPartyIDs (kg_Helper r)) \<subseteq> set (mkeys (kg_Phi r))"
    and "kg_round2_Finalize r out = Ret (Inr (r3, out'))"
  shows "kg_base C r0 r3 \<and> kg_committed C r3 \<and> kg_shared C r3"
  using assms(4)
proof (rule kg_round2_Finalize_Ret)
  fix f
  assume r3: "r3 = kg_round2.extend r (kg_round3.fields [(kg_self r, f)])"
    and f: "Polynomial_Evaluate (kg_f_i r) (ID_Scalar (kg_self r)) = Ret f"
  have acc: "kg_Helper r3 = kg_Helper r" "kg_threshold r3 = kg_threshold r" "kg_publicKey r3 = kg_publicKey r"
      "kg_verificationShares r3 = kg_verificationShares r" "kg_privateShare r3 = kg_privateShare r"
      "kg_refresh r3 = kg_refresh r" "kg_taproot r3 = kg_taproot r" "kg_Phi r3 = kg_Phi r" "kg_f_i r3 = kg_f_i r"
      "kg_shareFrom r3 = [(kg_self r, f)]"
    by (simp_all add: r3 kg_round2.defs kg_round3.defs)
  have "kg_base C r0 r3" "kg_committed C r3"
    using assms(1,2) kg_base_cong[OF acc(1-7)] acc by (simp_all add: kg_committed_def)
  moreover have "kg_shared C r3"
  proof -
    obtain phi where phi: "mget (kg_Phi r) (kg_self r) = Some phi" "NewPolynomialExponent C (kg_f_i r) = Ret phi"
      using assms(2) by (auto simp: kg_committed_def)
    have "kg_self r \<in> set (mkeys (kg_Phi r))" using phi(1) by (auto simp: set_mkeys)
    then have "set (mkeys (kg_Phi r)) = set (partyIDs (kg_Helper r))"
      using assms(1-3) by (auto simp: kg_base_def kg_committed_def session_ok_def)
    then show ?thesis
      using phi exponent_homomorphism[OF phi(2)] Evaluate_RetD[OF f] acc by (auto simp: kg_shared_def mkeys_def)
  qed
  ultimately show ?thesis by blast
qed

lemma foldl_add_sum_list: "foldl (+) a xs = a + sum_list xs" for a :: "'a::comm_monoid_add"
  by (induction xs arbitrary: a) (simp_all add: add.assoc)

text \<open>The sum of the received shares is the value of the summed polynomial at our identifier.\<close>

lemma kg_shares_sum:
  assumes base: "kg_base C r0 r" and com: "kg_committed C r" and sh: "kg_shared C r"
    and all: "set (otherPartyIDs (kg_Helper r)) \<subseteq> set (mkeys (kg_shareFrom r))"
    and E: "Exponent_Sum (mvals (kg_Phi r)) = Ret (Inr E)"
  shows "ActOnBase C (foldl (+) s (mvals (kg_shareFrom r))) =
    ActOnBase C s + Exponent_Evaluate C E (ID_Scalar (kg_self r))"
proof -
  let ?x = "ID_Scalar (kg_self r)"
  have entry: "\<exists>phi. mget (kg_Phi r) k = Some phi \<and> ActOnBase C f = Exponent_Evaluate C phi ?x"
    if "mget (kg_shareFrom r) k = Some f" for k f
    using sh that unfolding kg_shared_def by blast
  have "set (mkeys (kg_shareFrom r)) \<subseteq> set (mkeys (kg_Phi r))"
    using entry unfolding set_mkeys dom_def by blast
  moreover have "set (mkeys (kg_Phi r)) \<subseteq> set (mkeys (kg_shareFrom r))"
    using sh all base by (auto simp: kg_shared_def kg_base_def session_ok_def)
  ultimately have keys: "set (mkeys (kg_shareFrom r)) = set (mkeys (kg_Phi r))" by blast
  have pt: "ActOnBase C (the (mget (kg_shareFrom r) k)) = Exponent_Evaluate C (the (mget (kg_Phi r) k)) ?x"
    if k: "k \<in> set (mkeys (kg_Phi r))" for k
  proof -
    have "k \<in> set (mkeys (kg_shareFrom r))" using k keys by simp
    then obtain f where "mget (kg_shareFrom r) k = Some f" unfolding set_mkeys by blast
    then show ?thesis using entry by fastforce
  qed
  have "(\<Sum>f\<leftarrow>mvals (kg_shareFrom r). ActOnBase C f)
      = (\<Sum>k\<in>set (mkeys (kg_Phi r)). ActOnBase C (the (mget (kg_shareFrom r) k)))"
    using sh unfolding keys[symmetric] by (intro sum_list_mvals) (simp add: kg_shared_def)
  also have "\<dots> = (\<Sum>k\<in>set (mkeys (kg_Phi r)). Exponent_Evaluate C (the (mget (kg_Phi r) k)) ?x)"
    by (rule sum.cong[OF refl pt])
  also have "\<dots> = (\<Sum>phi\<leftarrow>mvals (kg_Phi r). Exponent_Evaluate C phi ?x)"
    using com by (simp add: sum_list_mvals kg_committed_def)
  finally show ?thesis
    using Exponent_Sum_evaluate[OF E, of ?x] act_base_sum_list[of id "mvals (kg_shareFrom r)"]
    by (simp add: foldl_add_sum_list act_base_add)
qed

text \<open>A refresh does not change the public key.\<close>

lemma kg_refresh_key:
  assumes "kg_committed C r" and "kg_refresh r"
    and "kg_sum_constants (mvals (kg_Phi r)) acc = Ret Y"
  shows "Y = acc"
proof -
  have zero: "kg_sum_constants phis acc = Ret acc" if "\<forall>phi\<in>set phis. Exponent_Constant phi = Ret 0"
    for phis and acc :: 'p using that by (induction phis) auto
  have "\<forall>phi\<in>set (mvals (kg_Phi r)). Exponent_Constant phi = Ret 0"
  proof
    fix phi assume "phi \<in> set (mvals (kg_Phi r))"
    then obtain l where "(l, phi) \<in> set (kg_Phi r)" by (auto simp: mvals_def)
    then have "mget (kg_Phi r) l = Some phi" using assms(1) by (simp add: kg_committed_def mwf_def)
    then show "Exponent_Constant phi = Ret 0" using assms(1,2) by (auto simp: kg_committed_def)
  qed
  then show ?thesis using zero[of _ acc] assms(3) by simp
qed

text \<open>The core of the protocol: whatever the other parties sent, if finalizing returns then our share
  matches our verification share, and key and shares lie on one polynomial of the right degree.\<close>

lemma kg_good_round3:
  assumes base: "kg_base C r0 r" and com: "kg_committed C r" and sh: "kg_shared C r"
    and all: "set (otherPartyIDs (kg_Helper r)) \<subseteq> set (mkeys (kg_shareFrom r))"
    and fin: "kg_round3_Finalize C r = Ret res"
  shows "kg_result_ok C r0 res"
proof -
  let ?self = "kg_self r" and ?t = "nat (kg_threshold r)"
  obtain Y E where Y: "kg_sum_constants (mvals (kg_Phi r)) (kg_publicKey r) = Ret Y"
    and E: "Exponent_Sum (mvals (kg_Phi r)) = Ret (Inr E)"
    using fin by (auto simp: kg_round3_Finalize_def Let_def elim!: obind_RetE split: sum.split_asm)
  define s where "s = foldl (+) (kg_privateShare r) (mvals (kg_shareFrom r))"
  define VS where "VS = mmap (\<lambda>k v. v + Exponent_Evaluate C E (ID_Scalar k)) (kg_verificationShares r)"
  obtain phi where phi: "mget (kg_Phi r) ?self = Some phi" "NewPolynomialExponent C (kg_f_i r) = Ret phi"
    "length (kg_f_i r) = Suc ?t" using com by (auto simp: kg_committed_def)
  have "phi \<in> set (mvals (kg_Phi r))" using phi(1) by (force simp: mvals_def dest: map_of_SomeD)
  then have "length (full_coeffs E) = Suc ?t"
    using Exponent_Sum_shape[OF E] full_coeffs_New[OF phi(2)] phi(3) by simp
  then have ps: "poly_shares C ?t Y VS"
    using poly_shares_add[of ?t "kg_publicKey r" "kg_verificationShares r" E] base
      kg_sum_constants_eq[OF Y] Exponent_Sum_evaluate[OF E, of 0]
    by (simp add: VS_def kg_base_def)
  have own: "mget VS ?self = Some (ActOnBase C s)"
    using base kg_shares_sum[OF base com sh all E, of "kg_privateShare r"] by (simp add: VS_def s_def kg_base_def)
  have same: "kg_refresh r0 \<Longrightarrow> Y = kg_publicKey r"
    using kg_refresh_key[OF com _ Y] base by (simp add: kg_base_def kg_from_def)
  have from0: "kg_from r0 r" using base by (simp add: kg_base_def)
  have keys: "mkeys VS = mkeys (kg_verificationShares r)" by (simp add: VS_def)
  show ?thesis
  proof (cases "kg_taproot r")
    case False
    then have "res = KgConfig \<lparr>cfg_ID = ?self, cfg_Threshold = kg_threshold r, cfg_PrivateShare = s,
        cfg_PublicKey = Y, cfg_ChainKey = [], cfg_VerificationShares = VS\<rparr>"
      using fin Y E by (auto simp: kg_round3_Finalize_def Let_def s_def VS_def elim!: obind_RetE)
    then show ?thesis using ps own same keys from0 False by (auto simp: config_ok_def kg_from_def)
  next
    case True
    define Y' where "Y' = (if HasEvenY C Y then Y else - Y)"
    define VS' where "VS' = (if HasEvenY C Y then VS else mmap (\<lambda>i y. - y) VS)"
    define s' where "s' = (if HasEvenY C Y then s else - s)"
    have res: "res = KgTaproot \<lparr>tap_ID = ?self, tap_Threshold = kg_threshold r, tap_PrivateShare = s',
        tap_PublicKey = XBytes C Y, tap_ChainKey = [], tap_VerificationShares = VS'\<rparr>"
      using fin Y E True
      by (auto simp: kg_round3_Finalize_def Let_def s_def s'_def VS'_def VS_def elim!: obind_RetE)
    have "XBytes C Y = XBytes C Y' \<and> (Y' \<noteq> 0 \<longrightarrow> HasEvenY C Y')"
      using pYOdd_neg[of Y] by (auto simp: Y'_def XBytes_neg HasEvenY_def)
    moreover have "poly_shares C ?t Y' VS'"
      using ps poly_shares_uminus[OF ps] by (simp add: Y'_def VS'_def)
    moreover have "mget VS' ?self = Some (ActOnBase C s')"
      using own by (simp add: VS'_def s'_def act_base_minus)
    ultimately show ?thesis
      using same keys from0 True unfolding res kg_result_ok.simps tap_config_ok_def kg_from_def
      by (auto intro: exI[of _ Y'] simp: VS'_def)
  qed
qed

end

section \<open>Key generation on the protocol engine\<close>

text \<open>The rounds of key generation fulfil the contract of the engine, for every encoding of the
  messages, all randomness and every order of map iteration.\<close>

locale frost_keygen = curve_laws C for C :: "('s::field, 'p::ab_group_add) curve" +
  fixes b3 :: xof and codec :: "('s, 'p) kg_codec" and rnd :: "'s kg_rand"
    and order :: "(ID \<times> Message) list \<Rightarrow> (ID \<times> Message) list" and r0 :: "('s, 'p) kg_round1"
  assumes order_perm: "set (order q) = set q"
begin

lemma kg_store_keeps:
  assumes "kg_good C r0 r" and "kg_store C r m = Ret (Inr r')"
  shows "kg_good C r0 r' \<and> kg_helper_of r' = kg_helper_of r \<and> kg_Number r' = kg_Number r \<and>
    kg_isBroadcast r' = kg_isBroadcast r \<and> kg_hasContent r' = kg_hasContent r \<and>
    kg_gotB r \<subseteq> kg_gotB r' \<and> insert (rm_From m) (kg_gotM r) \<subseteq> kg_gotM r'"
proof (cases r)
  case (Kg3 x)
  then obtain y where y: "kg_round3_StoreMessage C x m = Ret (Inr y)" "r' = Kg3 y"
    using assms(2) by (auto elim!: obind_RetE map_sum_InrE)
  from y(1) show ?thesis
  proof (rule kg_round3_StoreMessage_Ret)
    fix f phi
    assume u: "y = x\<lparr>kg_shareFrom := mput (rm_From m) f (kg_shareFrom x)\<rparr>"
      "mget (kg_Phi x) (rm_From m) = Some phi" "ActOnBase C f = Exponent_Evaluate C phi (ID_Scalar (kg_self x))"
    have "kg_base C r0 y" "kg_committed C y" "kg_shared C y"
      using assms(1) Kg3 u by (auto simp: kg_base_def kg_committed_def kg_shared_def)
    then show ?thesis using y(2) Kg3 u(1) by auto
  qed
qed (use assms in auto)

lemma kg_storeBroadcast_keeps:
  assumes "kg_good C r0 r" and "kg_storeBroadcast C b3 r m = Ret (Inr r')"
    and o: "rm_From m \<in> set (otherPartyIDs (kg_helper_of r))"
  shows "kg_good C r0 r' \<and> kg_helper_of r' = kg_helper_of r \<and> kg_Number r' = kg_Number r \<and>
    kg_isBroadcast r' = kg_isBroadcast r \<and> kg_hasContent r' = kg_hasContent r \<and>
    kg_gotM r \<subseteq> kg_gotM r' \<and> insert (rm_From m) (kg_gotB r) \<subseteq> kg_gotB r'"
proof (cases r)
  case (Kg2 x)
  then obtain y where y: "kg_round2_StoreBroadcast C b3 x m = Ret (Inr y)" "r' = Kg2 y"
    using assms(2) by (auto elim!: obind_RetE map_sum_InrE)
  from y(1) show ?thesis
  proof (rule kg_round2_StoreBroadcast_Ret)
    fix phi commitment
    assume u: "y = x\<lparr>kg_Phi := mput (rm_From m) phi (kg_Phi x),
        kg_ChainKeyCommitments := mput (rm_From m) commitment (kg_ChainKeyCommitments x)\<rparr>"
      "kg_refresh x \<Longrightarrow> Exponent_Constant phi = Ret 0"
    have "rm_From m \<noteq> kg_self x" "rm_From m \<in> set (partyIDs (kg_Helper x))"
      using o assms(1) Kg2 by (auto simp: kg_base_def session_ok_def)
    then have "kg_base C r0 y" "kg_committed C y"
      using assms(1) Kg2 u by (auto simp: kg_base_def kg_committed_def)
    then show ?thesis using y(2) Kg2 u(1) by auto
  qed
next
  case (Kg3 x)
  then obtain y where y: "kg_round3_StoreBroadcast b3 x m = Inr y" "r' = Kg3 y"
    using assms(2) by (auto elim!: map_sum_InrE)
  from y(1) show ?thesis
  proof (rule kg_round3_StoreBroadcast_Inr)
    fix c assume u: "y = x\<lparr>kg_ChainKeys := mput (rm_From m) c (kg_ChainKeys x)\<rparr>"
    have "kg_base C r0 y" "kg_committed C y" "kg_shared C y"
      using assms(1) Kg3 u by (auto simp: kg_base_def kg_committed_def kg_shared_def)
    then show ?thesis using y(2) Kg3 u by auto
  qed
qed (use assms in auto)

lemma kg_finalize_cases:
  assumes "kg_finalize C b3 rnd r cap = Ret (Inr (x, out))"
  obtains (r1) r1 r2 out' where "r = Kg1 r1" "x = Some (Live (Kg2 r2))" "out = oc_buf out'"
      "kg_round1_Finalize C b3 rnd r1 \<lparr>oc_cap = cap, oc_buf = []\<rparr> = Ret (Inr (r2, out'))"
  | (r2) r2 r3 out' where "r = Kg2 r2" "x = Some (Live (Kg3 r3))" "out = oc_buf out'"
      "kg_round2_Finalize r2 \<lparr>oc_cap = cap, oc_buf = []\<rparr> = Ret (Inr (r3, out'))"
  | (r3) r3 res where "r = Kg3 r3" "x = Some (OutputRound (kg_Helper r3) res)" "out = []"
      "kg_round3_Finalize C r3 = Ret res"
  using assms
  by (cases r) (auto elim!: obind_RetE map_sum_InrE split: prod.splits)

end

sublocale frost_keygen \<subseteq> kg: round_protocol "kg_runtime C b3 codec rnd order" "kg_good C r0"
    kg_gotB kg_gotM "kg_final_ok C r0"
proof
  let ?rt = "kg_runtime C b3 codec rnd order"
  fix r m r'
  assume "kg_good C r0 r" "r_store (ops ?rt) r m = Ret (Inr r')"
  then show "same_round (ops ?rt) r r' \<and> kg_good C r0 r' \<and> kg_gotB r \<subseteq> kg_gotB r' \<and>
      insert (rm_From m) (kg_gotM r) \<subseteq> kg_gotM r'"
    using kg_store_keeps[of r m r'] by (simp add: kg_runtime_def same_round_def)
next
  let ?rt = "kg_runtime C b3 codec rnd order"
  fix r m r'
  assume "kg_good C r0 r" "rm_From m \<in> set (otherPartyIDs (r_helper (ops ?rt) r))"
    "r_storeBroadcast (ops ?rt) r m = Ret (Inr r')"
  then show "same_round (ops ?rt) r r' \<and> kg_good C r0 r' \<and> kg_gotM r \<subseteq> kg_gotM r' \<and>
      insert (rm_From m) (kg_gotB r) \<subseteq> kg_gotB r'"
    using kg_storeBroadcast_keeps[of r m r'] by (simp add: kg_runtime_def same_round_def)
next
  let ?rt = "kg_runtime C b3 codec rnd order"
  fix r cap x out
  assume g: "kg_good C r0 r" and c: "complete (ops ?rt) kg_gotB kg_gotM r"
    and f: "r_finalize (ops ?rt) r cap = Ret (Inr (x, out))"
  have "kg_finalize C b3 rnd r cap = Ret (Inr (x, out))" using f by (simp add: kg_runtime_def)
  then show "\<exists>s. x = Some s \<and> same_session (r_helper (ops ?rt) r) (s_helper (ops ?rt) s) \<and>
      (\<forall>r'. s = Live r' \<longrightarrow> kg_good C r0 r' \<and> r_number (ops ?rt) r' = r_number (ops ?rt) r + 1) \<and>
      ((\<forall>r'. s \<noteq> Live r') \<longrightarrow> kg_final_ok C r0 s)"
  proof (cases rule: kg_finalize_cases)
    case (r1 a r2 out')
    from r1(4) have "kg_Helper r2 = kg_Helper a" by (rule kg_round1_Finalize_Ret)
    then show ?thesis using r1 g kg_good_round1[OF _ r1(4), of r0] by (simp add: kg_runtime_def)
  next
    case (r2 a r3 out')
    from r2(4) have h: "kg_Helper r3 = kg_Helper a"
      by (rule kg_round2_Finalize_Ret) (simp add: kg_round2.defs)
    have "set (otherPartyIDs (kg_Helper a)) \<subseteq> set (mkeys (kg_Phi a))"
      using c r2(1) by (simp add: complete_def kg_runtime_def)
    then show ?thesis using r2 g h kg_good_round2[OF _ _ _ r2(4), of r0] by (simp add: kg_runtime_def)
  next
    case (r3 a res)
    have "set (otherPartyIDs (kg_Helper a)) \<subseteq> set (mkeys (kg_shareFrom a))"
      using c r3(1) by (simp add: complete_def kg_runtime_def)
    then show ?thesis using r3 g kg_good_round3[OF _ _ _ _ r3(4), of r0] by (simp add: kg_runtime_def)
  qed
next
  let ?rt = "kg_runtime C b3 codec rnd order"
  fix r cap x out m
  assume "r_finalize (ops ?rt) r cap = Ret (Inr (x, out))" and m: "m \<in> set out"
  then have "kg_finalize C b3 rnd r cap = Ret (Inr (x, out))" by (simp add: kg_runtime_def)
  then show "r_contentRound (ops ?rt) (rm_Content m) = r_number (ops ?rt) r + 1"
  proof (cases rule: kg_finalize_cases)
    case (r1 a r2 out')
    from r1(4) show ?thesis
      by (rule kg_round1_Finalize_Ret) (use r1 m in \<open>simp add: kg_runtime_def\<close>)
  next
    case (r2 a r3 out')
    from r2(4) show ?thesis
      by (rule kg_round2_Finalize_Ret) (use r2 m in \<open>simp add: kg_runtime_def\<close>)
  qed (use m in simp)
next
  let ?rt = "kg_runtime C b3 codec rnd order"
  fix r
  assume "kg_good C r0 r"
  then have "session_ok (kg_helper_of r)" "FinalRoundNumber (info (kg_helper_of r)) = 3"
    by (cases r; simp add: kg_base_def)+
  then show "session_ok (r_helper (ops ?rt) r)"
    "1 \<le> r_number (ops ?rt) r \<and> r_number (ops ?rt) r \<le> FinalRoundNumber (info (r_helper (ops ?rt) r)) \<and>
      FinalRoundNumber (info (r_helper (ops ?rt) r)) < - 1"
    by (cases r; simp add: kg_runtime_def)+
next
  let ?rt = "kg_runtime C b3 codec rnd order"
  fix r
  assume "r_isBroadcast (ops ?rt) r \<or> r_hasContent (ops ?rt) r"
  then show "2 \<le> r_number (ops ?rt) r" by (cases r) (simp_all add: kg_runtime_def)
next
  show "set (range_order (kg_runtime C b3 codec rnd order) q) = set q" for q
    by (simp add: kg_runtime_def order_perm)
qed

section \<open>Starting key generation\<close>

lemma NewSession_ok:
  assumes "NewSession b3 nfo sid aux = Inr hp"
  shows "session_ok hp" and "info hp = nfo" and "length (partyIDs hp) = length (PartyIDs nfo)"
proof -
  note n = NewSession_rejects[OF assms]
  have v: "Valid (NewIDSlice (PartyIDs nfo))" using n(1) by (simp add: Valid_NewIDSlice)
  have "length (Remove (NewIDSlice (PartyIDs nfo)) (SelfID nfo)) < length (NewIDSlice (PartyIDs nfo))"
    unfolding Remove_def by (rule length_filter_less[of "SelfID nfo"]) (use n(2) in \<open>simp_all add: set_NewIDSlice\<close>)
  then show "session_ok hp"
    using n v set_Remove[of "NewIDSlice (PartyIDs nfo)"] by (simp add: session_ok_def set_NewIDSlice Helper_N_def)
  show "info hp = nfo" "length (partyIDs hp) = length (PartyIDs nfo)"
    using n by (simp_all add: length_NewIDSlice)
qed

lemma mget_foldl_put: "mget (foldl (\<lambda>m k. mput k v m) m ks) k = (if k \<in> set ks then Some v else mget m k)"
  by (induction ks arbitrary: m) auto

context curve_laws
begin

lemma exp_eval_replicate_zero: "exp_eval C (replicate n 0) x = 0"
  by (induction n) auto

lemma StartKeygen_fresh:
  assumes "StartKeygenCommon C b3 taproot participants t self [] (None, None) sid = (captured, Inr r)"
  shows "kg_base C r r" and "\<not> kg_refresh r" and "kg_taproot r = taproot" and "kg_threshold r = t"
    and "kg_self r = self" and "set (mkeys (kg_verificationShares r)) = set participants" and "0 \<le> t"
proof -
  obtain nfo hp where ns: "NewSession b3 nfo sid [] = Inr hp" "SelfID nfo = self" "PartyIDs nfo = participants"
      "FinalRoundNumber nfo = 3" "Threshold nfo = t"
    and r: "r = \<lparr>kg_Helper = hp, kg_taproot = taproot, kg_threshold = t, kg_refresh = False, kg_privateShare = 0,
      kg_verificationShares = foldl (\<lambda>m k. mput k 0 m) [] participants, kg_publicKey = 0\<rparr>"
    using assms by (auto simp: StartKeygenCommon_def Let_def split: sum.split_asm option.split_asm)
  have shares: "mget (kg_verificationShares r) k = (if k \<in> set participants then Some 0 else None)" for k
    by (simp add: r mget_foldl_put)
  have "poly_shares C (nat t) 0 (kg_verificationShares r)"
    unfolding poly_shares_def
    by (rule exI[of _ "replicate (Suc (nat t)) 0"]) (auto simp: exp_eval_replicate_zero shares split: if_splits)
  then show "kg_base C r r"
    using NewSession_ok[OF ns(1)] NewSession_rejects(2)[OF ns(1)] ns(2-4) shares act_base_zero[of 0]
    by (simp add: kg_base_def kg_from_def r)
  show "\<not> kg_refresh r" "kg_taproot r = taproot" "kg_threshold r = t" by (simp_all add: r)
  show "kg_self r = self" using NewSession_ok(2)[OF ns(1)] ns(2) by (simp add: r)
  show "0 \<le> t" using NewSession_rejects(3)[OF ns(1)] ns(5) by simp
  show "set (mkeys (kg_verificationShares r)) = set participants"
    unfolding set_mkeys dom_def using shares by simp
qed

lemma StartKeygen_refresh:
  assumes "StartKeygenCommon C b3 taproot participants t self shares (Some s, Some Y) sid = (captured', Inr r)"
    and "poly_shares C (nat t) Y shares" and "mget shares self = Some (ActOnBase C s)"
  shows "kg_base C r r" and "kg_refresh r" and "kg_publicKey r = Y" and "kg_taproot r = taproot"
    and "kg_threshold r = t" and "kg_self r = self" and "kg_verificationShares r = shares"
proof -
  obtain nfo hp where ns: "NewSession b3 nfo sid [] = Inr hp" "SelfID nfo = self" "FinalRoundNumber nfo = 3"
    and r: "r = \<lparr>kg_Helper = hp, kg_taproot = taproot, kg_threshold = t, kg_refresh = True, kg_privateShare = s,
      kg_verificationShares = shares, kg_publicKey = Y\<rparr>"
    using assms(1) by (auto simp: StartKeygenCommon_def Let_def split: sum.split_asm)
  show "kg_base C r r"
    using NewSession_ok[OF ns(1)] ns(2,3) assms(2,3) by (simp add: kg_base_def kg_from_def r)
  show "kg_refresh r" "kg_publicKey r = Y" "kg_taproot r = taproot" "kg_threshold r = t"
    "kg_verificationShares r = shares" by (simp_all add: r)
  show "kg_self r = self" using NewSession_ok(2)[OF ns(1)] ns(2) by (simp add: r)
qed

end

context frost_keygen
begin

lemma keygen_result:
  assumes "reachable (kg_runtime C b3 codec rnd order) (Live (Kg1 r)) h" and "kg_base C r0 r"
    and "Result h = Inr res"
  shows "kg_result_ok C r0 res"
proof -
  have "kg_good C r0 (Kg1 r)" using assms(2) by simp
  moreover have "r_number (ops (kg_runtime C b3 codec rnd order)) (Kg1 r) = 1" by (simp add: kg_runtime_def)
  ultimately obtain hp where "kg_final_ok C r0 (OutputRound hp res)"
    using kg.reachable_result[OF assms(1) _ _ assms(3)] by blast
  then show ?thesis by simp
qed

end

context frost_keygen
begin

lemma keygen_inv:
  assumes "reachable (kg_runtime C b3 codec rnd order) (Live (Kg1 r)) h" and "kg_base C r0 r"
  shows "hash_inv (kg_runtime C b3 codec rnd order) h" and "echo_inv (kg_runtime C b3 codec rnd order) h"
    and "mget (rounds h) n = Some s \<Longrightarrow> n \<noteq> 0 \<Longrightarrow>
      s_helper (ops (kg_runtime C b3 codec rnd order)) s = kg_Helper r0"
proof -
  let ?rt = "kg_runtime C b3 codec rnd order"
  have "kg_good C r0 (Kg1 r)" using assms(2) by simp
  moreover have "r_number (ops ?rt) (Kg1 r) = 1" by (simp add: kg_runtime_def)
  ultimately have "core_inv ?rt kg.ok (r_helper (ops ?rt) (Kg1 r)) h"
    using kg.inv_reachable[OF assms(1)] unfolding handler_inv_def running_def ended_def by blast
  then have c: "rounds_inv ?rt kg.ok (r_helper (ops ?rt) (Kg1 r)) h" "hash_inv ?rt h" "echo_inv ?rt h"
    by (simp_all add: core_inv_def)
  show "hash_inv ?rt h" "echo_inv ?rt h" using c by simp_all
  assume "mget (rounds h) n = Some s" and "n \<noteq> 0"
  then have s: "s_number (ops ?rt) s \<noteq> 0" "kg.ok s" using c(1) unfolding rounds_inv_def by blast+
  show "s_helper (ops ?rt) s = kg_Helper r0"
  proof (cases s)
    case (Live x)
    then show ?thesis using s(2) by (cases x) (simp_all add: kg_runtime_def kg_base_def kg_from_def)
  qed (use s(1) in simp_all)
qed

end

text \<open>All parties of a session derive the same party set and hash state.\<close>

lemma NewSession_any_self:
  assumes "NewSession b3 nfo sid aux = Inr hp" and "NewSession b3 (nfo\<lparr>SelfID := self\<rparr>) sid aux = Inr hp'"
  shows "partyIDs hp' = partyIDs hp \<and> hstate hp' = hstate hp \<and> ssid hp' = ssid hp"
proof -
  have "hstate hp' = hstate hp"
    using NewSession_hstate[OF assms(1)] NewSession_hstate[OF assms(2)] by (simp add: session_hash_def)
  then show ?thesis
    using NewSession_rejects(6,8)[OF assms(1)] NewSession_rejects(6,8)[OF assms(2)] by simp
qed

lemma StartKeygen_same_session:
  assumes "StartKeygenCommon C b3 taproot participants t a sh1 cap1 sid = (c1, Inr r1)"
    and "StartKeygenCommon C b3 taproot participants t b sh2 cap2 sid = (c2, Inr r2)"
  shows "partyIDs (kg_Helper r2) = partyIDs (kg_Helper r1) \<and> hstate (kg_Helper r2) = hstate (kg_Helper r1) \<and>
    ssid (kg_Helper r2) = ssid (kg_Helper r1)"
proof -
  define nfo where "nfo = \<lparr>ProtocolID = (if taproot then ''frost/keygen-threshold-taproot'' else ''frost/keygen-threshold''),
    FinalRoundNumber = 3, SelfID = a, PartyIDs = participants, Threshold = t, Group = Some (Name C)\<rparr>"
  have "NewSession b3 nfo sid [] = Inr (kg_Helper r1)"
    using assms(1) by (auto simp: StartKeygenCommon_def nfo_def Let_def split: sum.split_asm option.split_asm prod.split_asm)
  moreover have "NewSession b3 (nfo\<lparr>SelfID := b\<rparr>) sid [] = Inr (kg_Helper r2)"
    using assms(2) by (auto simp: StartKeygenCommon_def nfo_def Let_def split: sum.split_asm option.split_asm prod.split_asm)
  ultimately show ?thesis by (rule NewSession_any_self)
qed

lemma frost_keygenI:
  "curve_laws C \<Longrightarrow> (\<And>q. set (order q) = set q) \<Longrightarrow> frost_keygen C order"
  by (intro frost_keygen.intro frost_keygen_axioms.intro)

context curve_laws
begin

lemma poly_shares_interpolate:
  assumes "poly_shares C t Y shares" and "good_ids C ids" and "t < length ids" and "set ids \<subseteq> set (mkeys shares)"
  shows "(\<Sum>j\<leftarrow>ids. Act C (lambda_of C ids j) (the (mget shares j))) = Y"
proof -
  obtain F where F: "length F = Suc t" "Y = exp_eval C F 0"
    "\<And>k v. mget shares k = Some v \<Longrightarrow> v = exp_eval C F (ID_Scalar k)"
    using assms(1) by (auto simp: poly_shares_def)
  have "the (mget shares j) = exp_eval C F (ID_Scalar j)" if "j \<in> set ids" for j
    using that assms(4) F(3)[of j] by (auto simp: set_mkeys)
  then show ?thesis
    using exp_interpolates[OF assms(2), of F] F assms(3) by (simp cong: map_cong)
qed

end

end
