(* ===== verification/Taproot.thy ===== *)
theory Taproot
  imports CurveInstance Hash
begin

text \<open>
  BIP-340 signatures: \<open>pkg/taproot/signature.go\<close>. \<open>crypto/sha256\<close> is the parameter \<open>sha256\<close>;
  random bytes are arguments, and the package's \<open>signatureCounter\<close> is passed through \<open>Sign\<close>.
\<close>

definition TaggedHash :: "(bytes \<Rightarrow> bytes) \<Rightarrow> string \<Rightarrow> bytes list \<Rightarrow> bytes" where
  "TaggedHash sha256 tag datas =
     (let tagSum = sha256 (str_bytes tag) in sha256 (tagSum @ tagSum @ concat datas))"

definition SecretKey_Public :: "('s::field, 'p) curve \<Rightarrow> bytes \<Rightarrow> go_error + bytes" where
  "SecretKey_Public C s = (case Scalar_UnmarshalBinary C 0 s of
       (scalar, err) \<Rightarrow> if err \<noteq> None \<or> scalar = 0 then Inl (Err ''invalid secret key'')
         else Inr (XBytes C (ActOnBase C scalar)))"

text \<open>\<open>GenKey\<close> reads 32 bytes until they are a valid key. The argument lists what successive reads
  return (\<open>None\<close>: the reader fails); the result is \<open>None\<close> when more reads would be needed.\<close>

fun GenKey :: "('s::field, 'p) curve \<Rightarrow> bytes option list \<Rightarrow> (go_error + bytes \<times> bytes) option" where
  "GenKey C [] = None"
| "GenKey C (None # rs) = Some (Inl (Err ''read error''))"
| "GenKey C (Some secret # rs) = (case SecretKey_Public C secret of
     Inr public \<Rightarrow> Some (Inr (secret, public)) | Inl _ \<Rightarrow> GenKey C rs)"

definition SignatureLen :: nat where
  "SignatureLen = 64"

text \<open>The source of the auxiliary bytes of \<open>Sign\<close>: a reader and what it returns, or nil.\<close>

datatype sign_rand = Rand "bytes option" | NoRand

fun sign_aux :: "sign_rand \<Rightarrow> 64 word \<Rightarrow> (go_error + bytes) \<times> 64 word" where
  "sign_aux (Rand None) ctr = (Inl (Err ''read error''), ctr)"
| "sign_aux (Rand (Some a)) ctr = (Inr a, ctr)"
| "sign_aux NoRand ctr = (Inr (be_bytes 8 (unat (ctr + 1)) @ replicate 24 0), ctr + 1)"

text \<open>The loop of \<open>Sign\<close> starts with \<open>k = 0\<close> and returns an error when the derived nonce is 0, so
  its body runs exactly once. The errors of \<open>UnmarshalBinary\<close> on hashes are ignored.\<close>

definition SecretKey_Sign ::
    "('s::field, 'p) curve \<Rightarrow> (bytes \<Rightarrow> bytes) \<Rightarrow> bytes \<Rightarrow> sign_rand \<Rightarrow> bytes \<Rightarrow> 64 word
      \<Rightarrow> (go_error + bytes) \<times> 64 word" where
  "SecretKey_Sign C sha256 sk rnd m ctr = (case Scalar_UnmarshalBinary C 0 sk of
     (d0, err) \<Rightarrow>
       if err \<noteq> None \<or> d0 = 0 then (Inl (Err ''invalid secret key''), ctr)
       else let P = ActOnBase C d0;
                PBytes = XBytes C P;
                d = (if \<not> HasEvenY C P then - d0 else d0)
            in case sign_aux rnd ctr of
                 (Inl e, ctr') \<Rightarrow> (Inl e, ctr')
               | (Inr a, ctr') \<Rightarrow>
                   let t = map2 xor (Scalar_MarshalBinary C d) (TaggedHash sha256 ''BIP0340/aux'' [a]);
                       randHash = TaggedHash sha256 ''BIP0340/nonce'' [t, PBytes, m];
                       k0 = fst (Scalar_UnmarshalBinary C 0 randHash)
                   in if k0 = 0 then (Inl (Err ''invalid nonce''), ctr')
                      else let R = ActOnBase C k0;
                               k = (if \<not> HasEvenY C R then - k0 else k0);
                               RBytes = XBytes C R;
                               eHash = TaggedHash sha256 ''BIP0340/challenge'' [RBytes, PBytes, m];
                               e = fst (Scalar_UnmarshalBinary C 0 eHash);
                               z = e * d + k
                           in (Inr (RBytes @ Scalar_MarshalBinary C z), ctr'))"

definition PublicKey_Verify ::
    "('s::field, 'p::ab_group_add) curve \<Rightarrow> (bytes \<Rightarrow> bytes) \<Rightarrow> bytes \<Rightarrow> bytes \<Rightarrow> bytes \<Rightarrow> bool" where
  "PublicKey_Verify C sha256 pk sig m =
     (if length sig \<noteq> SignatureLen then False
      else case LiftX C pk of
        Inl _ \<Rightarrow> False
      | Inr P \<Rightarrow> (case Scalar_UnmarshalBinary C 0 (drop 32 sig) of
          (s, Some _) \<Rightarrow> False
        | (s, None) \<Rightarrow>
            let eHash = TaggedHash sha256 ''BIP0340/challenge'' [take 32 sig, pk, m];
                e = fst (Scalar_UnmarshalBinary C 0 eHash);
                R = ActOnBase C s;
                check = Point_Sub R (Act C e P)
            in if check = 0 then False
               else if \<not> HasEvenY C check then False
               else XBytes C check = take 32 sig))"

section \<open>Lemmas\<close>

lemma length_XBytes [simp]: "length (XBytes C P) = 32"
  by (simp add: XBytes_def)

lemma length_Scalar_MarshalBinary [simp]: "length (Scalar_MarshalBinary C s) = 32"
  by (simp add: Scalar_MarshalBinary_def)

context curve_laws
begin

text \<open>The verification equation, for a signature assembled from a non-zero commitment \<open>R\<close>.\<close>

lemma taproot_verify_iff:
  assumes "P \<noteq> 0" and "HasEvenY C P" and "R \<noteq> 0"
    and "e = fst (Scalar_UnmarshalBinary C 0 (TaggedHash sha256 ''BIP0340/challenge'' [XBytes C R, XBytes C P, m]))"
  shows "PublicKey_Verify C sha256 (XBytes C P) (XBytes C R @ Scalar_MarshalBinary C z) m
    \<longleftrightarrow> ActOnBase C z - Act C e P = (if HasEvenY C R then R else - R)"
proof -
  let ?chk = "ActOnBase C z - Act C e P"
  have "PublicKey_Verify C sha256 (XBytes C P) (XBytes C R @ Scalar_MarshalBinary C z) m
      \<longleftrightarrow> ?chk \<noteq> 0 \<and> HasEvenY C ?chk \<and> XBytes C ?chk = XBytes C R"
    using assms liftX_even[OF assms(1)]
    by (simp add: PublicKey_Verify_def SignatureLen_def scalar_marshal_roundtrip Let_def Point_Sub_def)
  also have "\<dots> \<longleftrightarrow> ?chk = (if HasEvenY C R then R else - R)"
    using assms(3) XBytes_eqD[of R ?chk] XBytes_neg[of R] pYOdd_neg[of R]
    by (auto simp: HasEvenY_def)
  finally show ?thesis .
qed

lemma sign_then_verify:
  assumes "SecretKey_Sign C sha256 sk rnd m ctr = (Inr sig, ctr')"
    and "SecretKey_Public C sk = Inr pk"
  shows "PublicKey_Verify C sha256 pk sig m"
proof -
  obtain d0 where d0: "Scalar_UnmarshalBinary C 0 sk = (d0, None)" "d0 \<noteq> 0" "pk = XBytes C (ActOnBase C d0)"
    using assms(2) by (auto simp: SecretKey_Public_def split: prod.splits if_splits)
  let ?P0 = "ActOnBase C d0"
  define d where "d = (if \<not> HasEvenY C ?P0 then - d0 else d0)"
  have P0: "?P0 \<noteq> 0" using d0 by simp
  obtain k0 where k0: "k0 \<noteq> 0" and sig: "sig = (let R = ActOnBase C k0;
      k = (if \<not> HasEvenY C R then - k0 else k0);
      e = fst (Scalar_UnmarshalBinary C 0 (TaggedHash sha256 ''BIP0340/challenge'' [XBytes C R, XBytes C ?P0, m]))
      in XBytes C R @ Scalar_MarshalBinary C (e * d + k))"
    using assms(1) d0(1,2)
    by (auto simp: SecretKey_Sign_def Let_def d_def split: prod.splits if_splits sum.splits)
  define R where "R = ActOnBase C k0"
  define k where "k = (if \<not> HasEvenY C R then - k0 else k0)"
  define P where "P = (if HasEvenY C ?P0 then ?P0 else - ?P0)"
  define e where "e = fst (Scalar_UnmarshalBinary C 0 (TaggedHash sha256 ''BIP0340/challenge'' [XBytes C R, XBytes C P, m]))"
  have P: "P \<noteq> 0" "HasEvenY C P" "XBytes C P = XBytes C ?P0" "P = ActOnBase C d"
    using P0 pYOdd_neg[OF P0] by (auto simp: P_def d_def HasEvenY_def XBytes_neg act_base_minus)
  have "sig = XBytes C R @ Scalar_MarshalBinary C (e * d + k)"
    by (simp add: sig Let_def R_def k_def e_def P(3))
  moreover have "ActOnBase C (e * d + k) - Act C e P = (if HasEvenY C R then R else - R)"
    by (simp add: act_base_add act_base_mult P(4) k_def R_def act_base_minus)
  moreover have "R \<noteq> 0" using k0 by (simp add: R_def)
  ultimately show ?thesis
    using taproot_verify_iff[OF P(1,2) _ e_def, of "e * d + k"] d0(3) P(3) by simp
qed

end

section \<open>Properties\<close>

text \<open>C19: Every BIP-340 signature \<open>SecretKey.Sign\<close> returns verifies under the public key of the secret
  key, for all auxiliary randomness and for the counter used without a reader.\<close>

theorem taproot_sign_verifies:
  assumes "curve_laws C" and "SecretKey_Sign C sha256 sk rnd m ctr = (Inr sig, ctr')"
    and "SecretKey_Public C sk = Inr pk"
  shows "PublicKey_Verify C sha256 pk sig m"
  by (rule curve_laws.sign_then_verify[OF assms])

theorem taproot_sign_verifies_witness:
  "\<exists>sig. fst (SecretKey_Sign curve13 (\<lambda>_. replicate 31 0 @ [4]) (replicate 31 0 @ [3]) NoRand [] 0) = Inr sig \<and>
     PublicKey_Verify curve13 (\<lambda>_. replicate 31 0 @ [4]) (XBytes curve13 3) sig []"
proof -
  let ?h = "\<lambda>_. replicate 31 0 @ [4 :: byte]" and ?sk = "replicate 31 0 @ [3 :: byte]"
  have "case SecretKey_Sign curve13 ?h ?sk NoRand [] 0 of (Inr sig, _) \<Rightarrow> True | _ \<Rightarrow> False" by code_simp
  then obtain sig ctr where "SecretKey_Sign curve13 ?h ?sk NoRand [] 0 = (Inr sig, ctr)"
    by (auto split: prod.splits sum.splits)
  moreover have "SecretKey_Public curve13 ?sk = Inr (XBytes curve13 3)" by code_simp
  ultimately show ?thesis using taproot_sign_verifies[OF curve13_laws] by fastforce
qed

end
