(* ===== verification/FrostSign.thy ===== *)
theory FrostSign
  imports FrostKeygen Taproot
begin

text \<open>
  FROST signing: \<open>protocols/frost/sign/sign.go\<close>, \<open>types.go\<close>, \<open>round1.go\<close>, \<open>round2.go\<close>, \<open>round3.go\<close>, and
  the entry points of \<open>protocols/frost/frost.go\<close>.

  The nonces come from blake3 in its key-derivation and keyed modes, which are the arguments
  \<open>b3_DeriveKey\<close> and \<open>b3_Keyed\<close>; the bytes read from \<open>crypto/rand\<close> are the argument \<open>a\<close>. The two
  nonces are read one after the other from one digest stream.
\<close>

section \<open>Messages and results\<close>

datatype ('s, 'p) sg_content = SgBroadcast2 "'p option" "'p option" | SgBroadcast3 "'s option"

fun sg_RoundNumber :: "('s, 'p) sg_content \<Rightarrow> Number" where
  "sg_RoundNumber (SgBroadcast2 D_i E_i) = 2"
| "sg_RoundNumber (SgBroadcast3 Z_i) = 3"

datatype ('s, 'p) sg_result = SgSignature 'p 's | SgTaproot bytes

text \<open>\<open>messageHash\<close>: the nil message is refused by \<open>WriteTo\<close>, and contributes no bytes where it is
  written directly.\<close>

definition any_messageHash :: "bytes option \<Rightarrow> any" where
  "any_messageHash m = AnyWriterTo ''messageHash''
     (case m of None \<Rightarrow> Inl (Err ''unexpected EOF'') | Some x \<Rightarrow> Inr x)"

definition nil_bytes :: "bytes option \<Rightarrow> bytes" where
  "nil_bytes m = (case m of None \<Rightarrow> [] | Some x \<Rightarrow> x)"

definition sig_challenge :: "('s::field, 'p) curve \<Rightarrow> xof \<Rightarrow> 'p \<Rightarrow> 'p \<Rightarrow> bytes option \<Rightarrow> 's" where
  "sig_challenge C b3 R Y m =
     fst (sample_Scalar C (hash_Digest b3 (fst (WriteAny (hash_New []) [any_Point C R, any_Point C Y, any_messageHash m]))))"

definition Signature_Verify :: "('s::field, 'p::ab_group_add) curve \<Rightarrow> xof \<Rightarrow> 'p \<Rightarrow> 's \<Rightarrow> 'p \<Rightarrow> bytes option \<Rightarrow> bool" where
  "Signature_Verify C b3 R z public m =
     (let challenge = sig_challenge C b3 R public m;
          expected = Act C challenge public + R;
          actual = ActOnBase C z
      in expected = actual)"

section \<open>Rounds\<close>

record ('s, 'p) sg_round1 =
  sg_Helper :: Helper
  sg_taproot :: bool
  sg_M :: "bytes option"
  sg_Y :: 'p
  sg_YShares :: "(ID, 'p) gomap"
  sg_s_i :: 's

record ('s, 'p) sg_round2 = "('s, 'p) sg_round1" +
  sg_d_i :: 's
  sg_e_i :: 's
  sg_D :: "(ID, 'p) gomap"
  sg_E :: "(ID, 'p) gomap"

record ('s, 'p) sg_round3 = "('s, 'p) sg_round2" +
  sg_R :: 'p
  sg_RShares :: "(ID, 'p) gomap"
  sg_c :: 's
  sg_z :: "(ID, 's) gomap"
  sg_Lambda :: "(ID, 's) gomap"

abbreviation sg_self :: "('s, 'p, 'm) sg_round1_scheme \<Rightarrow> ID" where
  "sg_self r \<equiv> SelfID (info (sg_Helper r))"

definition StartSignCommon :: "('s::field, 'p::ab_group_add) curve \<Rightarrow> xof \<Rightarrow> bool \<Rightarrow> ('s, 'p) Config \<Rightarrow> ID list
    \<Rightarrow> bytes option \<Rightarrow> bytes option \<Rightarrow> go_error + ('s, 'p) sg_round1" where
  "StartSignCommon C b3 taproot result signers messageHash sessionID =
     (let nfo = \<lparr>ProtocolID = (if taproot then ''frost/sign-threshold-taproot'' else ''frost/sign-threshold''),
                 FinalRoundNumber = 3, SelfID = cfg_ID result, PartyIDs = signers,
                 Threshold = cfg_Threshold result, Group = Some (Name C)\<rparr>
      in case NewSession b3 nfo sessionID [] of
           Inl e \<Rightarrow> Inl (Wrap ''sign.StartSign'' e)
         | Inr helper \<Rightarrow> Inr \<lparr>sg_Helper = helper, sg_taproot = taproot, sg_M = messageHash,
             sg_Y = cfg_PublicKey result, sg_YShares = cfg_VerificationShares result,
             sg_s_i = cfg_PrivateShare result\<rparr>)"

record sg_oracles =
  b3_DeriveKey :: "string \<Rightarrow> bytes \<Rightarrow> bytes"   \<comment> \<open>\<open>blake3.DeriveKey\<close>\<close>
  b3_Keyed :: "bytes \<Rightarrow> xof"                    \<comment> \<open>\<open>blake3.NewKeyed\<close>\<close>
  so_sha256 :: "bytes \<Rightarrow> bytes"
  so_a :: bytes                                 \<comment> \<open>\<open>rand.Read\<close>\<close>

definition deriveHashKeyContext :: string where
  "deriveHashKeyContext = ''github.com/taurusgroup/multi-party-sig/frost 2021-07-30T09:48+00:00 Derive hash Key''"

text \<open>\<open>round1.Finalize\<close>.\<close>

definition sg_nonceDigest :: "('s, 'p) curve \<Rightarrow> xof \<Rightarrow> sg_oracles \<Rightarrow> ('s, 'p) sg_round1 \<Rightarrow> reader" where
  "sg_nonceDigest C b3 orc r =
     (let s_iBytes = Scalar_MarshalBinary C (sg_s_i r);
          hashKey = b3_DeriveKey orc deriveHashKeyContext s_iBytes
      in b3_Keyed orc hashKey (hash_Sum b3 (hstate (sg_Helper r)) @ nil_bytes (sg_M r) @ so_a orc))"

definition sg_round1_Finalize :: "('s::field, 'p) curve \<Rightarrow> xof \<Rightarrow> sg_oracles \<Rightarrow> ('s, 'p) sg_round1
    \<Rightarrow> ('s, 'p) sg_content outchan \<Rightarrow> (go_error + ('s, 'p) sg_round2 \<times> ('s, 'p) sg_content outchan) outcome" where
  "sg_round1_Finalize C b3 orc r out =
     obind (sample_ScalarUnit C (sg_nonceDigest C b3 orc r)) (\<lambda>(d_i, rd).
     obind (sample_ScalarUnit C rd) (\<lambda>(e_i, _).
       let D_i = ActOnBase C d_i; E_i = ActOnBase C e_i; self = sg_self r
       in case BroadcastMessage (sg_Helper r) (SgBroadcast2 (Some D_i) (Some E_i)) out of
            Inl e \<Rightarrow> Ret (Inl e)
          | Inr out' \<Rightarrow> Ret (Inr (sg_round1.extend r (sg_round2.fields d_i e_i [(self, D_i)] [(self, E_i)]), out'))))"

text \<open>\<open>round2.StoreBroadcastMessage\<close>. A nil point panics when it is compared with the identity.\<close>

definition sg_round2_StoreBroadcast :: "('s, 'p::ab_group_add) sg_round2 \<Rightarrow> ('s, 'p) sg_content RoundMessage
    \<Rightarrow> (go_error + ('s, 'p) sg_round2) outcome" where
  "sg_round2_StoreBroadcast r msg = (case rm_Content msg of
       SgBroadcast2 D_i E_i \<Rightarrow> (case D_i of
           None \<Rightarrow> Panic
         | Some D \<Rightarrow>
             if D = 0 then Ret (Inl (Err ''nonce commitment is the identity point''))
             else (case E_i of
                 None \<Rightarrow> Panic
               | Some E \<Rightarrow>
                   if E = 0 then Ret (Inl (Err ''nonce commitment is the identity point''))
                   else Ret (Inr (r\<lparr>sg_D := mput (rm_From msg) D (sg_D r), sg_E := mput (rm_From msg) E (sg_E r)\<rparr>))))
     | SgBroadcast3 Z_i \<Rightarrow> Ret (Inl ErrInvalidContent))"

text \<open>\<open>round2.Finalize\<close>. A commitment missing from the maps is a nil interface, which \<open>WriteAny\<close>
  refuses and \<open>Act\<close> and \<open>Add\<close> panic on.\<close>

definition any_opt_Point :: "('s, 'p) curve \<Rightarrow> 'p option \<Rightarrow> any" where
  "any_opt_Point C x = (case x of None \<Rightarrow> AnyInvalid | Some P \<Rightarrow> any_Point C P)"

definition sg_rhoPreHash :: "('s, 'p) curve \<Rightarrow> ('s, 'p, 'm) sg_round2_scheme \<Rightarrow> hash" where
  "sg_rhoPreHash C r = foldl (\<lambda>h l. fst (WriteAny h [any_opt_Point C (mget (sg_D r) l), any_opt_Point C (mget (sg_E r) l)]))
     (fst (WriteAny (hash_New []) [any_messageHash (sg_M r)])) (partyIDs (sg_Helper r))"

definition sg_rho :: "('s::field, 'p) curve \<Rightarrow> xof \<Rightarrow> ('s, 'p, 'm) sg_round2_scheme \<Rightarrow> ID \<Rightarrow> 's" where
  "sg_rho C b3 r l = fst (sample_Scalar C (hash_Digest b3 (fst (WriteAny (sg_rhoPreHash C r) [any_ID l]))))"

fun sg_commitments :: "('s::field, 'p::ab_group_add) curve \<Rightarrow> xof \<Rightarrow> ('s, 'p, 'm) sg_round2_scheme \<Rightarrow> ID list
    \<Rightarrow> 'p \<Rightarrow> (ID, 'p) gomap \<Rightarrow> ('p \<times> (ID, 'p) gomap) outcome" where
  "sg_commitments C b3 r [] R RShares = Ret (R, RShares)"
| "sg_commitments C b3 r (l # ls) R RShares = (case (mget (sg_D r) l, mget (sg_E r) l) of
       (Some D, Some E) \<Rightarrow>
         (let R_l = Act C (sg_rho C b3 r l) E + D
          in sg_commitments C b3 r ls (R + R_l) (mput l R_l RShares))
     | _ \<Rightarrow> Panic)"

definition sg_challenge :: "('s::field, 'p) curve \<Rightarrow> xof \<Rightarrow> (bytes \<Rightarrow> bytes) \<Rightarrow> ('s, 'p, 'm) sg_round1_scheme \<Rightarrow> 'p \<Rightarrow> 's" where
  "sg_challenge C b3 sha256 r R =
     (if sg_taproot r
      then SetNat C (be_nat (TaggedHash sha256 ''BIP0340/challenge'' [XBytes C R, XBytes C (sg_Y r), nil_bytes (sg_M r)]))
      else sig_challenge C b3 R (sg_Y r) (sg_M r))"

definition sg_round2_Finalize :: "('s::field, 'p::ab_group_add) curve \<Rightarrow> xof \<Rightarrow> sg_oracles \<Rightarrow> ('s, 'p) sg_round2
    \<Rightarrow> ('s, 'p) sg_content outchan \<Rightarrow> (go_error + ('s, 'p) sg_round3 \<times> ('s, 'p) sg_content outchan) outcome" where
  "sg_round2_Finalize C b3 orc r out =
     obind (sg_commitments C b3 r (partyIDs (sg_Helper r)) 0 []) (\<lambda>(R, RShares0).
     let flip = sg_taproot r \<and> \<not> HasEvenY C R;
         RShares = (if flip then mmap (\<lambda>l P. - P) RShares0 else RShares0);
         d_i = (if flip then - sg_d_i r else sg_d_i r);
         e_i = (if flip then - sg_e_i r else sg_e_i r);
         c = sg_challenge C b3 (so_sha256 orc) r R;
         self = sg_self r
     in obind (Lagrange (partyIDs (sg_Helper r))) (\<lambda>Lambdas. case mget Lambdas self of
          None \<Rightarrow> Panic
        | Some l \<Rightarrow>
            let z_i = l * sg_s_i r * c + d_i + sg_rho C b3 r self * e_i
            in case BroadcastMessage (sg_Helper r) (SgBroadcast3 (Some z_i)) out of
                 Inl e \<Rightarrow> Ret (Inl e)
               | Inr out' \<Rightarrow> Ret (Inr (sg_round2.extend (r\<lparr>sg_d_i := d_i, sg_e_i := e_i\<rparr>)
                   (sg_round3.fields R RShares c [(self, z_i)] Lambdas), out'))))"

text \<open>\<open>round3.StoreBroadcastMessage\<close>. Missing map entries are nil interfaces, on which the calls panic.\<close>

definition sg_round3_StoreBroadcast :: "('s::field, 'p::ab_group_add) curve \<Rightarrow> ('s, 'p) sg_round3
    \<Rightarrow> ('s, 'p) sg_content RoundMessage \<Rightarrow> (go_error + ('s, 'p) sg_round3) outcome" where
  "sg_round3_StoreBroadcast C r msg = (case rm_Content msg of
       SgBroadcast3 Z_i \<Rightarrow>
         (let from = rm_From msg in
          case Z_i of
            None \<Rightarrow> Ret (Inl ErrNilFields)
          | Some z_i \<Rightarrow>
              (case (mget (sg_Lambda r) from, mget (sg_YShares r) from, mget (sg_RShares r) from) of
                 (Some l, Some Y, Some R) \<Rightarrow>
                   (let expected = Act C (sg_c r) (Act C l Y) + R; actual = ActOnBase C z_i
                    in if actual \<noteq> expected
                       then Ret (Inl (Err (''failed to verify response from '' @ from)))
                       else Ret (Inr (r\<lparr>sg_z := mput from z_i (sg_z r)\<rparr>)))
               | _ \<Rightarrow> Panic))
     | SgBroadcast2 D_i E_i \<Rightarrow> Ret (Inl ErrInvalidContent))"

text \<open>\<open>round3.Finalize\<close>.\<close>

definition sg_round3_Finalize :: "('s::field, 'p::ab_group_add) curve \<Rightarrow> xof \<Rightarrow> sg_oracles \<Rightarrow> ('s, 'p) sg_round3
    \<Rightarrow> ('r, ('s, 'p) sg_result) session" where
  "sg_round3_Finalize C b3 orc r =
     (let z = foldl (+) 0 (mvals (sg_z r)) in
      if sg_taproot r
      then let sig = XBytes C (sg_R r) @ Scalar_MarshalBinary C z
           in if \<not> PublicKey_Verify C (so_sha256 orc) (XBytes C (sg_Y r)) sig (nil_bytes (sg_M r))
              then AbortRound (sg_Helper r) (Err ''generated signature failed to verify'') []
              else OutputRound (sg_Helper r) (SgTaproot sig)
      else if \<not> Signature_Verify C b3 (sg_R r) z (sg_Y r) (sg_M r)
           then AbortRound (sg_Helper r) (Err ''generated signature failed to verify'') []
           else OutputRound (sg_Helper r) (SgSignature (sg_R r) z))"

section \<open>The rounds as a session\<close>

datatype ('s, 'p) sg_round = Sg1 "('s, 'p) sg_round1" | Sg2 "('s, 'p) sg_round2" | Sg3 "('s, 'p) sg_round3"

record ('s, 'p) sg_codec =
  sgc_marshal :: "('s, 'p) sg_content \<Rightarrow> bytes option"
  sgc_broadcast2 :: "bytes \<Rightarrow> ('s, 'p) sg_content option"
  sgc_broadcast3 :: "bytes \<Rightarrow> ('s, 'p) sg_content option"

fun sg_helper_of :: "('s, 'p) sg_round \<Rightarrow> Helper" where
  "sg_helper_of (Sg1 r) = sg_Helper r"
| "sg_helper_of (Sg2 r) = sg_Helper r"
| "sg_helper_of (Sg3 r) = sg_Helper r"

fun sg_Number :: "('s, 'p) sg_round \<Rightarrow> Number" where
  "sg_Number (Sg1 r) = 1"
| "sg_Number (Sg2 r) = 2"
| "sg_Number (Sg3 r) = 3"

fun sg_isBroadcast :: "('s, 'p) sg_round \<Rightarrow> bool" where
  "sg_isBroadcast (Sg1 r) = False"
| "sg_isBroadcast (Sg2 r) = True"
| "sg_isBroadcast (Sg3 r) = True"

fun sg_storeBroadcast :: "('s::field, 'p::ab_group_add) curve \<Rightarrow> ('s, 'p) sg_round
    \<Rightarrow> ('s, 'p) sg_content RoundMessage \<Rightarrow> (go_error + ('s, 'p) sg_round) outcome" where
  "sg_storeBroadcast C (Sg1 r) m = Panic"
| "sg_storeBroadcast C (Sg2 r) m = obind (sg_round2_StoreBroadcast r m) (\<lambda>x. Ret (map_sum id Sg2 x))"
| "sg_storeBroadcast C (Sg3 r) m = obind (sg_round3_StoreBroadcast C r m) (\<lambda>x. Ret (map_sum id Sg3 x))"

fun sg_finalize :: "('s::field, 'p::ab_group_add) curve \<Rightarrow> xof \<Rightarrow> sg_oracles \<Rightarrow> ('s, 'p) sg_round \<Rightarrow> nat
    \<Rightarrow> (go_error + (('s, 'p) sg_round, ('s, 'p) sg_result) session option
          \<times> ('s, 'p) sg_content RoundMessage list) outcome" where
  "sg_finalize C b3 orc (Sg1 r) cap =
     obind (sg_round1_Finalize C b3 orc r \<lparr>oc_cap = cap, oc_buf = []\<rparr>)
       (\<lambda>x. Ret (map_sum id (\<lambda>(r', out). (Some (Live (Sg2 r')), oc_buf out)) x))"
| "sg_finalize C b3 orc (Sg2 r) cap =
     obind (sg_round2_Finalize C b3 orc r \<lparr>oc_cap = cap, oc_buf = []\<rparr>)
       (\<lambda>x. Ret (map_sum id (\<lambda>(r', out). (Some (Live (Sg3 r')), oc_buf out)) x))"
| "sg_finalize C b3 orc (Sg3 r) cap = Ret (Inr (Some (sg_round3_Finalize C b3 orc r), []))"

definition sg_runtime :: "('s::field, 'p::ab_group_add) curve \<Rightarrow> xof \<Rightarrow> ('s, 'p) sg_codec \<Rightarrow> sg_oracles
    \<Rightarrow> ((ID \<times> Message) list \<Rightarrow> (ID \<times> Message) list)
    \<Rightarrow> (('s, 'p) sg_round, ('s, 'p) sg_content, ('s, 'p) sg_result) runtime" where
  "sg_runtime C b3 codec orc order =
     \<lparr>ops = \<lparr>r_helper = sg_helper_of, r_number = sg_Number, r_isBroadcast = sg_isBroadcast,
       r_hasContent = (\<lambda>r. False), r_unmarshal = (\<lambda>r d. None),
       r_unmarshalBroadcast = (\<lambda>r. case r of Sg2 _ \<Rightarrow> sgc_broadcast2 codec | _ \<Rightarrow> sgc_broadcast3 codec),
       r_marshal = sgc_marshal codec, r_contentRound = sg_RoundNumber, r_verify = (\<lambda>r m. Ret None),
       r_store = (\<lambda>r m. Ret (Inr r)), r_storeBroadcast = sg_storeBroadcast C, r_finalize = sg_finalize C b3 orc\<rparr>,
      blake3 = b3, range_order = order\<rparr>"

section \<open>What signing maintains\<close>

text \<open>The rounds share the data of the first one.\<close>

definition sg_from :: "('s, 'p) sg_round1 \<Rightarrow> ('s, 'p, 'm) sg_round1_scheme \<Rightarrow> bool" where
  "sg_from r0 r \<longleftrightarrow> sg_Helper r = sg_Helper r0 \<and> sg_taproot r = sg_taproot r0 \<and> sg_M r = sg_M r0 \<and>
     sg_Y r = sg_Y r0 \<and> sg_YShares r = sg_YShares r0 \<and> sg_s_i r = sg_s_i r0"

text \<open>What a signer starts from: a consistent configuration, enough signers with usable identifiers, and
  an even public key for taproot.\<close>

definition sg_start_ok :: "('s::field, 'p::ab_group_add) curve \<Rightarrow> ('s, 'p) sg_round1 \<Rightarrow> bool" where
  "sg_start_ok C r0 \<longleftrightarrow> session_ok (sg_Helper r0) \<and> FinalRoundNumber (info (sg_Helper r0)) = 3 \<and>
     good_ids C (partyIDs (sg_Helper r0)) \<and>
     (\<exists>t < length (partyIDs (sg_Helper r0)). poly_shares C t (sg_Y r0) (sg_YShares r0)) \<and>
     mget (sg_YShares r0) (sg_self r0) = Some (ActOnBase C (sg_s_i r0)) \<and>
     (sg_taproot r0 \<longrightarrow> sg_Y r0 \<noteq> 0 \<and> HasEvenY C (sg_Y r0))"

definition sg_committed :: "('s::field, 'p::ab_group_add) curve \<Rightarrow> ('s, 'p, 'm) sg_round2_scheme \<Rightarrow> bool" where
  "sg_committed C r \<longleftrightarrow> mget (sg_D r) (sg_self r) = Some (ActOnBase C (sg_d_i r)) \<and>
     mget (sg_E r) (sg_self r) = Some (ActOnBase C (sg_e_i r))"

text \<open>A stored response satisfies its share of the verification equation, and the shares of the
  commitment add up to the commitment of even parity, or to the commitment itself.\<close>

definition sg_normal :: "('s, 'p::ab_group_add) curve \<Rightarrow> ('s, 'p, 'm) sg_round1_scheme \<Rightarrow> 'p \<Rightarrow> 'p" where
  "sg_normal C r R = (if sg_taproot r \<and> \<not> HasEvenY C R then - R else R)"

definition sg_responded :: "('s::field, 'p::ab_group_add) curve \<Rightarrow> xof \<Rightarrow> (bytes \<Rightarrow> bytes) \<Rightarrow> ('s, 'p) sg_round3 \<Rightarrow> bool" where
  "sg_responded C b3 sha r \<longleftrightarrow> mwf (sg_z r) \<and> sg_self r \<in> set (mkeys (sg_z r)) \<and>
     set (mkeys (sg_z r)) \<subseteq> set (partyIDs (sg_Helper r)) \<and>
     sg_c r = sg_challenge C b3 sha r (sg_R r) \<and>
     (\<Sum>l\<in>set (partyIDs (sg_Helper r)). the (mget (sg_RShares r) l)) = sg_normal C r (sg_R r) \<and>
     (\<forall>l z. mget (sg_z r) l = Some z \<longrightarrow> (\<exists>Y. mget (sg_YShares r) l = Some Y \<and>
        ActOnBase C z = Act C (sg_c r) (Act C (lambda_of C (partyIDs (sg_Helper r)) l) Y)
          + the (mget (sg_RShares r) l)))"

fun sg_good :: "('s::field, 'p::ab_group_add) curve \<Rightarrow> xof \<Rightarrow> (bytes \<Rightarrow> bytes) \<Rightarrow> ('s, 'p) sg_round1 \<Rightarrow> ('s, 'p) sg_round \<Rightarrow> bool" where
  "sg_good C b3 sha r0 (Sg1 r) \<longleftrightarrow> sg_start_ok C r0 \<and> sg_from r0 r"
| "sg_good C b3 sha r0 (Sg2 r) \<longleftrightarrow> sg_start_ok C r0 \<and> sg_from r0 r \<and> sg_committed C r"
| "sg_good C b3 sha r0 (Sg3 r) \<longleftrightarrow> sg_start_ok C r0 \<and> sg_from r0 r \<and> sg_responded C b3 sha r \<and>
     sg_Lambda r = map (\<lambda>j. (j, lambda_of C (partyIDs (sg_Helper r)) j)) (partyIDs (sg_Helper r))"

fun sg_gotB :: "('s, 'p) sg_round \<Rightarrow> ID set" where
  "sg_gotB (Sg1 r) = UNIV"
| "sg_gotB (Sg2 r) = set (mkeys (sg_D r)) \<inter> set (mkeys (sg_E r))"
| "sg_gotB (Sg3 r) = set (mkeys (sg_z r))"

text \<open>A finished signing gives a signature that verifies. It ends without one, and without a culprit, only
  in taproot mode, which happens when the group commitment is the identity.\<close>

fun sg_final_ok :: "('s::field, 'p::ab_group_add) curve \<Rightarrow> xof \<Rightarrow> (bytes \<Rightarrow> bytes) \<Rightarrow> ('s, 'p) sg_round1
    \<Rightarrow> (('s, 'p) sg_round, ('s, 'p) sg_result) session \<Rightarrow> bool" where
  "sg_final_ok C b3 sha r0 (OutputRound hp (SgSignature R z)) \<longleftrightarrow>
     \<not> sg_taproot r0 \<and> Signature_Verify C b3 R z (sg_Y r0) (sg_M r0)"
| "sg_final_ok C b3 sha r0 (OutputRound hp (SgTaproot sig)) \<longleftrightarrow>
     sg_taproot r0 \<and> PublicKey_Verify C sha (XBytes C (sg_Y r0)) sig (nil_bytes (sg_M r0))"
| "sg_final_ok C b3 sha r0 (AbortRound hp e cs) \<longleftrightarrow> sg_taproot r0"
| "sg_final_ok C b3 sha r0 (Live r) \<longleftrightarrow> False"

section \<open>The rounds keep it\<close>

lemma sg_from_update [simp]:
  "sg_from r0 (sg_D_update f r2) = sg_from r0 r2"
  "sg_from r0 (sg_E_update g r2) = sg_from r0 r2"
  "sg_from r0 (sg_z_update k r3) = sg_from r0 r3"
  by (simp_all add: sg_from_def)

lemma sg_round1_Finalize_Ret:
  assumes "sg_round1_Finalize C b3 orc r out = Ret (Inr (r2, out'))"
  obtains m d e where "oc_buf out' = oc_buf out @ [m]" and "sg_RoundNumber (rm_Content m) = 2"
    and "r2 = sg_round1.extend r (sg_round2.fields d e [(sg_self r, ActOnBase C d)] [(sg_self r, ActOnBase C e)])"
proof -
  obtain d e where b: "BroadcastMessage (sg_Helper r) (SgBroadcast2 (Some (ActOnBase C d)) (Some (ActOnBase C e))) out = Inr out'"
    and r2: "r2 = sg_round1.extend r (sg_round2.fields d e [(sg_self r, ActOnBase C d)] [(sg_self r, ActOnBase C e)])"
    using assms by (auto simp: sg_round1_Finalize_def Let_def elim!: obind_RetE split: prod.split_asm sum.split_asm)
  obtain m where "oc_buf out' = oc_buf out @ [m]" "sg_RoundNumber (rm_Content m) = 2"
    using BroadcastMessage_buf[OF b] by auto
  then show ?thesis using that r2 by blast
qed

lemma sg_round2_StoreBroadcast_Ret:
  assumes "sg_round2_StoreBroadcast r msg = Ret (Inr r')"
  obtains D E where "r' = r\<lparr>sg_D := mput (rm_From msg) D (sg_D r), sg_E := mput (rm_From msg) E (sg_E r)\<rparr>"
    and "D \<noteq> 0" and "E \<noteq> 0"
  using assms by (auto simp: sg_round2_StoreBroadcast_def split: sg_content.split_asm option.split_asm if_split_asm)

lemma sg_round3_StoreBroadcast_Ret:
  assumes "sg_round3_StoreBroadcast C r msg = Ret (Inr r')"
  obtains z l Y R where "r' = r\<lparr>sg_z := mput (rm_From msg) z (sg_z r)\<rparr>"
    and "mget (sg_Lambda r) (rm_From msg) = Some l" and "mget (sg_YShares r) (rm_From msg) = Some Y"
    and "mget (sg_RShares r) (rm_From msg) = Some R"
    and "ActOnBase C z = Act C (sg_c r) (Act C l Y) + R"
  using assms
  by (auto simp: sg_round3_StoreBroadcast_def Let_def split: sg_content.split_asm option.split_asm if_split_asm)

text \<open>The commitments add up.\<close>

lemma sg_commitments_Ret:
  assumes "sg_commitments C b3 r ls R0 M0 = Ret (R, M)" and "distinct ls" and "set ls \<inter> set (mkeys M0) = {}"
  shows "R = R0 + (\<Sum>l\<in>set ls. the (mget M l))"
    and "\<And>l. l \<notin> set ls \<Longrightarrow> mget M l = mget M0 l"
    and "\<And>l. l \<in> set ls \<Longrightarrow> \<exists>D E. mget (sg_D r) l = Some D \<and> mget (sg_E r) l = Some E \<and>
      mget M l = Some (Act C (sg_rho C b3 r l) E + D)"
proof -
  have "R = R0 + (\<Sum>l\<in>set ls. the (mget M l)) \<and> (\<forall>l. l \<notin> set ls \<longrightarrow> mget M l = mget M0 l) \<and>
    (\<forall>l\<in>set ls. \<exists>D E. mget (sg_D r) l = Some D \<and> mget (sg_E r) l = Some E \<and>
      mget M l = Some (Act C (sg_rho C b3 r l) E + D))"
    using assms
  proof (induction ls arbitrary: R0 M0)
    case (Cons l ls)
    obtain D E where DE: "mget (sg_D r) l = Some D" "mget (sg_E r) l = Some E"
      and k: "sg_commitments C b3 r ls (R0 + (Act C (sg_rho C b3 r l) E + D))
        (mput l (Act C (sg_rho C b3 r l) E + D) M0) = Ret (R, M)"
      using Cons.prems(1) by (auto simp: Let_def split: option.split_asm)
    have keys: "set ls \<inter> set (mkeys (mput l (Act C (sg_rho C b3 r l) E + D) M0)) = {}"
      using Cons.prems(2,3) by (auto simp: set_mkeys disjoint_iff dom_def split: if_splits)
    have IH: "R = R0 + (Act C (sg_rho C b3 r l) E + D) + (\<Sum>l\<in>set ls. the (mget M l))"
      "\<forall>k. k \<notin> set ls \<longrightarrow> mget M k = mget (mput l (Act C (sg_rho C b3 r l) E + D) M0) k"
      "\<forall>l\<in>set ls. \<exists>D E. mget (sg_D r) l = Some D \<and> mget (sg_E r) l = Some E \<and>
        mget M l = Some (Act C (sg_rho C b3 r l) E + D)"
      using Cons.IH[OF k _ keys] Cons.prems(2) by simp_all
    have l: "l \<notin> set ls" "mget M l = Some (Act C (sg_rho C b3 r l) E + D)"
      using IH(2) Cons.prems(2) by simp_all
    have "R = R0 + (\<Sum>l\<in>set (l # ls). the (mget M l))"
      using IH(1) l by (simp add: add.assoc)
    moreover have "\<forall>k. k \<notin> set (l # ls) \<longrightarrow> mget M k = mget M0 k" using IH(2) by simp
    ultimately show ?case using IH(3) l DE by auto
  qed simp
  then show "R = R0 + (\<Sum>l\<in>set ls. the (mget M l))" "\<And>l. l \<notin> set ls \<Longrightarrow> mget M l = mget M0 l"
    "\<And>l. l \<in> set ls \<Longrightarrow> \<exists>D E. mget (sg_D r) l = Some D \<and> mget (sg_E r) l = Some E \<and>
      mget M l = Some (Act C (sg_rho C b3 r l) E + D)"
    by blast+
qed

context curve_laws
begin

lemma sg_good_round1:
  assumes "sg_start_ok C r0" and "sg_from r0 r" and "sg_round1_Finalize C b3 orc r out = Ret (Inr (r2, out'))"
  shows "sg_from r0 r2 \<and> sg_committed C r2"
  using assms(3)
  by (rule sg_round1_Finalize_Ret)
    (use assms(2) in \<open>simp add: sg_from_def sg_committed_def sg_round1.defs sg_round2.defs\<close>)

lemma sg_shares_flip:
  "(\<Sum>l\<in>A. the (mget (mmap (\<lambda>l P. - P) M) l)) = - (\<Sum>l\<in>A. the (mget M l))"
  if "\<forall>l\<in>A. mget M l \<noteq> None" for M :: "(ID, 'p) gomap"
  using that by (auto simp: sum_negf[symmetric] intro!: sum.cong)

lemma sg_round2_Finalize_Ret:
  assumes "sg_round2_Finalize C b3 orc r out = Ret (Inr (r3, out'))"
  obtains m R M ls lam z d e where "oc_buf out' = oc_buf out @ [m]" and "sg_RoundNumber (rm_Content m) = 3"
    and "sg_commitments C b3 r (partyIDs (sg_Helper r)) 0 [] = Ret (R, M)"
    and "Lagrange (partyIDs (sg_Helper r)) = Ret ls" and "mget ls (sg_self r) = Some lam"
    and "d = (if sg_taproot r \<and> \<not> HasEvenY C R then - sg_d_i r else sg_d_i r)"
    and "e = (if sg_taproot r \<and> \<not> HasEvenY C R then - sg_e_i r else sg_e_i r)"
    and "z = lam * sg_s_i r * sg_challenge C b3 (so_sha256 orc) r R + d + sg_rho C b3 r (sg_self r) * e"
    and "r3 = sg_round2.extend (r\<lparr>sg_d_i := d, sg_e_i := e\<rparr>)
      (sg_round3.fields R (if sg_taproot r \<and> \<not> HasEvenY C R then mmap (\<lambda>l P. - P) M else M)
        (sg_challenge C b3 (so_sha256 orc) r R) [(sg_self r, z)] ls)"
proof -
  obtain R M where RM: "sg_commitments C b3 r (partyIDs (sg_Helper r)) 0 [] = Ret (R, M)"
    using assms by (auto simp: sg_round2_Finalize_def elim!: obind_RetE)
  define d where "d = (if sg_taproot r \<and> \<not> HasEvenY C R then - sg_d_i r else sg_d_i r)"
  define e where "e = (if sg_taproot r \<and> \<not> HasEvenY C R then - sg_e_i r else sg_e_i r)"
  obtain ls :: "(ID, 's) gomap" and lam where ls: "Lagrange (partyIDs (sg_Helper r)) = Ret ls" "mget ls (sg_self r) = Some lam"
    using assms RM by (auto simp: sg_round2_Finalize_def Let_def elim!: obind_RetE split: option.split_asm)
  define z where "z = lam * sg_s_i r * sg_challenge C b3 (so_sha256 orc) r R + d + sg_rho C b3 r (sg_self r) * e"
  have "(case BroadcastMessage (sg_Helper r) (SgBroadcast3 (Some z)) out of
      Inl e \<Rightarrow> Ret (Inl e)
    | Inr out' \<Rightarrow> Ret (Inr (sg_round2.extend (r\<lparr>sg_d_i := d, sg_e_i := e\<rparr>)
        (sg_round3.fields R (if sg_taproot r \<and> \<not> HasEvenY C R then mmap (\<lambda>l P. - P) M else M)
          (sg_challenge C b3 (so_sha256 orc) r R) [(sg_self r, z)] ls), out'))) = Ret (Inr (r3, out'))"
    using assms RM ls unfolding z_def d_def e_def
    by (simp add: sg_round2_Finalize_def Let_def split del: if_split)
  then have b: "BroadcastMessage (sg_Helper r) (SgBroadcast3 (Some z)) out = Inr out'"
    and r3: "r3 = sg_round2.extend (r\<lparr>sg_d_i := d, sg_e_i := e\<rparr>)
      (sg_round3.fields R (if sg_taproot r \<and> \<not> HasEvenY C R then mmap (\<lambda>l P. - P) M else M)
        (sg_challenge C b3 (so_sha256 orc) r R) [(sg_self r, z)] ls)"
    by (auto split: sum.split_asm)
  obtain m where "oc_buf out' = oc_buf out @ [m]" "sg_RoundNumber (rm_Content m) = 3"
    using BroadcastMessage_buf[OF b] by auto
  then show ?thesis using that RM ls d_def e_def z_def r3 by blast
qed

text \<open>Our own response satisfies its share of the verification equation.\<close>

lemma sg_own_response:
  assumes "mget D i = Some (ActOnBase C d)" and "mget E i = Some (ActOnBase C e)"
    and "mget M i = Some (Act C rho (ActOnBase C e) + ActOnBase C d)"
  shows "ActOnBase C (lam * s * c + (if f then - d else d) + rho * (if f then - e else e))
    = Act C c (Act C lam (ActOnBase C s)) + the (mget (if f then mmap (\<lambda>l P. - P) M else M) i)"
  using assms(3) act_base_minus[of e] act_base_minus[of d]
  by (auto simp: ActOnBase_def act_scalar_add act_act act_minus_right act_minus_left algebra_simps)

lemma sg_good_round2:
  assumes ok: "sg_start_ok C r0" and from0: "sg_from r0 r" and com: "sg_committed C r"
    and fin: "sg_round2_Finalize C b3 orc r out = Ret (Inr (r3, out'))"
  shows "sg_from r0 r3 \<and> sg_responded C b3 (so_sha256 orc) r3 \<and>
    sg_Lambda r3 = map (\<lambda>j. (j, lambda_of C (partyIDs (sg_Helper r3)) j)) (partyIDs (sg_Helper r3))"
  using fin
proof (rule sg_round2_Finalize_Ret)
  fix R M ls lam z d e
  let ?ids = "partyIDs (sg_Helper r)" and ?i = "sg_self r" and ?c = "sg_challenge C b3 (so_sha256 orc) r R"
    and ?f = "sg_taproot r \<and> \<not> HasEvenY C R"
  assume RM: "sg_commitments C b3 r ?ids 0 [] = Ret (R, M)"
    and ls: "Lagrange ?ids = Ret ls" "mget ls ?i = Some lam"
    and d: "d = (if ?f then - sg_d_i r else sg_d_i r)" and e: "e = (if ?f then - sg_e_i r else sg_e_i r)"
    and z: "z = lam * sg_s_i r * ?c + d + sg_rho C b3 r ?i * e"
    and r3: "r3 = sg_round2.extend (r\<lparr>sg_d_i := d, sg_e_i := e\<rparr>)
      (sg_round3.fields R (if ?f then mmap (\<lambda>l P. - P) M else M) ?c [(?i, z)] ls)"
  have acc: "sg_Helper r3 = sg_Helper r" "sg_taproot r3 = sg_taproot r" "sg_M r3 = sg_M r" "sg_Y r3 = sg_Y r"
      "sg_YShares r3 = sg_YShares r" "sg_s_i r3 = sg_s_i r" "sg_R r3 = R" "sg_c r3 = ?c"
      "sg_RShares r3 = (if ?f then mmap (\<lambda>l P. - P) M else M)" "sg_z r3 = [(?i, z)]" "sg_Lambda r3 = ls"
    by (simp_all add: r3 sg_round2.defs sg_round3.defs)
  have hp: "session_ok (sg_Helper r)" "good_ids C ?ids" and own: "mget (sg_YShares r) ?i = Some (ActOnBase C (sg_s_i r))"
    using ok from0 by (simp_all add: sg_start_ok_def sg_from_def)
  have ids: "distinct ?ids" "?i \<in> set ?ids"
    using hp good_idsD(1)[OF hp(2)] by (simp_all add: session_ok_def)
  note sums = sg_commitments_Ret[OF RM ids(1)]
  have lam: "ls = map (\<lambda>j. (j, lambda_of C ?ids j)) ?ids" using Lagrange_eq[OF hp(2)] ls(1) by simp
  then have lam_i: "lam = lambda_of C ?ids ?i" using ls(2) ids(2) by (simp add: map_of_graph)
  have Mi: "mget M ?i = Some (Act C (sg_rho C b3 r ?i) (ActOnBase C (sg_e_i r)) + ActOnBase C (sg_d_i r))"
    using sums(3)[OF _ ids(2)] com by (auto simp: sg_committed_def mkeys_def)
  have "ActOnBase C z = Act C ?c (Act C lam (ActOnBase C (sg_s_i r))) + the (mget (sg_RShares r3) ?i)"
    using sg_own_response[of "sg_D r" ?i "sg_d_i r" "sg_E r" "sg_e_i r" M _ lam "sg_s_i r" ?c ?f] com Mi
    by (simp add: sg_committed_def z d e acc)
  moreover have "(\<Sum>l\<in>set ?ids. the (mget (sg_RShares r3) l)) = sg_normal C r R"
    using sums(1) sums(3) sg_shares_flip[of "set ?ids" M] by (force simp: acc sg_normal_def mkeys_def)
  moreover have "sg_challenge C b3 (so_sha256 orc) r3 R = ?c" "sg_normal C r3 R = sg_normal C r R"
    by (simp_all add: sg_challenge_def sg_normal_def acc)
  ultimately have "sg_responded C b3 (so_sha256 orc) r3"
    using ids(2) own lam_i by (simp add: sg_responded_def acc mwf_def mkeys_def)
  then show ?thesis using from0 lam by (simp add: sg_from_def acc)
qed

text \<open>When every signer has responded, the sum of the responses satisfies the verification equation.\<close>

lemma sg_equation:
  assumes ok: "sg_start_ok C r0" and from0: "sg_from r0 r" and resp: "sg_responded C b3 sha r"
    and all: "set (otherPartyIDs (sg_Helper r)) \<subseteq> set (mkeys (sg_z r))"
  shows "ActOnBase C (foldl (+) 0 (mvals (sg_z r))) = Act C (sg_c r) (sg_Y r) + sg_normal C r (sg_R r)"
proof -
  let ?ids = "partyIDs (sg_Helper r)"
  have hp: "session_ok (sg_Helper r)" "good_ids C ?ids" using ok from0 by (simp_all add: sg_start_ok_def sg_from_def)
  obtain t where t: "t < length ?ids" "poly_shares C t (sg_Y r) (sg_YShares r)"
    using ok from0 by (auto simp: sg_start_ok_def sg_from_def)
  have keys: "set (mkeys (sg_z r)) = set ?ids"
    using all hp(1) resp by (auto simp: session_ok_def sg_responded_def)
  have share: "\<exists>z Y. mget (sg_z r) l = Some z \<and> mget (sg_YShares r) l = Some Y \<and>
      ActOnBase C z = Act C (sg_c r) (Act C (lambda_of C ?ids l) Y) + the (mget (sg_RShares r) l)"
    if "l \<in> set ?ids" for l
  proof -
    obtain z where "mget (sg_z r) l = Some z" using \<open>l \<in> set ?ids\<close> keys unfolding set_mkeys by blast
    then show ?thesis using resp unfolding sg_responded_def by blast
  qed
  have "set ?ids \<subseteq> set (mkeys (sg_YShares r))" unfolding set_mkeys dom_def using share by blast
  then have key: "(\<Sum>l\<in>set ?ids. Act C (lambda_of C ?ids l) (the (mget (sg_YShares r) l))) = sg_Y r"
    using poly_shares_interpolate[OF t(2) hp(2) t(1)] good_idsD(1)[OF hp(2)]
    by (simp add: sum_list_distinct_conv_sum_set)
  have "(\<Sum>z\<leftarrow>mvals (sg_z r). ActOnBase C z) = (\<Sum>l\<in>set ?ids. ActOnBase C (the (mget (sg_z r) l)))"
    using resp unfolding keys[symmetric] by (intro sum_list_mvals) (simp add: sg_responded_def)
  also have "\<dots> = (\<Sum>l\<in>set ?ids. Act C (sg_c r) (Act C (lambda_of C ?ids l) (the (mget (sg_YShares r) l)))
      + the (mget (sg_RShares r) l))"
    using share by (intro sum.cong[OF refl]) fastforce
  also have "\<dots> = Act C (sg_c r) (sg_Y r) + sg_normal C r (sg_R r)"
    using key resp by (simp add: sum.distrib act_sum_right[symmetric] sg_responded_def)
  finally show ?thesis
    using act_base_sum_list[of id "mvals (sg_z r)"] by (simp add: foldl_add_sum_list)
qed

lemma of_nat_mod_order: "(of_nat (n mod Order C) :: 's) = of_nat n"
  using of_nat_sNat[of "of_nat n"] sNat_of_nat[of n] by simp

lemma sg_round3_result:
  assumes ok: "sg_start_ok C r0" and from0: "sg_from r0 r" and resp: "sg_responded C b3 (so_sha256 orc) r"
    and all: "set (otherPartyIDs (sg_Helper r)) \<subseteq> set (mkeys (sg_z r))"
    and sha: "\<And>x. length (so_sha256 orc x) = 32"
  shows "\<exists>res. sg_round3_Finalize C b3 orc r = OutputRound (sg_Helper r) res \<or>
      (sg_taproot r \<and> sg_R r = 0 \<and>
        sg_round3_Finalize C b3 orc r = AbortRound (sg_Helper r) (Err ''generated signature failed to verify'') [])"
proof (cases "sg_taproot r")
  case False
  have "Signature_Verify C b3 (sg_R r) (foldl (+) 0 (mvals (sg_z r))) (sg_Y r) (sg_M r)"
    using sg_equation[OF ok from0 resp all] resp False
    by (simp add: Signature_Verify_def sg_responded_def sg_normal_def sg_challenge_def)
  then show ?thesis using False by (simp add: sg_round3_Finalize_def Let_def)
next
  case True
  have Y: "sg_Y r \<noteq> 0" "HasEvenY C (sg_Y r)" using ok from0 True by (auto simp: sg_start_ok_def sg_from_def)
  show ?thesis
  proof (cases "sg_R r = 0")
    case nz: False
    let ?h = "TaggedHash (so_sha256 orc) ''BIP0340/challenge'' [XBytes C (sg_R r), XBytes C (sg_Y r), nil_bytes (sg_M r)]"
    have "length ?h = 32" using sha by (simp add: TaggedHash_def Let_def)
    then have "sg_c r = fst (Scalar_UnmarshalBinary C 0 ?h)"
      using resp True by (simp add: sg_responded_def sg_challenge_def Scalar_UnmarshalBinary_def SetNat_def of_nat_mod_order)
    then have "PublicKey_Verify C (so_sha256 orc) (XBytes C (sg_Y r))
        (XBytes C (sg_R r) @ Scalar_MarshalBinary C (foldl (+) 0 (mvals (sg_z r)))) (nil_bytes (sg_M r))"
      using taproot_verify_iff[OF Y nz] sg_equation[OF ok from0 resp all] True
      by (simp add: sg_normal_def)
    then show ?thesis using True by (simp add: sg_round3_Finalize_def Let_def)
  qed (use True in \<open>auto simp: sg_round3_Finalize_def Let_def\<close>)
qed

lemma sg_final_output:
  "sg_from r0 r \<Longrightarrow> sg_round3_Finalize C b3 orc r = OutputRound hp res \<Longrightarrow>
   sg_final_ok C b3 (so_sha256 orc) r0 (OutputRound hp res)"
  by (auto simp: sg_round3_Finalize_def sg_from_def Let_def split: if_split_asm)

end

section \<open>Signing on the protocol engine\<close>

locale frost_sign = curve_laws C for C :: "('s::field, 'p::ab_group_add) curve" +
  fixes b3 :: xof and codec :: "('s, 'p) sg_codec" and orc :: sg_oracles
    and order :: "(ID \<times> Message) list \<Rightarrow> (ID \<times> Message) list" and r0 :: "('s, 'p) sg_round1"
  assumes order_perm: "set (order q) = set q" and sha256_length: "length (so_sha256 orc x) = 32"
begin

abbreviation good :: "('s, 'p) sg_round \<Rightarrow> bool" where
  "good \<equiv> sg_good C b3 (so_sha256 orc) r0"

lemma sg_storeBroadcast_keeps:
  assumes "good r" and "sg_storeBroadcast C r m = Ret (Inr r')"
    and o: "rm_From m \<in> set (otherPartyIDs (sg_helper_of r))"
  shows "good r' \<and> sg_helper_of r' = sg_helper_of r \<and> sg_Number r' = sg_Number r \<and>
    sg_isBroadcast r' = sg_isBroadcast r \<and> insert (rm_From m) (sg_gotB r) \<subseteq> sg_gotB r'"
proof (cases r)
  case (Sg2 x)
  then obtain y where y: "sg_round2_StoreBroadcast x m = Ret (Inr y)" "r' = Sg2 y"
    using assms(2) by (auto elim!: obind_RetE map_sum_InrE)
  from y(1) show ?thesis
  proof (rule sg_round2_StoreBroadcast_Ret)
    fix D E
    assume u: "y = x\<lparr>sg_D := mput (rm_From m) D (sg_D x), sg_E := mput (rm_From m) E (sg_E x)\<rparr>"
    have "rm_From m \<noteq> sg_self x"
      using o assms(1) Sg2 by (auto simp: sg_start_ok_def sg_from_def session_ok_def)
    then have "sg_committed C y" using assms(1) Sg2 u by (simp add: sg_committed_def)
    then show ?thesis using y(2) Sg2 u assms(1) by auto
  qed
next
  case (Sg3 x)
  then obtain y where y: "sg_round3_StoreBroadcast C x m = Ret (Inr y)" "r' = Sg3 y"
    using assms(2) by (auto elim!: obind_RetE map_sum_InrE)
  from y(1) show ?thesis
  proof (rule sg_round3_StoreBroadcast_Ret)
    fix z l Y R
    assume u: "y = x\<lparr>sg_z := mput (rm_From m) z (sg_z x)\<rparr>" and l: "mget (sg_Lambda x) (rm_From m) = Some l"
      and YR: "mget (sg_YShares x) (rm_From m) = Some Y" "mget (sg_RShares x) (rm_From m) = Some R"
        "ActOnBase C z = Act C (sg_c x) (Act C l Y) + R"
    have i: "rm_From m \<in> set (partyIDs (sg_Helper x))"
      using o assms(1) Sg3 by (auto simp: sg_start_ok_def sg_from_def session_ok_def)
    have "l = lambda_of C (partyIDs (sg_Helper x)) (rm_From m)"
      using l assms(1) Sg3 i by (simp add: map_of_graph)
    then have "sg_responded C b3 (so_sha256 orc) y"
      using assms(1) Sg3 u YR i
      by (auto simp: sg_responded_def sg_challenge_def sg_normal_def)
    then show ?thesis using y(2) Sg3 u assms(1) by auto
  qed
qed (use assms in auto)

lemma sg_finalize_cases:
  assumes "sg_finalize C b3 orc r cap = Ret (Inr (x, out))"
  obtains (r1) r1 r2 out' where "r = Sg1 r1" "x = Some (Live (Sg2 r2))" "out = oc_buf out'"
      "sg_round1_Finalize C b3 orc r1 \<lparr>oc_cap = cap, oc_buf = []\<rparr> = Ret (Inr (r2, out'))"
  | (r2) r2 r3 out' where "r = Sg2 r2" "x = Some (Live (Sg3 r3))" "out = oc_buf out'"
      "sg_round2_Finalize C b3 orc r2 \<lparr>oc_cap = cap, oc_buf = []\<rparr> = Ret (Inr (r3, out'))"
  | (r3) r3 where "r = Sg3 r3" "x = Some (sg_round3_Finalize C b3 orc r3)" "out = []"
  using assms
  by (cases r) (auto elim!: obind_RetE map_sum_InrE split: prod.splits)

lemma sg_finalize_keeps:
  assumes g: "good r" and c: "complete (ops (sg_runtime C b3 codec orc order)) sg_gotB (\<lambda>_. UNIV) r"
    and f: "sg_finalize C b3 orc r cap = Ret (Inr (x, out))"
  shows "\<exists>s. x = Some s \<and> same_session (sg_helper_of r) (s_helper (ops (sg_runtime C b3 codec orc order)) s) \<and>
    (\<forall>r'. s = Live r' \<longrightarrow> good r' \<and> sg_Number r' = sg_Number r + 1) \<and>
    ((\<forall>r'. s \<noteq> Live r') \<longrightarrow> sg_final_ok C b3 (so_sha256 orc) r0 s)"
  using f
proof (cases rule: sg_finalize_cases)
  case (r1 a r2 out')
  have k: "sg_from r0 r2 \<and> sg_committed C r2" 
    by (rule sg_good_round1[OF _ _ r1(4)]) (use g r1(1) in simp_all)
  then have "sg_Helper r2 = sg_Helper a" using g r1(1) by (simp add: sg_from_def)
  then show ?thesis using r1 g k by (simp add: sg_runtime_def)
next
  case (r2 a r3 out')
  have k: "sg_from r0 r3 \<and> sg_responded C b3 (so_sha256 orc) r3 \<and>
      sg_Lambda r3 = map (\<lambda>j. (j, lambda_of C (partyIDs (sg_Helper r3)) j)) (partyIDs (sg_Helper r3))"
    by (rule sg_good_round2[OF _ _ _ r2(4)]) (use g r2(1) in simp_all)
  then have "sg_Helper r3 = sg_Helper a" using g r2(1) by (simp add: sg_from_def)
  then show ?thesis using r2 g k by (simp add: sg_runtime_def)
next
  case (r3 a)
  have all: "set (otherPartyIDs (sg_Helper a)) \<subseteq> set (mkeys (sg_z a))"
    using c r3(1) by (simp add: complete_def sg_runtime_def)
  have fr: "sg_start_ok C r0" "sg_from r0 a" "sg_responded C b3 (so_sha256 orc) a" using g r3(1) by simp_all
  let ?s = "sg_round3_Finalize C b3 orc a :: (('s, 'p) sg_round, ('s, 'p) sg_result) session"
  consider res where "?s = OutputRound (sg_Helper a) res"
    | "sg_taproot a" "?s = AbortRound (sg_Helper a) (Err ''generated signature failed to verify'') []"
    using sg_round3_result[OF fr all sha256_length] by blast
  then show ?thesis
  proof cases
    case (1 res)
    then show ?thesis using r3 sg_final_output[OF fr(2)] by (simp add: sg_runtime_def)
  next
    case 2
    then show ?thesis using r3 fr(2) by (simp add: sg_runtime_def sg_from_def)
  qed
qed

end

sublocale frost_sign \<subseteq> sg: round_protocol "sg_runtime C b3 codec orc order" "sg_good C b3 (so_sha256 orc) r0"
    sg_gotB "\<lambda>_. UNIV" "sg_final_ok C b3 (so_sha256 orc) r0"
proof
  let ?rt = "sg_runtime C b3 codec orc order"
  fix r m r'
  assume "good r" "r_store (ops ?rt) r m = Ret (Inr r')"
  then show "same_round (ops ?rt) r r' \<and> good r' \<and> sg_gotB r \<subseteq> sg_gotB r' \<and> insert (rm_From m) UNIV \<subseteq> UNIV"
    by (simp add: sg_runtime_def same_round_def)
next
  let ?rt = "sg_runtime C b3 codec orc order"
  fix r m r'
  assume "good r" "rm_From m \<in> set (otherPartyIDs (r_helper (ops ?rt) r))" "r_storeBroadcast (ops ?rt) r m = Ret (Inr r')"
  then show "same_round (ops ?rt) r r' \<and> good r' \<and> UNIV \<subseteq> UNIV \<and> insert (rm_From m) (sg_gotB r) \<subseteq> sg_gotB r'"
    using sg_storeBroadcast_keeps[of r m r'] by (simp add: sg_runtime_def same_round_def)
next
  let ?rt = "sg_runtime C b3 codec orc order"
  fix r cap x out
  assume "good r" "complete (ops ?rt) sg_gotB (\<lambda>_. UNIV) r" "r_finalize (ops ?rt) r cap = Ret (Inr (x, out))"
  then show "\<exists>s. x = Some s \<and> same_session (r_helper (ops ?rt) r) (s_helper (ops ?rt) s) \<and>
      (\<forall>r'. s = Live r' \<longrightarrow> good r' \<and> r_number (ops ?rt) r' = r_number (ops ?rt) r + 1) \<and>
      ((\<forall>r'. s \<noteq> Live r') \<longrightarrow> sg_final_ok C b3 (so_sha256 orc) r0 s)"
    using sg_finalize_keeps[of r cap x out] by (simp add: sg_runtime_def)
next
  let ?rt = "sg_runtime C b3 codec orc order"
  fix r cap x out m
  assume "r_finalize (ops ?rt) r cap = Ret (Inr (x, out))" and m: "m \<in> set out"
  then have "sg_finalize C b3 orc r cap = Ret (Inr (x, out))" by (simp add: sg_runtime_def)
  then show "r_contentRound (ops ?rt) (rm_Content m) = r_number (ops ?rt) r + 1"
  proof (cases rule: sg_finalize_cases)
    case (r1 a r2 out')
    from r1(4) show ?thesis
      by (rule sg_round1_Finalize_Ret) (use r1 m in \<open>simp add: sg_runtime_def\<close>)
  next
    case (r2 a r3 out')
    from r2(4) show ?thesis
      by (rule sg_round2_Finalize_Ret) (use r2 m in \<open>simp add: sg_runtime_def\<close>)
  qed (use m in simp)
next
  let ?rt = "sg_runtime C b3 codec orc order"
  fix r
  assume "good r"
  then have "session_ok (sg_helper_of r)" "FinalRoundNumber (info (sg_helper_of r)) = 3"
    by (cases r; simp add: sg_start_ok_def sg_from_def)+
  then show "session_ok (r_helper (ops ?rt) r)"
    "1 \<le> r_number (ops ?rt) r \<and> r_number (ops ?rt) r \<le> FinalRoundNumber (info (r_helper (ops ?rt) r)) \<and>
      FinalRoundNumber (info (r_helper (ops ?rt) r)) < - 1"
    by (cases r; simp add: sg_runtime_def)+
next
  let ?rt = "sg_runtime C b3 codec orc order"
  fix r
  assume "r_isBroadcast (ops ?rt) r \<or> r_hasContent (ops ?rt) r"
  then show "2 \<le> r_number (ops ?rt) r" by (cases r) (simp_all add: sg_runtime_def)
next
  show "set (range_order (sg_runtime C b3 codec orc order) q) = set q" for q
    by (simp add: sg_runtime_def order_perm)
qed

section \<open>Starting to sign\<close>

context curve_laws
begin

lemma StartSign_ok:
  assumes "StartSignCommon C b3 taproot cfg signers m sid = Inr r" and "config_ok C cfg"
    and "good_ids C (NewIDSlice signers)"
    and "taproot \<longrightarrow> cfg_PublicKey cfg \<noteq> 0 \<and> HasEvenY C (cfg_PublicKey cfg)"
  shows "sg_start_ok C r" and "sg_taproot r = taproot" and "sg_M r = m" and "sg_Y r = cfg_PublicKey cfg"
proof -
  obtain nfo hp where ns: "NewSession b3 nfo sid [] = Inr hp" "SelfID nfo = cfg_ID cfg" "FinalRoundNumber nfo = 3"
      "Threshold nfo = cfg_Threshold cfg" "PartyIDs nfo = signers"
    and r: "r = \<lparr>sg_Helper = hp, sg_taproot = taproot, sg_M = m, sg_Y = cfg_PublicKey cfg,
      sg_YShares = cfg_VerificationShares cfg, sg_s_i = cfg_PrivateShare cfg\<rparr>"
    using assms(1) by (auto simp: StartSignCommon_def Let_def split: sum.split_asm)
  note n = NewSession_rejects[OF ns(1)] and k = NewSession_ok[OF ns(1)]
  have "nat (cfg_Threshold cfg) < length (partyIDs hp)" using n(3,4) k(3) ns(4) by linarith
  then show "sg_start_ok C r"
    using assms(2-4) n(6) k ns by (auto simp: sg_start_ok_def r config_ok_def)
  show "sg_taproot r = taproot" "sg_M r = m" "sg_Y r = cfg_PublicKey cfg" by (simp_all add: r)
qed

end

lemma frost_signI:
  "curve_laws C \<Longrightarrow> (\<And>q. set (order q) = set q) \<Longrightarrow> (\<And>x. length (so_sha256 orc x) = 32) \<Longrightarrow>
   frost_sign C orc order"
  by (intro frost_sign.intro frost_sign_axioms.intro)

context frost_sign
begin

lemma sign_final:
  assumes "reachable (sg_runtime C b3 codec orc order) (Live (Sg1 r0)) h" and "sg_start_ok C r0"
  shows "sg.ok (currentRound h)"
    and "Result h = Inr res \<Longrightarrow> \<exists>hp. sg_final_ok C b3 (so_sha256 orc) r0 (OutputRound hp res)"
proof -
  have g: "good (Sg1 r0)" "r_number (ops (sg_runtime C b3 codec orc order)) (Sg1 r0) = 1"
    using assms(2) by (simp_all add: sg_runtime_def sg_from_def)
  show "sg.ok (currentRound h)" by (rule sg.reachable_final[OF assms(1) g])
  show "Result h = Inr res \<Longrightarrow> \<exists>hp. sg_final_ok C b3 (so_sha256 orc) r0 (OutputRound hp res)"
    using sg.reachable_result[OF assms(1) g] by blast
qed

end

section \<open>The entry points of the package\<close>

text \<open>
  \<open>protocols/frost/frost.go\<close>. The taproot variants lift the public key first and fail when started if
  that fails. \<open>config.Curve()\<close> is the curve of the public key.
\<close>

definition frost_Keygen :: "('s::field, 'p::ab_group_add) curve \<Rightarrow> xof \<Rightarrow> ID \<Rightarrow> ID list \<Rightarrow> int \<Rightarrow> ('s, 'p) kg_captured
    \<Rightarrow> bytes option \<Rightarrow> ('s, 'p) kg_captured \<times> (go_error + ('s, 'p) kg_round1)" where
  "frost_Keygen C b3 selfID participants threshold =
     StartKeygenCommon C b3 False participants threshold selfID []"

definition frost_KeygenTaproot :: "('s::field, 'p::ab_group_add) curve \<Rightarrow> xof \<Rightarrow> ID \<Rightarrow> ID list \<Rightarrow> int \<Rightarrow> ('s, 'p) kg_captured
    \<Rightarrow> bytes option \<Rightarrow> ('s, 'p) kg_captured \<times> (go_error + ('s, 'p) kg_round1)" where
  "frost_KeygenTaproot C b3 selfID participants threshold =
     StartKeygenCommon C b3 True participants threshold selfID []"

definition frost_Refresh :: "('s::field, 'p::ab_group_add) curve \<Rightarrow> xof \<Rightarrow> ('s, 'p) Config \<Rightarrow> ID list
    \<Rightarrow> bytes option \<Rightarrow> go_error + ('s, 'p) kg_round1" where
  "frost_Refresh C b3 config participants sid =
     snd (StartKeygenCommon C b3 False participants (cfg_Threshold config) (cfg_ID config)
       (cfg_VerificationShares config) (Some (cfg_PrivateShare config), Some (cfg_PublicKey config)) sid)"

definition frost_RefreshTaproot :: "('s::field, 'p::ab_group_add) curve \<Rightarrow> xof \<Rightarrow> ('s, 'p) TaprootConfig \<Rightarrow> ID list
    \<Rightarrow> bytes option \<Rightarrow> go_error + ('s, 'p) kg_round1" where
  "frost_RefreshTaproot C b3 config participants sid = (case LiftX C (tap_PublicKey config) of
       Inl e \<Rightarrow> Inl e
     | Inr publicKey \<Rightarrow> snd (StartKeygenCommon C b3 True participants (tap_Threshold config) (tap_ID config)
         (tap_VerificationShares config) (Some (tap_PrivateShare config), Some publicKey) sid))"

definition frost_Sign :: "('s::field, 'p::ab_group_add) curve \<Rightarrow> xof \<Rightarrow> ('s, 'p) Config \<Rightarrow> ID list
    \<Rightarrow> bytes option \<Rightarrow> bytes option \<Rightarrow> go_error + ('s, 'p) sg_round1" where
  "frost_Sign C b3 config signers messageHash = StartSignCommon C b3 False config signers messageHash"

definition frost_SignTaproot :: "('s::field, 'p::ab_group_add) curve \<Rightarrow> xof \<Rightarrow> ('s, 'p) TaprootConfig \<Rightarrow> ID list
    \<Rightarrow> bytes option \<Rightarrow> bytes option \<Rightarrow> go_error + ('s, 'p) sg_round1" where
  "frost_SignTaproot C b3 config signers messageHash sid = (case LiftX C (tap_PublicKey config) of
       Inl e \<Rightarrow> Inl e
     | Inr publicKey \<Rightarrow> StartSignCommon C b3 True
         \<lparr>cfg_ID = tap_ID config, cfg_Threshold = tap_Threshold config, cfg_PrivateShare = tap_PrivateShare config,
          cfg_PublicKey = publicKey, cfg_ChainKey = [], cfg_VerificationShares = tap_VerificationShares config\<rparr>
         signers messageHash sid)"

context curve_laws
begin

lemma SignTaproot_ok:
  assumes "frost_SignTaproot C b3 cfg signers m sid = Inr r" and "tap_config_ok C cfg"
    and "tap_PublicKey cfg \<noteq> XBytes C 0" and "good_ids C (NewIDSlice signers)"
  shows "sg_start_ok C r" and "sg_taproot r" and "sg_M r = m" and "XBytes C (sg_Y r) = tap_PublicKey cfg"
proof -
  obtain Y where Y: "tap_PublicKey cfg = XBytes C Y" "Y \<noteq> 0 \<longrightarrow> HasEvenY C Y"
    "poly_shares C (nat (tap_Threshold cfg)) Y (tap_VerificationShares cfg)"
    "mget (tap_VerificationShares cfg) (tap_ID cfg) = Some (ActOnBase C (tap_PrivateShare cfg))"
    using assms(2) by (auto simp: tap_config_ok_def)
  have nz: "Y \<noteq> 0" using Y(1) assms(3) by auto
  then have lift: "LiftX C (tap_PublicKey cfg) = Inr Y" using Y(1,2) liftX_even[of Y] by simp
  define cfg' where "cfg' = \<lparr>cfg_ID = tap_ID cfg, cfg_Threshold = tap_Threshold cfg,
    cfg_PrivateShare = tap_PrivateShare cfg, cfg_PublicKey = Y, cfg_ChainKey = [],
    cfg_VerificationShares = tap_VerificationShares cfg\<rparr>"
  have s: "StartSignCommon C b3 True cfg' signers m sid = Inr r"
    using assms(1) lift by (simp add: frost_SignTaproot_def cfg'_def)
  have "config_ok C cfg'" using Y by (simp add: config_ok_def cfg'_def)
  moreover have "True \<longrightarrow> cfg_PublicKey cfg' \<noteq> 0 \<and> HasEvenY C (cfg_PublicKey cfg')"
    using Y(2) nz by (simp add: cfg'_def)
  ultimately show "sg_start_ok C r" "sg_taproot r" "sg_M r = m" "XBytes C (sg_Y r) = tap_PublicKey cfg"
    using StartSign_ok[OF s _ assms(4)] Y(1) by (simp_all add: cfg'_def)
qed

end

end
