(* ===== verification/FrostLive.thy ===== *)
theory FrostLive
  imports Liveness FrostSign
begin

text \<open>
  FROST key generation and signing fulfil the contract \<open>live_protocol\<close>. Key generation sends one
  broadcast, then one broadcast and a share for every other party; signing sends two broadcasts. The
  handler's channel holds twice as many messages as there are parties, which is enough for both.
\<close>

section \<open>Nothing in a round blocks\<close>

lemma rounds_not_Blocked [simp]:
  "NewPolynomialExponent C cs \<noteq> Blocked" "Exponent_Constant phi \<noteq> Blocked" "Exponent_Sum ps \<noteq> Blocked"
  "Polynomial_Evaluate cs x \<noteq> Blocked" "RID_XOR a b \<noteq> Blocked" "sch_NewProof C b3 k h P s g \<noteq> Blocked"
  "lagrange scalars num j \<noteq> Blocked"
  by (auto simp: NewPolynomialExponent_def Exponent_Constant_def Exponent_Sum_def Polynomial_Evaluate_def RID_XOR_def
      sch_NewProof_def lagrange_def Let_def obind_Blocked split: list.splits option.splits)

lemma folds_not_Blocked [simp]:
  "kg_chain_key keys ids acc \<noteq> Blocked" "kg_sum_constants phis Y \<noteq> Blocked" "kg_send_shares r ls out \<noteq> Blocked"
  "LagrangeFor_loop scalars num ls cs \<noteq> Blocked" "sg_commitments C b3 x ids R M \<noteq> Blocked"
proof -
  show "kg_chain_key keys ids acc \<noteq> Blocked"
    by (induction ids arbitrary: acc) (auto simp: obind_Blocked)
  show "kg_sum_constants phis Y \<noteq> Blocked"
    by (induction phis arbitrary: Y) (auto simp: obind_Blocked)
  show "kg_send_shares r ls out \<noteq> Blocked"
    by (induction ls arbitrary: out) (auto simp: obind_Blocked split: sum.splits)
  show "LagrangeFor_loop scalars num ls cs \<noteq> Blocked"
    by (induction ls arbitrary: cs) (auto simp: obind_Blocked)
  show "sg_commitments C b3 x ids R M \<noteq> Blocked"
    by (induction ids arbitrary: R M) (auto simp: Let_def split: option.splits)
qed

lemma Lagrange_not_Blocked [simp]: "Lagrange ids \<noteq> Blocked"
  by (simp add: Lagrange_def LagrangeFor_def split: prod.splits)

lemma kg_not_Blocked:
  "kg_verify r m \<noteq> Blocked" "kg_store C r m \<noteq> Blocked" "kg_storeBroadcast C b3 r m \<noteq> Blocked"
  "kg_finalize C b3 rnd r cap \<noteq> Blocked"
proof -
  show "kg_verify r m \<noteq> Blocked" by (cases r) auto
  show "kg_store C r m \<noteq> Blocked"
    by (cases r) (auto simp: obind_Blocked kg_round3_StoreMessage_def Let_def split: kg_content.splits option.splits)
  show "kg_storeBroadcast C b3 r m \<noteq> Blocked"
    by (cases r) (auto simp: obind_Blocked kg_round2_StoreBroadcast_def Let_def split: kg_content.splits option.splits)
  show "kg_finalize C b3 rnd r cap \<noteq> Blocked"
    by (cases r) (auto simp: obind_Blocked kg_round1_Finalize_def kg_round2_Finalize_def kg_round3_Finalize_def Let_def
        split: option.splits sum.splits if_splits)
qed

lemma sg_not_Blocked:
  "sg_storeBroadcast C r m \<noteq> Blocked" "sg_finalize C b3 orc r cap \<noteq> Blocked"
proof -
  show "sg_storeBroadcast C r m \<noteq> Blocked"
    by (cases r) (auto simp: obind_Blocked sg_round2_StoreBroadcast_def sg_round3_StoreBroadcast_def Let_def
        split: sg_content.splits option.splits)
  show "sg_finalize C b3 orc r cap \<noteq> Blocked"
    by (cases r) (auto simp: obind_Blocked sg_round1_Finalize_def sg_round2_Finalize_def ScalarUnit_not_blocked Let_def
        split: option.splits sum.splits)
qed

section \<open>What the rounds send\<close>

lemma BroadcastMessage_sends:
  "BroadcastMessage hp c out = Inr out' \<Longrightarrow> \<exists>m. oc_buf out' = oc_buf out @ [m] \<and> rm_Broadcast m"
  by (auto simp: BroadcastMessage_def dest!: chan_send_Inr)

lemma kg_send_shares_length:
  "kg_send_shares r ls out = Ret (Inr out') \<Longrightarrow> \<exists>ms. oc_buf out' = oc_buf out @ ms \<and> length ms = length ls"
proof (induction ls arbitrary: out)
  case (Cons l ls)
  then obtain F out1 where s: "SendMessage (kg_Helper r) (KgMessage3 (Some F)) l out = Inr out1"
    "kg_send_shares r ls out1 = Ret (Inr out')"
    by (auto elim!: obind_RetE split: sum.split_asm)
  obtain ms where "oc_buf out' = oc_buf out1 @ ms" "length ms = length ls" using Cons.IH[OF s(2)] by blast
  moreover obtain m where "oc_buf out1 = oc_buf out @ [m]"
    using s(1) by (auto simp: SendMessage_def dest!: chan_send_Inr)
  ultimately show ?case by auto
qed simp

lemma kg_round1_sends:
  assumes "kg_round1_Finalize C b3 rnd r out = Ret (Inr (r2, out'))"
  shows "\<exists>m. oc_buf out' = oc_buf out @ [m] \<and> rm_Broadcast m"
proof -
  obtain content where "BroadcastMessage (kg_Helper r) content out = Inr out'"
    using assms by (auto simp: kg_round1_Finalize_def Let_def elim!: obind_RetE
        split: option.split_asm sum.split_asm prod.split_asm)
  then show ?thesis by (rule BroadcastMessage_sends)
qed

lemma kg_round2_sends:
  assumes "kg_round2_Finalize r out = Ret (Inr (r3, out'))"
  shows "\<exists>m ms. oc_buf out' = oc_buf out @ m # ms \<and> rm_Broadcast m \<and> length ms = length (otherPartyIDs (kg_Helper r))"
proof -
  obtain content out1 where b: "BroadcastMessage (kg_Helper r) content out = Inr out1"
    "kg_send_shares r (otherPartyIDs (kg_Helper r)) out1 = Ret (Inr out')"
    using assms by (auto simp: kg_round2_Finalize_def Let_def elim!: obind_RetE split: sum.split_asm)
  show ?thesis using BroadcastMessage_sends[OF b(1)] kg_send_shares_length[OF b(2)] by auto
qed

lemma sg_round1_sends:
  assumes "sg_round1_Finalize C b3 orc r out = Ret (Inr (r2, out'))"
  shows "\<exists>m. oc_buf out' = oc_buf out @ [m] \<and> rm_Broadcast m"
proof -
  obtain content where "BroadcastMessage (sg_Helper r) content out = Inr out'"
    using assms by (auto simp: sg_round1_Finalize_def Let_def elim!: obind_RetE split: sum.split_asm prod.split_asm)
  then show ?thesis by (rule BroadcastMessage_sends)
qed

lemma sg_round2_sends:
  assumes "sg_round2_Finalize C b3 orc r out = Ret (Inr (r3, out'))"
  shows "\<exists>m. oc_buf out' = oc_buf out @ [m] \<and> rm_Broadcast m"
proof -
  obtain content where "BroadcastMessage (sg_Helper r) content out = Inr out'"
    using assms unfolding sg_round2_Finalize_def Let_def
    by (auto elim!: obind_RetE split: sum.split_asm prod.split_asm option.split_asm split del: if_split)
  then show ?thesis by (rule BroadcastMessage_sends)
qed

lemma kg_finalize_sends:
  assumes "kg_finalize C b3 rnd r cap = Ret (Inr (Some s, out))"
  obtains x r' m where "r = Kg1 x" "s = Live (Kg2 r')" "out = [m]" "rm_Broadcast m"
    | x r' m ms where "r = Kg2 x" "s = Live (Kg3 r')" "out = m # ms" "rm_Broadcast m"
        "length ms = length (otherPartyIDs (kg_Helper x))"
    | x res where "r = Kg3 x" "s = OutputRound (kg_Helper x) res" "out = []"
proof (cases r)
  case (Kg1 x)
  then obtain r' out' where "kg_round1_Finalize C b3 rnd x \<lparr>oc_cap = cap, oc_buf = []\<rparr> = Ret (Inr (r', out'))"
    "s = Live (Kg2 r')" "out = oc_buf out'" using assms by (auto elim!: obind_RetE map_sum_InrE)
  then show ?thesis using that(1)[OF Kg1] kg_round1_sends by fastforce
next
  case (Kg2 x)
  then obtain r' out' where "kg_round2_Finalize x \<lparr>oc_cap = cap, oc_buf = []\<rparr> = Ret (Inr (r', out'))"
    "s = Live (Kg3 r')" "out = oc_buf out'" using assms by (auto elim!: obind_RetE map_sum_InrE)
  then show ?thesis using that(2)[OF Kg2] kg_round2_sends by fastforce
next
  case (Kg3 x)
  then show ?thesis using that(3)[OF Kg3] assms by (auto elim!: obind_RetE)
qed

lemma sg_finalize_sends:
  assumes "sg_finalize C b3 orc r cap = Ret (Inr (Some s, out))"
  obtains x r' m where "r = Sg1 x" "s = Live (Sg2 r')" "out = [m]" "rm_Broadcast m"
    | x r' m where "r = Sg2 x" "s = Live (Sg3 r')" "out = [m]" "rm_Broadcast m"
    | x where "r = Sg3 x" "\<forall>r'. s \<noteq> Live r'" "out = []"
proof (cases r)
  case (Sg1 x)
  then obtain r' out' where "sg_round1_Finalize C b3 orc x \<lparr>oc_cap = cap, oc_buf = []\<rparr> = Ret (Inr (r', out'))"
    "s = Live (Sg2 r')" "out = oc_buf out'" using assms by (auto elim!: obind_RetE map_sum_InrE)
  then show ?thesis using that(1)[OF Sg1] sg_round1_sends by fastforce
next
  case (Sg2 x)
  then obtain r' out' where "sg_round2_Finalize C b3 orc x \<lparr>oc_cap = cap, oc_buf = []\<rparr> = Ret (Inr (r', out'))"
    "s = Live (Sg3 r')" "out = oc_buf out'" using assms by (auto elim!: obind_RetE map_sum_InrE)
  then show ?thesis using that(2)[OF Sg2] sg_round2_sends by fastforce
next
  case (Sg3 x)
  then show ?thesis using that(3)[OF Sg3] assms by (auto simp: sg_round3_Finalize_def Let_def split: if_splits)
qed

section \<open>The contracts\<close>

definition kg_budget :: "nat \<Rightarrow> Number \<Rightarrow> nat" where
  "kg_budget n k = (if k = 1 then Suc n else if k = 2 then n else 0)"

definition sg_budget :: "nat \<Rightarrow> Number \<Rightarrow> nat" where
  "sg_budget n k = (if k = 1 then 2 else if k = 2 then 1 else 0)"

lemma session_ok_N: "session_ok hp \<Longrightarrow> Suc (length (otherPartyIDs hp)) \<le> Helper_N hp \<and> 1 \<le> Helper_N hp"
  unfolding session_ok_def by linarith

lemma kg_good_session: "kg_good C r0 r \<Longrightarrow> session_ok (kg_helper_of r)"
  by (cases r) (simp_all add: kg_base_def)

lemma kg_broadcasts: "kg_isBroadcast r = (kg_Number r \<in> {2, 3})"
  by (cases r) simp_all

lemma kg_first_budget: "kg_good C r0 r \<Longrightarrow> kg_budget (Helper_N (kg_helper_of r)) 1 \<le> 2 * Helper_N (kg_helper_of r)"
  by (drule kg_good_session, drule session_ok_N) (simp add: kg_budget_def)

lemma kg_sends:
  assumes "kg_good C r0 r" and "kg_finalize C b3 rnd r cap = Ret (Inr (Some s, out))"
  shows "length out + (case s of Live r' \<Rightarrow> kg_budget (Helper_N (kg_helper_of r)) (kg_Number r') | _ \<Rightarrow> 0)
    \<le> kg_budget (Helper_N (kg_helper_of r)) (kg_Number r)"
  using assms(2) session_ok_N[OF kg_good_session[OF assms(1)]]
  by (cases rule: kg_finalize_sends) (simp_all add: kg_budget_def split: session.split)

lemma kg_announces: "kg_finalize C b3 rnd r cap = Ret (Inr (Some (Live r'), out)) \<Longrightarrow> \<exists>m\<in>set out. rm_Broadcast m"
  by (erule kg_finalize_sends) simp_all

sublocale frost_keygen \<subseteq> kgl: live_protocol "kg_runtime C b3 codec rnd order" "kg_good C r0"
    kg_gotB kg_gotM "kg_final_ok C r0" "\<lambda>k. k \<in> {2, 3}" kg_budget
by (unfold_locales, unfold kg_runtime_def runtime.simps round_ops.simps) (rule kg_broadcasts kg_not_Blocked kg_first_budget kg_sends kg_announces; assumption)+

lemma sg_good_session: "sg_good C b3 sha r0 r \<Longrightarrow> session_ok (sg_helper_of r)"
  by (cases r) (simp_all add: sg_start_ok_def sg_from_def)

lemma sg_broadcasts: "sg_isBroadcast r = (sg_Number r \<in> {2, 3})"
  by (cases r) simp_all

lemma sg_first_budget: "sg_good C b3 sha r0 r \<Longrightarrow> sg_budget (Helper_N (sg_helper_of r)) 1 \<le> 2 * Helper_N (sg_helper_of r)"
  by (drule sg_good_session, drule session_ok_N) (simp add: sg_budget_def)

lemma sg_sends:
  assumes "sg_good C b3 sha r0 r" and "sg_finalize C b3 orc r cap = Ret (Inr (Some s, out))"
  shows "length out + (case s of Live r' \<Rightarrow> sg_budget (Helper_N (sg_helper_of r)) (sg_Number r') | _ \<Rightarrow> 0)
    \<le> sg_budget (Helper_N (sg_helper_of r)) (sg_Number r)"
  using assms(2) session_ok_N[OF sg_good_session[OF assms(1)]]
  by (cases rule: sg_finalize_sends) (simp_all add: sg_budget_def split: session.split)

lemma sg_announces: "sg_finalize C b3 orc r cap = Ret (Inr (Some (Live r'), out)) \<Longrightarrow> \<exists>m\<in>set out. rm_Broadcast m"
  by (erule sg_finalize_sends) simp_all

sublocale frost_sign \<subseteq> sgl: live_protocol "sg_runtime C b3 codec orc order" "sg_good C b3 (so_sha256 orc) r0"
    sg_gotB "\<lambda>_. UNIV" "sg_final_ok C b3 (so_sha256 orc) r0" "\<lambda>k. k \<in> {2, 3}" sg_budget
by (unfold_locales, unfold sg_runtime_def runtime.simps round_ops.simps) (rule sg_broadcasts sg_not_Blocked outcome.distinct sg_first_budget sg_sends sg_announces; assumption)+

context frost_keygen
begin

lemmas kgl_waits = kgl.waits_for_other
lemmas kgl_calls_return = kgl.calls_return

end

context frost_sign
begin

lemmas sgl_New = sgl.New_live(1)
lemmas sgl_calls_return = sgl.calls_return

end


end
