(* ===== verification/Encoding.thy ===== *)
theory Encoding
  imports Prelude "HOL-Library.Code_Target_Numeral"
begin

text \<open>
  The functions of Go's standard library on text which the key generation services use:
  \<open>base64.StdEncoding\<close>, \<open>hex.EncodeToString\<close>, \<open>strings.TrimSpace\<close>, \<open>strings.ToLower\<close>,
  \<open>strings.HasPrefix\<close> and \<open>strings.TrimPrefix\<close>. A Go string is a list of bytes. Decoding inverts
  encoding, and a prefix put in front is taken off again.
\<close>

section \<open>Base 64\<close>

definition b64_char :: "nat \<Rightarrow> char" where
  "b64_char n = char_of (if n < 26 then 65 + n else if n < 52 then 71 + n else if n < 62 then n - 4
     else if n = 62 then 43 else 47)"

definition b64_val :: "char \<Rightarrow> nat option" where
  "b64_val c = (let k = of_char c :: nat in
     if 65 \<le> k \<and> k \<le> 90 then Some (k - 65) else if 97 \<le> k \<and> k \<le> 122 then Some (k - 71)
     else if 48 \<le> k \<and> k \<le> 57 then Some (k + 4) else if k = 43 then Some 62
     else if k = 47 then Some 63 else None)"

fun b64_encode :: "bytes \<Rightarrow> string" where
  "b64_encode [] = []"
| "b64_encode [a] = [b64_char (unat a div 4), b64_char (unat a mod 4 * 16), CHR ''='', CHR ''='']"
| "b64_encode [a, b] = [b64_char (unat a div 4), b64_char (unat a mod 4 * 16 + unat b div 16),
     b64_char (unat b mod 16 * 4), CHR ''='']"
| "b64_encode (a # b # c # rest) = b64_char (unat a div 4) # b64_char (unat a mod 4 * 16 + unat b div 16) #
     b64_char (unat b mod 16 * 4 + unat c div 64) # b64_char (unat c mod 64) # b64_encode rest"

text \<open>The decoder skips line breaks, wants groups of four characters, and accepts padding only in the
  last group. Bits that do not fill a byte are dropped (the encoding is not strict).\<close>

fun b64_groups :: "string \<Rightarrow> bytes option" where
  "b64_groups [] = Some []"
| "b64_groups (p # q # r # s # rest) = (case (b64_val p, b64_val q) of
     (Some v0, Some v1) \<Rightarrow>
       (if r = CHR ''='' then
          (if s = CHR ''='' \<and> rest = [] then Some [of_nat (v0 * 4 + v1 div 16)] else None)
        else case b64_val r of None \<Rightarrow> None | Some v2 \<Rightarrow>
          (if s = CHR ''='' then
             (if rest = [] then Some [of_nat (v0 * 4 + v1 div 16), of_nat (v1 mod 16 * 16 + v2 div 4)] else None)
           else case b64_val s of None \<Rightarrow> None | Some v3 \<Rightarrow>
             (case b64_groups rest of None \<Rightarrow> None | Some ds \<Rightarrow>
                Some (of_nat (v0 * 4 + v1 div 16) # of_nat (v1 mod 16 * 16 + v2 div 4)
                  # of_nat (v2 mod 4 * 64 + v3) # ds))))
   | _ \<Rightarrow> None)"
| "b64_groups s = None"

text \<open>The position which Go's error text reports is left out.\<close>

definition b64_decode :: "string \<Rightarrow> go_error + bytes" where
  "b64_decode s = (case b64_groups (filter (\<lambda>c. c \<noteq> CHR 0x0A \<and> c \<noteq> CHR 0x0D) s) of
     None \<Rightarrow> Inl (Err ''illegal base64 data'') | Some d \<Rightarrow> Inr d)"

lemma b64_val_char [simp]: "n < 64 \<Longrightarrow> b64_val (b64_char n) = Some n"
  by (auto simp: b64_val_def b64_char_def Let_def)

lemma b64_char_plain [simp]: "b64_char n \<noteq> CHR ''=''" "b64_char n \<noteq> CHR 0x0A" "b64_char n \<noteq> CHR 0x0D"
proof -
  have "of_char (b64_char n) \<noteq> (61::nat)" "of_char (b64_char n) \<noteq> (10::nat)" "of_char (b64_char n) \<noteq> (13::nat)"
    by (auto simp: b64_char_def)
  then show "b64_char n \<noteq> CHR ''=''" "b64_char n \<noteq> CHR 0x0A" "b64_char n \<noteq> CHR 0x0D" by auto
qed

lemma b64_encode_plain [simp]:
  "filter (\<lambda>c. c \<noteq> CHR 0x0A \<and> c \<noteq> CHR 0x0D) (b64_encode d) = b64_encode d"
  by (induction d rule: b64_encode.induct) simp_all

lemma unat_byte: "unat (a :: byte) < 256"
  using unsigned_less[of a, where ?'a = nat] by simp

lemma byte_of_nat [simp]: "n = unat a \<Longrightarrow> word_of_nat n = (a :: byte)"
  by simp

lemma b64_sextets:
  fixes a b c :: nat assumes "a < 256" "b < 256" "c < 256"
  shows "a div 4 < 64" "a mod 4 * 16 + b div 16 < 64" "b mod 16 * 4 + c div 64 < 64" "a mod 4 * 16 < 64"
    "b mod 16 * 4 < 64" "c mod 64 < 64"
proof -
  have "a mod 4 < 4" "b mod 16 < 16" "b div 16 < 16" "c div 64 < 4" using assms by (simp_all add: div_less_iff_less_mult)
  then show "a mod 4 * 16 + b div 16 < 64" "b mod 16 * 4 + c div 64 < 64" "a mod 4 * 16 < 64" "b mod 16 * 4 < 64"
    by linarith+
qed (use assms in \<open>simp_all add: div_less_iff_less_mult\<close>)

lemma b64_groups_encode: "b64_groups (b64_encode d) = Some d"
proof (induction d rule: b64_encode.induct)
  case (2 a)
  show ?case using b64_sextets[OF unat_byte[of a] unat_byte[of a] unat_byte[of a]]
    by (simp del: of_nat_add of_nat_mult)
next
  case (3 a b)
  show ?case using b64_sextets[OF unat_byte[of a] unat_byte[of b] unat_byte[of b]] unat_byte[of b]
    by (simp add: div_less_iff_less_mult del: of_nat_add of_nat_mult)
next
  case (4 a b c rest)
  show ?case using b64_sextets[OF unat_byte[of a] unat_byte[of b] unat_byte[of c]] 4 unat_byte[of b] unat_byte[of c]
    by (simp add: div_less_iff_less_mult del: of_nat_add of_nat_mult)
qed simp

lemma b64_decode_encode [simp]: "b64_decode (b64_encode d) = Inr d"
  by (simp add: b64_decode_def b64_groups_encode)

lemma b64_encode_Nil_iff [simp]: "b64_encode d = [] \<longleftrightarrow> d = []"
  by (cases d rule: b64_encode.cases) simp_all

section \<open>Hexadecimal\<close>

definition hex_digit :: "nat \<Rightarrow> char" where
  "hex_digit n = char_of (if n < 10 then 48 + n else 87 + n)"

definition hex_encode :: "bytes \<Rightarrow> string" where
  "hex_encode d = concat (map (\<lambda>b. [hex_digit (unat b div 16), hex_digit (unat b mod 16)]) d)"

section \<open>Trimming\<close>

text \<open>The encodings of the characters with the Unicode property \<open>White_Space\<close>.\<close>

definition spaces :: "string list" where
  "spaces = map (map char_of) ([[9], [10], [11], [12], [13], [32], [0xC2, 0x85], [0xC2, 0xA0],
     [0xE1, 0x9A, 0x80]] @ map (\<lambda>k. [0xE2, 0x80, k]) ([0x80..<0x8B] @ [0xA8, 0xA9, 0xAF])
     @ [[0xE2, 0x81, 0x9F], [0xE3, 0x80, 0x80 :: nat]])"

function trim_front :: "string list \<Rightarrow> string \<Rightarrow> string" where
  "trim_front ws s = (case find (\<lambda>w. w \<noteq> [] \<and> take (length w) s = w) ws of
     None \<Rightarrow> s | Some w \<Rightarrow> trim_front ws (drop (length w) s))"
  by pat_completeness auto

termination
proof (relation "measure (\<lambda>(ws, s). length s)", goal_cases)
  case (2 ws s w)
  then have "w \<noteq> []" "take (length w) s = w" by (auto simp: find_Some_iff)
  then show ?case by (cases s; cases w) auto
qed simp

declare trim_front.simps [simp del]

definition TrimSpace :: "string \<Rightarrow> string" where
  "TrimSpace s = rev (trim_front (map rev spaces) (rev (trim_front spaces s)))"

definition HasPrefix :: "string \<Rightarrow> string \<Rightarrow> bool" where
  "HasPrefix s p \<longleftrightarrow> take (length p) s = p"

definition TrimPrefix :: "string \<Rightarrow> string \<Rightarrow> string" where
  "TrimPrefix s p = (if HasPrefix s p then drop (length p) s else s)"

text \<open>\<open>strings.ToLower\<close>, as far as a comparison of the result with words of the letters c, e, i, n, o, t
  and u can tell: besides the ASCII letters only U+0130 (two bytes, capital I with a dot) is mapped to
  one of these. Other characters stay as they are.\<close>

definition to_lower_char :: "char \<Rightarrow> char" where
  "to_lower_char c = (let k = of_char c :: nat in if 65 \<le> k \<and> k \<le> 90 then char_of (k + 32) else c)"

fun ToLower :: "string \<Rightarrow> string" where
  "ToLower [] = []"
| "ToLower [c] = [to_lower_char c]"
| "ToLower (c # d # s) = (if c = CHR 0xC4 \<and> d = CHR 0xB0 then CHR ''i'' # ToLower s
     else to_lower_char c # ToLower (d # s))"

lemma HasPrefix_append [simp]: "HasPrefix (p @ s) p"
  by (simp add: HasPrefix_def)

lemma TrimPrefix_append [simp]: "TrimPrefix (p @ s) p = s"
  by (simp add: TrimPrefix_def)

section \<open>Lemmas on trimming\<close>

lemma trim_front_drop: "\<exists>n. trim_front ws s = drop n s"
proof (induction ws s rule: trim_front.induct)
  case (1 ws s)
  show ?case
  proof (cases "find (\<lambda>w. w \<noteq> [] \<and> take (length w) s = w) ws")
    case None
    then have "trim_front ws s = drop 0 s" by (simp add: trim_front.simps[of ws s])
    then show ?thesis by blast
  next
    case (Some w)
    then obtain n where "trim_front ws (drop (length w) s) = drop n (drop (length w) s)" using 1 by blast
    then show ?thesis using Some by (auto simp: trim_front.simps[of ws s])
  qed
qed

definition no_front :: "string list \<Rightarrow> string \<Rightarrow> bool" where
  "no_front ws s \<longleftrightarrow> (\<forall>w\<in>set ws. w = [] \<or> take (length w) s \<noteq> w)"

lemma trim_front_id: "no_front ws s \<Longrightarrow> trim_front ws s = s"
  by (auto simp: trim_front.simps[of ws s] no_front_def find_Some_iff split: option.splits)

lemma no_front_trim: "no_front ws (trim_front ws s)"
proof (induction ws s rule: trim_front.induct)
  case (1 ws s)
  show ?case
  proof (cases "find (\<lambda>w. w \<noteq> [] \<and> take (length w) s = w) ws")
    case None
    then have "trim_front ws s = s" by (simp add: trim_front.simps[of ws s])
    then show ?thesis using None by (auto simp: no_front_def find_None_iff)
  next
    case (Some w)
    then show ?thesis using 1 by (simp add: trim_front.simps[of ws s])
  qed
qed

lemma no_front_take: "no_front ws s \<Longrightarrow> no_front ws (take n s)"
  unfolding no_front_def by (metis min.absorb_iff1 nle_le take_all_iff take_take)

lemma TrimSpace_idem [simp]: "TrimSpace (TrimSpace s) = TrimSpace s"
proof -
  define a where "a = trim_front spaces s"
  define b where "b = trim_front (map rev spaces) (rev a)"
  obtain n where "b = drop n (rev a)" using trim_front_drop unfolding b_def by blast
  then have "rev b = take (length a - n) a" by (simp add: rev_drop)
  then have "no_front spaces (rev b)" using no_front_take[OF no_front_trim] unfolding a_def by metis
  then have f: "trim_front spaces (rev b) = rev b" by (rule trim_front_id)
  have g: "trim_front (map rev spaces) b = b" by (rule trim_front_id) (simp add: b_def no_front_trim)
  have "TrimSpace s = rev b" by (simp add: TrimSpace_def a_def b_def)
  moreover have "TrimSpace (rev b) = rev b" by (simp add: TrimSpace_def f g)
  ultimately show ?thesis by simp
qed

lemma set_TrimSpace: "set (TrimSpace s) \<subseteq> set s"
proof -
  obtain m n where "trim_front spaces s = drop m s"
    "trim_front (map rev spaces) (rev (drop m s)) = drop n (rev (drop m s))" by (metis trim_front_drop)
  then show ?thesis unfolding TrimSpace_def by (metis set_drop_subset set_rev subset_trans)
qed

text \<open>Text of visible ASCII characters is not trimmed.\<close>

definition visible :: "char \<Rightarrow> bool" where
  "visible c \<longleftrightarrow> 33 \<le> (of_char c :: nat) \<and> (of_char c :: nat) \<le> 126"

lemma spaces_ends: "w \<in> set spaces \<Longrightarrow> w \<noteq> [] \<and> \<not> visible (hd w) \<and> \<not> visible (last w)"
proof -
  have "list_all (\<lambda>w. w \<noteq> [] \<and> \<not> visible (hd w) \<and> \<not> visible (last w)) spaces" by code_simp
  then show "w \<in> set spaces \<Longrightarrow> w \<noteq> [] \<and> \<not> visible (hd w) \<and> \<not> visible (last w)" by (simp add: list_all_iff)
qed

lemma no_front_visible:
  assumes "\<And>w. w \<in> set ws \<Longrightarrow> w \<noteq> [] \<and> \<not> visible (hd w)" and "list_all visible s"
  shows "no_front ws s"
  unfolding no_front_def
proof (intro ballI disjI2 notI)
  fix w assume w: "w \<in> set ws" "take (length w) s = w"
  then have "w \<noteq> []" "\<not> visible (hd w)" using assms(1) by blast+
  then show False using w(2) assms(2) by (cases s; cases w) auto
qed

lemma TrimSpace_visible: "list_all visible s \<Longrightarrow> TrimSpace s = s"
proof -
  assume s: "list_all visible s"
  have "trim_front spaces s = s"
    by (intro trim_front_id no_front_visible[OF _ s]) (use spaces_ends in blast)
  moreover have "trim_front (map rev spaces) (rev s) = rev s"
    by (intro trim_front_id no_front_visible) (use s spaces_ends in \<open>auto simp: hd_rev list_all_iff\<close>)
  ultimately show ?thesis by (simp add: TrimSpace_def)
qed

lemma b64_char_visible: "visible (b64_char n)"
  by (auto simp: visible_def b64_char_def)

lemma b64_encode_visible: "list_all visible (b64_encode d)"
  by (induction d rule: b64_encode.induct) (simp_all add: b64_char_visible, simp_all add: visible_def)

lemma TrimSpace_b64 [simp]: "TrimSpace (b64_encode d) = b64_encode d"
  by (rule TrimSpace_visible[OF b64_encode_visible])

end
