(* ===== verification/Utf8.thy ===== *)
theory Utf8
  imports Encoding Hash
begin

text \<open>
  Text in UTF-8. The decoders of JSON and CBOR deal in valid UTF-8 only: \<open>encoding/json\<close> replaces what is
  not, and \<open>cbor.Unmarshal\<close> refuses it. Shown here: a text is read as a sequence of characters in one way
  from the front and in one way from the back, so \<open>TrimSpace\<close> keeps text valid.
\<close>

section \<open>Characters\<close>

definition continuation :: "char \<Rightarrow> bool" where
  "continuation c \<longleftrightarrow> 0x80 \<le> (of_char c :: nat) \<and> (of_char c :: nat) \<le> 0xBF"

text \<open>The encodings of the Unicode characters: shortest form, no surrogates, at most U+10FFFF.\<close>

fun rune :: "string \<Rightarrow> bool" where
  "rune [a] \<longleftrightarrow> (of_char a :: nat) < 0x80"
| "rune [a, b] \<longleftrightarrow> of_char a \<in> {0xC2..0xDF :: nat} \<and> continuation b"
| "rune [a, b, c] \<longleftrightarrow> of_char a \<in> {0xE0..0xEF :: nat} \<and> continuation b \<and> continuation c \<and>
     (of_char a = (0xE0 :: nat) \<longrightarrow> 0xA0 \<le> (of_char b :: nat)) \<and> (of_char a = (0xED :: nat) \<longrightarrow> (of_char b :: nat) \<le> 0x9F)"
| "rune [a, b, c, d] \<longleftrightarrow> of_char a \<in> {0xF0..0xF4 :: nat} \<and> continuation b \<and> continuation c \<and> continuation d \<and>
     (of_char a = (0xF0 :: nat) \<longrightarrow> 0x90 \<le> (of_char b :: nat)) \<and> (of_char a = (0xF4 :: nat) \<longrightarrow> (of_char b :: nat) \<le> 0x8F)"
| "rune s \<longleftrightarrow> False"

definition utf8 :: "string \<Rightarrow> bool" where
  "utf8 s \<longleftrightarrow> (\<exists>rs. list_all rune rs \<and> s = concat rs)"

text \<open>The number of bytes is told by the first one, and the others are continuation bytes.\<close>

definition rune_length :: "char \<Rightarrow> nat" where
  "rune_length a = (let k = of_char a :: nat in if k < 0x80 then 1 else if k < 0xE0 then 2 else if k < 0xF0 then 3 else 4)"

lemma rune_shape:
  assumes "rune r"
  shows "r \<noteq> []" and "length r = rune_length (hd r)" and "\<not> continuation (hd r)" and "list_all continuation (tl r)"
  using assms by (cases r rule: rune.cases; auto simp: rune_length_def continuation_def Let_def)+

interpretation rune_code: prefix_code "\<lambda>r. r" rune
proof
  fix x y r s :: string
  assume "rune x" "rune y" and eq: "x @ r = y @ s"
  then have "hd x = hd y" using rune_shape(1)[of x] rune_shape(1)[of y] by (cases x; cases y) auto
  then have "length x = length y" using rune_shape(2) \<open>rune x\<close> \<open>rune y\<close> by metis
  then show "x = y \<and> r = s" using eq by simp
qed (rule rune_shape(1))

text \<open>Read from the back, a character ends where the first byte is that is no continuation.\<close>

lemma rune_suffix:
  assumes x: "rune x" and y: "rune y" and eq: "r @ x = s @ y"
  shows "x = y \<and> r = s"
proof -
  have no: "u = []" if "rune (u @ v)" "rune v" for u v
  proof (rule ccontr)
    assume "u \<noteq> []"
    then have "v = drop (length u - 1) (tl (u @ v))" by (cases u) auto
    then have "set v \<subseteq> set (tl (u @ v))" by (metis set_drop_subset)
    moreover have "hd v \<in> set v" using rune_shape(1)[OF that(2)] by simp
    ultimately show False using rune_shape(3)[OF that(2)] rune_shape(4)[OF that(1)] by (auto simp: list_all_iff)
  qed
  obtain u where "r @ u = s \<and> x = u @ y \<or> r = s @ u \<and> u @ x = y"
    using eq by (auto simp: append_eq_append_conv2)
  then show ?thesis using no x y by auto
qed

lemma utf8_append: "utf8 s \<Longrightarrow> utf8 t \<Longrightarrow> utf8 (s @ t)"
  unfolding utf8_def by (metis concat_append list_all_append)

lemma utf8_cut_front:
  assumes "utf8 (w @ s)" and "rune w"
  shows "utf8 s"
proof -
  obtain rs where rs: "list_all rune rs" "w @ s = concat rs" using assms(1) by (auto simp: utf8_def)
  then obtain r rs' where "rs = r # rs'" using rune_shape(1)[OF assms(2)] by (cases rs) auto
  then show ?thesis using rs rune_code.enc_prefix[of w r s "concat rs'"] assms(2) by (auto simp: utf8_def)
qed

lemma utf8_cut_back:
  assumes "utf8 (s @ w)" and "rune w"
  shows "utf8 s"
proof -
  obtain rs where rs: "list_all rune rs" "s @ w = concat rs" using assms(1) by (auto simp: utf8_def)
  then obtain rs' r where "rs = rs' @ [r]" using rune_shape(1)[OF assms(2)] by (cases rs rule: rev_cases) auto
  then show ?thesis using rs rune_suffix[of w r s "concat rs'"] assms(2) by (auto simp: utf8_def)
qed

section \<open>Trimming\<close>

text \<open>\<open>trim_front\<close> cuts off some of the given pieces, one after the other.\<close>

lemma trim_front_induct:
  assumes "P s" and "\<And>w t. w \<in> set ws \<Longrightarrow> P (w @ t) \<Longrightarrow> P t"
  shows "P (trim_front ws s)"
  using assms
proof (induction ws s rule: trim_front.induct)
  case (1 ws s)
  show ?case
  proof (cases "find (\<lambda>w. w \<noteq> [] \<and> take (length w) s = w) ws")
    case None
    then show ?thesis using 1(2) by (simp add: trim_front.simps[of ws s])
  next
    case (Some w)
    then have w: "w \<in> set ws" "take (length w) s = w" by (auto simp: find_Some_iff)
    then have "w @ drop (length w) s = s" by (metis append_take_drop_id)
    then have "P (drop (length w) s)" using 1(2) 1(3)[OF w(1)] by metis
    then show ?thesis using 1(1)[OF Some _ 1(3)] Some by (simp add: trim_front.simps[of ws s])
  qed
qed

lemma spaces_runes: "w \<in> set spaces \<Longrightarrow> rune w"
proof -
  have "list_all rune spaces" by code_simp
  then show "w \<in> set spaces \<Longrightarrow> rune w" by (simp add: list_all_iff)
qed

lemma utf8_TrimSpace: "utf8 s \<Longrightarrow> utf8 (TrimSpace s)"
proof -
  assume "utf8 s"
  then have "utf8 (trim_front spaces s)"
    by (rule trim_front_induct) (use utf8_cut_front spaces_runes in blast)
  then have "utf8 (rev (rev (trim_front spaces s)))" by simp
  then show ?thesis unfolding TrimSpace_def
    by (rule trim_front_induct[where P = "\<lambda>t. utf8 (rev t)"]) (use utf8_cut_back spaces_runes in \<open>fastforce simp: image_iff\<close>)
qed

section \<open>ASCII\<close>

lemma utf8_ascii: "(\<And>c. c \<in> set s \<Longrightarrow> (of_char c :: nat) < 0x80) \<Longrightarrow> utf8 s"
  unfolding utf8_def by (intro exI[of _ "map (\<lambda>c. [c]) s"]) (auto simp: list_all_iff)

lemma utf8_b64_encode: "utf8 (b64_encode d)"
  by (rule utf8_ascii) (use b64_encode_visible[of d] in \<open>auto simp: list_all_iff visible_def\<close>)

lemma b64_val_ascii: "b64_val c = Some v \<Longrightarrow> (of_char c :: nat) < 0x80"
  by (auto simp: b64_val_def Let_def split: if_splits)

lemma b64_groups_ascii: "b64_groups s = Some d \<Longrightarrow> c \<in> set s \<Longrightarrow> (of_char c :: nat) < 0x80"
  by (induction s arbitrary: d rule: b64_groups.induct) (auto split: option.split_asm if_split_asm dest: b64_val_ascii)

text \<open>What decodes as base 64 is ASCII.\<close>

lemma utf8_b64_decode: "b64_decode s = Inr d \<Longrightarrow> utf8 s"
proof (rule utf8_ascii)
  fix c assume "b64_decode s = Inr d" and "c \<in> set s"
  then show "(of_char c :: nat) < 0x80"
    using b64_groups_ascii[of "filter (\<lambda>c. c \<noteq> CHR 0x0A \<and> c \<noteq> CHR 0x0D) s" _ c]
    by (cases "c \<noteq> CHR 0x0A \<and> c \<noteq> CHR 0x0D") (auto simp: b64_decode_def split: option.split_asm)
qed

end
