(* ===== verification/KeygenConfig.thy ===== *)
theory KeygenConfig
  imports FrostKeygen CurveInstance Utf8
begin

text \<open>
  The configurations of \<open>protocols/frost/keygen\<close> after key generation: derivation of related keys
  (\<open>config.go\<close>, \<open>internal/bip32\<close>) and their storage (\<open>taproot_codec.go\<close>). Derivation keeps a configuration
  consistent; decoding a stored configuration gives it back. HMAC-SHA512 and the CBOR encoding of the
  wire struct are arguments.
\<close>

section \<open>Derivation\<close>

definition chain_key_err :: "bytes \<Rightarrow> go_error + 'a" where
  "chain_key_err ck = Inl (Err (''expecte '' @ nat_text SecBytes @ '' bytes for chain key, found '' @ nat_text (length ck)))"

text \<open>\<open>Config.Derive\<close>. A nil chain key is the empty string of bytes.\<close>

definition Config_Derive :: "('s::field, 'p::ab_group_add) curve \<Rightarrow> ('s, 'p) Config \<Rightarrow> 's \<Rightarrow> bytes
    \<Rightarrow> go_error + ('s, 'p) Config" where
  "Config_Derive C r adjust ck =
     (let newChainKey = (if length ck \<le> 0 then cfg_ChainKey r else ck)
      in if length newChainKey \<noteq> SecBytes then chain_key_err newChainKey
         else let adjustG = ActOnBase C adjust
              in Inr \<lparr>cfg_ID = cfg_ID r, cfg_Threshold = cfg_Threshold r,
                   cfg_PrivateShare = cfg_PrivateShare r + adjust, cfg_PublicKey = cfg_PublicKey r + adjustG,
                   cfg_ChainKey = newChainKey,
                   cfg_VerificationShares = mmap (\<lambda>k v. v + adjustG) (cfg_VerificationShares r)\<rparr>)"

text \<open>\<open>TaprootConfig.Derive\<close>: if the new key has an odd y coordinate, all shares are negated.\<close>

definition TaprootConfig_Derive :: "('s::field, 'p::ab_group_add) curve \<Rightarrow> ('s, 'p) TaprootConfig \<Rightarrow> 's \<Rightarrow> bytes
    \<Rightarrow> go_error + ('s, 'p) TaprootConfig" where
  "TaprootConfig_Derive C r adjust ck =
     (let newChainKey = (if length ck \<le> 0 then tap_ChainKey r else ck)
      in if length newChainKey \<noteq> SecBytes then chain_key_err newChainKey
         else let adjustG = ActOnBase C adjust;
                  verificationShares = mmap (\<lambda>k v. v + adjustG) (tap_VerificationShares r);
                  privateShare = tap_PrivateShare r + adjust
              in case LiftX C (tap_PublicKey r) of
                   Inl e \<Rightarrow> Inl e
                 | Inr lifted \<Rightarrow>
                     let publicKey = lifted + adjustG; odd_y = \<not> HasEvenY C publicKey
                     in Inr \<lparr>tap_ID = tap_ID r, tap_Threshold = tap_Threshold r,
                          tap_PrivateShare = (if odd_y then - privateShare else privateShare),
                          tap_PublicKey = XBytes C publicKey, tap_ChainKey = newChainKey,
                          tap_VerificationShares = (if odd_y then mmap (\<lambda>k v. - v) verificationShares
                            else verificationShares)\<rparr>)"

text \<open>\<open>bip32.DeriveScalar\<close>; \<open>hmac\<close> is HMAC-SHA512 of a key and a message.\<close>

definition bip32_DeriveScalar :: "('s::field, 'p::ab_group_add) curve \<Rightarrow> (bytes \<Rightarrow> bytes \<Rightarrow> bytes)
    \<Rightarrow> 'p \<Rightarrow> bytes \<Rightarrow> 32 word \<Rightarrow> (go_error + 's \<times> bytes) outcome" where
  "bip32_DeriveScalar C hmac public chaining i =
     (if drop_bit 31 i \<noteq> 0 then Panic
      else let out = hmac chaining (Point_MarshalBinary C public @ be_bytes 4 (unat i))
           in case Scalar_UnmarshalBinary C 0 (take 32 out) of (scalar, err) \<Rightarrow>
                Ret (if err \<noteq> None \<or> scalar = 0 then Inl (Err (''bad index: '' @ nat_text (unat i)))
                     else Inr (scalar, drop 32 out)))"

text \<open>\<open>DeriveChild\<close>. The curve package has the one curve secp256k1, so the type assertion on the public key
  succeeds.\<close>

definition Config_DeriveChild :: "('s::field, 'p::ab_group_add) curve \<Rightarrow> (bytes \<Rightarrow> bytes \<Rightarrow> bytes)
    \<Rightarrow> ('s, 'p) Config \<Rightarrow> 32 word \<Rightarrow> (go_error + ('s, 'p) Config) outcome" where
  "Config_DeriveChild C hmac r i =
     obind (bip32_DeriveScalar C hmac (cfg_PublicKey r) (cfg_ChainKey r) i) (\<lambda>d. Ret
       (rbind d (\<lambda>(scalar, newChainKey). Config_Derive C r scalar newChainKey)))"

definition TaprootConfig_DeriveChild :: "('s::field, 'p::ab_group_add) curve \<Rightarrow> (bytes \<Rightarrow> bytes \<Rightarrow> bytes)
    \<Rightarrow> ('s, 'p) TaprootConfig \<Rightarrow> 32 word \<Rightarrow> (go_error + ('s, 'p) TaprootConfig) outcome" where
  "TaprootConfig_DeriveChild C hmac r i = (case LiftX C (tap_PublicKey r) of
       Inl e \<Rightarrow> Ret (Inl e)
     | Inr publicKey \<Rightarrow>
         obind (bip32_DeriveScalar C hmac publicKey (tap_ChainKey r) i) (\<lambda>d. Ret
           (rbind d (\<lambda>(scalar, newChainKey). TaprootConfig_Derive C r scalar newChainKey))))"

section \<open>Storage\<close>

record taprootConfigMarshalled =
  wire_ID :: ID
  wire_Threshold :: int
  wire_PrivateShare :: bytes
  wire_PublicKey :: bytes
  wire_ChainKey :: bytes
  wire_VerificationShares :: "(ID, bytes) gomap"

text \<open>The CBOR encoding of the wire struct.\<close>

record wire_codec =
  wire_Marshal :: "taprootConfigMarshalled \<Rightarrow> go_error + bytes"
  wire_Unmarshal :: "bytes \<Rightarrow> go_error + taprootConfigMarshalled"

text \<open>The pointers of a configuration, \<open>None\<close> for nil. What the protocol returns has none that is nil.\<close>

definition tap_ptrs :: "('s, 'p) TaprootConfig \<Rightarrow> ('s option, 'p option) TaprootConfig" where
  "tap_ptrs r = \<lparr>tap_ID = tap_ID r, tap_Threshold = tap_Threshold r, tap_PrivateShare = Some (tap_PrivateShare r),
     tap_PublicKey = tap_PublicKey r, tap_ChainKey = tap_ChainKey r,
     tap_VerificationShares = mmap (\<lambda>k point. Some point) (tap_VerificationShares r)\<rparr>"

fun marshal_shares :: "('s, 'p) curve \<Rightarrow> (ID, 'p option) gomap \<Rightarrow> go_error + (ID, bytes) gomap" where
  "marshal_shares C [] = Inr []"
| "marshal_shares C ((i, point) # m) = (case point of
     None \<Rightarrow> Inl (Err (''verification share for '' @ i @ '' is nil''))
   | Some P \<Rightarrow> rbind (marshal_shares C m) (\<lambda>shares. Inr ((i, Point_MarshalBinary C P) # shares)))"

text \<open>The wire struct of a configuration, built with the nil checks. \<open>MarshalBinary\<close> of a scalar or a point does
  not fail.\<close>

definition taproot_wire :: "('s, 'p) curve \<Rightarrow> ('s option, 'p option) TaprootConfig option
    \<Rightarrow> go_error + taprootConfigMarshalled" where
  "taproot_wire C config = (case config of
     None \<Rightarrow> Inl (Err ''taproot config is nil'')
   | Some r \<Rightarrow> (case tap_PrivateShare r of
       None \<Rightarrow> Inl (Err ''taproot config private share is nil'')
     | Some share \<Rightarrow> rbind (marshal_shares C (tap_VerificationShares r)) (\<lambda>verificationShares.
         Inr \<lparr>wire_ID = tap_ID r, wire_Threshold = tap_Threshold r, wire_PrivateShare = Scalar_MarshalBinary C share,
              wire_PublicKey = tap_PublicKey r, wire_ChainKey = tap_ChainKey r,
              wire_VerificationShares = verificationShares\<rparr>)))"

fun unmarshal_shares :: "('s, 'p) curve \<Rightarrow> (ID, bytes) gomap \<Rightarrow> go_error + (ID, 'p) gomap" where
  "unmarshal_shares C [] = Inr []"
| "unmarshal_shares C ((k, raw) # m) = (case Point_UnmarshalBinary C raw of
     Inl e \<Rightarrow> Inl (Wrap (''unmarshal verification share for '' @ k) e)
   | Inr point \<Rightarrow> rbind (unmarshal_shares C m) (\<lambda>shares. Inr ((k, point) # shares)))"

definition from_wire :: "('s::field, 'p) curve \<Rightarrow> taprootConfigMarshalled \<Rightarrow> go_error + ('s, 'p) TaprootConfig" where
  "from_wire C wire = (case Scalar_UnmarshalBinary C 0 (wire_PrivateShare wire) of
     (share, Some e) \<Rightarrow> Inl (Wrap ''unmarshal private share'' e)
   | (share, None) \<Rightarrow> rbind (unmarshal_shares C (wire_VerificationShares wire)) (\<lambda>verificationShares.
       Inr \<lparr>tap_ID = wire_ID wire, tap_Threshold = wire_Threshold wire, tap_PrivateShare = share,
            tap_PublicKey = wire_PublicKey wire, tap_ChainKey = wire_ChainKey wire,
            tap_VerificationShares = verificationShares\<rparr>))"

definition TaprootConfig_MarshalBinary :: "('s, 'p) curve \<Rightarrow> wire_codec \<Rightarrow> ('s option, 'p option) TaprootConfig option
    \<Rightarrow> go_error + bytes" where
  "TaprootConfig_MarshalBinary C cbor r = rbind (taproot_wire C r) (wire_Marshal cbor)"

text \<open>The receiver is assigned only after everything was decoded; the result is its new value.\<close>

definition TaprootConfig_UnmarshalBinary :: "('s::field, 'p) curve \<Rightarrow> wire_codec \<Rightarrow> ('s, 'p) TaprootConfig option
    \<Rightarrow> bytes \<Rightarrow> go_error + ('s, 'p) TaprootConfig" where
  "TaprootConfig_UnmarshalBinary C cbor r d = (case r of
     None \<Rightarrow> Inl (Err ''taproot config is nil'')
   | Some old \<Rightarrow> (case wire_Unmarshal cbor d of
       Inl e \<Rightarrow> Inl (Wrap ''unmarshal taproot config'' e) | Inr wire \<Rightarrow> from_wire C wire))"

definition EncodeTaprootConfigToString :: "('s, 'p) curve \<Rightarrow> wire_codec \<Rightarrow> ('s option, 'p option) TaprootConfig option
    \<Rightarrow> go_error + string" where
  "EncodeTaprootConfigToString C cbor config =
     rbind (TaprootConfig_MarshalBinary C cbor config) (\<lambda>d. Inr (b64_encode d))"

text \<open>\<open>new(TaprootConfig)\<close> is the value \<open>zero\<close> built here.\<close>

definition DecodeTaprootConfigFromString :: "('s::field, 'p) curve \<Rightarrow> wire_codec \<Rightarrow> string
    \<Rightarrow> go_error + ('s, 'p) TaprootConfig" where
  "DecodeTaprootConfigFromString C cbor encoded = (case b64_decode encoded of
     Inl e \<Rightarrow> Inl (Wrap ''decode taproot config base64'' e)
   | Inr d \<Rightarrow> TaprootConfig_UnmarshalBinary C cbor (Some \<lparr>tap_ID = '''', tap_Threshold = 0,
       tap_PrivateShare = 0, tap_PublicKey = [], tap_ChainKey = [], tap_VerificationShares = []\<rparr>) d)"

section \<open>Lemmas\<close>

text \<open>Two maps with the same entries, and configurations which differ at most in the order of the map.\<close>

definition same_tap :: "('s, 'p) TaprootConfig \<Rightarrow> ('s, 'p) TaprootConfig \<Rightarrow> bool" where
  "same_tap a b \<longleftrightarrow> tap_ID a = tap_ID b \<and> tap_Threshold a = tap_Threshold b \<and>
     tap_PrivateShare a = tap_PrivateShare b \<and> tap_PublicKey a = tap_PublicKey b \<and>
     tap_ChainKey a = tap_ChainKey b \<and> mget (tap_VerificationShares a) = mget (tap_VerificationShares b)"

definition same_wire :: "taprootConfigMarshalled \<Rightarrow> taprootConfigMarshalled \<Rightarrow> bool" where
  "same_wire a b \<longleftrightarrow> wire_ID a = wire_ID b \<and> wire_Threshold a = wire_Threshold b \<and>
     wire_PrivateShare a = wire_PrivateShare b \<and> wire_PublicKey a = wire_PublicKey b \<and>
     wire_ChainKey a = wire_ChainKey b \<and> mget (wire_VerificationShares a) = mget (wire_VerificationShares b)"

text \<open>The wire struct of a configuration without nil pointers.\<close>

definition to_wire :: "('s, 'p) curve \<Rightarrow> ('s, 'p) TaprootConfig \<Rightarrow> taprootConfigMarshalled" where
  "to_wire C r = \<lparr>wire_ID = tap_ID r, wire_Threshold = tap_Threshold r,
     wire_PrivateShare = Scalar_MarshalBinary C (tap_PrivateShare r), wire_PublicKey = tap_PublicKey r,
     wire_ChainKey = tap_ChainKey r,
     wire_VerificationShares = mmap (\<lambda>k point. Point_MarshalBinary C point) (tap_VerificationShares r)\<rparr>"

lemma taproot_wire_ptrs [simp]: "taproot_wire C (Some (tap_ptrs r)) = Inr (to_wire C r)"
proof -
  have "marshal_shares C (mmap (\<lambda>k point. Some point) m) = Inr (mmap (\<lambda>k point. Point_MarshalBinary C point) m)" for m
    by (induction m) (auto simp: mmap_def)
  then show ?thesis by (simp add: taproot_wire_def tap_ptrs_def to_wire_def)
qed

text \<open>The codec gives back what was encoded, the entries of a map in any order, if the identifiers are valid
  UTF-8: \<open>cbor.Unmarshal\<close> refuses other text.\<close>

definition wire_text :: "taprootConfigMarshalled \<Rightarrow> bool" where
  "wire_text w \<longleftrightarrow> utf8 (wire_ID w) \<and> (\<forall>k\<in>set (mkeys (wire_VerificationShares w)). utf8 k)"

definition wire_law :: "wire_codec \<Rightarrow> bool" where
  "wire_law cbor \<longleftrightarrow> (\<forall>w d. wire_text w \<longrightarrow> wire_Marshal cbor w = Inr d \<longrightarrow>
     (\<exists>w'. wire_Unmarshal cbor d = Inr w' \<and> same_wire w' w \<and> mwf (wire_VerificationShares w')))"

definition tap_text :: "('s, 'p) TaprootConfig \<Rightarrow> bool" where
  "tap_text r \<longleftrightarrow> utf8 (tap_ID r) \<and> (\<forall>k\<in>set (mkeys (tap_VerificationShares r)). utf8 k)"

lemma wire_text_to_wire [simp]: "wire_text (to_wire C r) = tap_text r"
  by (simp add: wire_text_def to_wire_def tap_text_def mkeys_mmap)

lemma unmarshal_shares_spec:
  assumes "\<And>k raw. (k, raw) \<in> set m \<Longrightarrow> \<exists>P. Point_UnmarshalBinary C raw = Inr P"
  shows "\<exists>shares. unmarshal_shares C m = Inr shares \<and> (\<forall>k. mget shares k =
    map_option (\<lambda>raw. projr (Point_UnmarshalBinary C raw)) (mget m k)) \<and> map fst shares = map fst m"
  using assms
proof (induction m)
  case (Cons e m)
  obtain k raw where e: "e = (k, raw)" by (cases e)
  obtain P where "Point_UnmarshalBinary C raw = Inr P" using Cons.prems e by (metis list.set_intros(1))
  then show ?case using Cons e by fastforce
qed simp

lemma tap_config_ok_same: "same_tap a b \<Longrightarrow> tap_config_ok C a = tap_config_ok C b"
  by (simp add: same_tap_def tap_config_ok_def poly_shares_def)

text \<open>Adding one point to a key and to all its shares.\<close>

context curve_laws
begin

lemma exp_eval_shift: "F \<noteq> [] \<Longrightarrow> exp_eval C (F[0 := hd F + A]) x = exp_eval C F x + A"
  by (cases F) (simp_all add: add.assoc)

lemma poly_shares_shift:
  assumes "poly_shares C t Y shares"
  shows "poly_shares C t (Y + A) (mmap (\<lambda>k v. v + A) shares)"
proof -
  obtain F where F: "length F = Suc t" "Y = exp_eval C F 0"
    "\<forall>k v. mget shares k = Some v \<longrightarrow> v = exp_eval C F (ID_Scalar k)"
    using assms by (auto simp: poly_shares_def)
  then have "F \<noteq> []" by auto
  from exp_eval_shift[OF this] show ?thesis
    unfolding poly_shares_def
    by (intro exI[of _ "F[0 := hd F + A]"]) (use F in \<open>auto simp: mget_mmap split: option.splits\<close>)
qed

lemma ActOnBase_add: "ActOnBase C (s + t) = ActOnBase C s + ActOnBase C t"
  by (simp add: ActOnBase_def act_scalar_add)

lemma ActOnBase_uminus: "ActOnBase C (- s) = - ActOnBase C s"
  by (simp add: ActOnBase_def act_minus_left)

lemma ActOnBase_diff: "ActOnBase C (s - t) = ActOnBase C s - ActOnBase C t"
  by (simp add: ActOnBase_def act_scalar_diff)

lemma Config_Derive_ok:
  assumes "config_ok C r" and "Config_Derive C r adjust ck = Inr r'"
  shows "config_ok C r'"
  using assms poly_shares_shift[of _ "cfg_PublicKey r" _ "ActOnBase C adjust"]
  by (auto simp: Config_Derive_def chain_key_err_def config_ok_def Let_def mget_mmap ActOnBase_add split: if_splits)

lemma even_of_two:
  "(if HasEvenY C P then P else - P) \<noteq> 0 \<longrightarrow> HasEvenY C (if HasEvenY C P then P else - P)"
  using pYOdd_neg[of P] by (auto simp: HasEvenY_def)

lemma TaprootConfig_Derive_ok:
  assumes ok: "tap_config_ok C r" and key: "tap_PublicKey r \<noteq> XBytes C 0"
    and d: "TaprootConfig_Derive C r adjust ck = Inr r'"
  obtains Y where "LiftX C (tap_PublicKey r) = Inr Y" "tap_PublicKey r' = XBytes C (Y + ActOnBase C adjust)"
    "tap_config_ok C r'" "tap_ID r' = tap_ID r" "tap_Threshold r' = tap_Threshold r"
    "mkeys (tap_VerificationShares r') = mkeys (tap_VerificationShares r)"
proof -
  obtain Y where Y: "tap_PublicKey r = XBytes C Y" "Y \<noteq> 0 \<longrightarrow> HasEvenY C Y"
    "poly_shares C (nat (tap_Threshold r)) Y (tap_VerificationShares r)"
    "mget (tap_VerificationShares r) (tap_ID r) = Some (ActOnBase C (tap_PrivateShare r))"
    using ok by (auto simp: tap_config_ok_def)
  have "Y \<noteq> 0" using key Y(1) by auto
  then have l: "LiftX C (tap_PublicKey r) = Inr Y" using liftX_even[of Y] Y by simp
  let ?A = "ActOnBase C adjust" let ?Z = "Y + ?A"
  note p = poly_shares_shift[OF Y(3), of ?A]
  have "tap_config_ok C r'"
    unfolding tap_config_ok_def
  proof (rule exI[of _ "if HasEvenY C ?Z then ?Z else - ?Z"], intro conjI)
    show "tap_PublicKey r' = XBytes C (if HasEvenY C ?Z then ?Z else - ?Z)"
      using d l pX_neg[of ?Z, simplified]
      by (auto simp: TaprootConfig_Derive_def chain_key_err_def Let_def XBytes_def split: if_splits)
    show "(if HasEvenY C ?Z then ?Z else - ?Z) \<noteq> 0 \<longrightarrow> HasEvenY C (if HasEvenY C ?Z then ?Z else - ?Z)"
      by (rule even_of_two)
    show "poly_shares C (nat (tap_Threshold r')) (if HasEvenY C ?Z then ?Z else - ?Z) (tap_VerificationShares r')"
      using d l p poly_shares_uminus[OF p]
      by (auto simp: TaprootConfig_Derive_def chain_key_err_def Let_def split: if_splits)
    show "mget (tap_VerificationShares r') (tap_ID r') = Some (ActOnBase C (tap_PrivateShare r'))"
      using d l Y(4)
      by (auto simp: TaprootConfig_Derive_def chain_key_err_def Let_def mget_mmap ActOnBase_add ActOnBase_uminus
          ActOnBase_diff split: if_splits)
  qed
  then show ?thesis
    using that[OF l] d l
    by (auto simp: TaprootConfig_Derive_def chain_key_err_def Let_def mkeys_mmap split: if_splits)
qed

lemma from_to_wire:
  assumes "same_wire w (to_wire C r)" and "mwf (wire_VerificationShares w)"
    and "\<And>k v. mget (tap_VerificationShares r) k = Some v \<Longrightarrow> v \<noteq> 0"
  shows "\<exists>r'. from_wire C w = Inr r' \<and> same_tap r' r"
proof -
  have m: "mget (wire_VerificationShares w) k = map_option (Point_MarshalBinary C) (mget (tap_VerificationShares r) k)" for k
    using assms(1) by (simp add: same_wire_def to_wire_def mget_mmap)
  have "\<exists>P. Point_UnmarshalBinary C raw = Inr P" if "(k, raw) \<in> set (wire_VerificationShares w)" for k raw
  proof -
    have "mget (wire_VerificationShares w) k = Some raw" using that assms(2) by (simp add: mwf_def)
    then show ?thesis using m[of k] point_marshal_roundtrip[OF assms(3)] by auto
  qed
  then obtain shares where s: "unmarshal_shares C (wire_VerificationShares w) = Inr shares"
    "\<forall>k. mget shares k = map_option (\<lambda>raw. projr (Point_UnmarshalBinary C raw)) (mget (wire_VerificationShares w) k)"
    using unmarshal_shares_spec[of "wire_VerificationShares w" C] by blast
  have "mget shares k = mget (tap_VerificationShares r) k" for k
    using s(2) m[of k] point_marshal_roundtrip[OF assms(3)[of k]]
    by (cases "mget (tap_VerificationShares r) k") auto
  then show ?thesis
    using assms(1) s(1) scalar_marshal_roundtrip[of 0 "tap_PrivateShare r"]
    by (auto simp: from_wire_def same_wire_def to_wire_def same_tap_def)
qed

lemma wire_roundtrip:
  assumes "wire_law cbor" and "tap_text r" and "0 \<notin> set (mvals (tap_VerificationShares r))"
    and "wire_Marshal cbor (to_wire C r) = Inr d"
  obtains w where "wire_Unmarshal cbor d = Inr w" and "\<exists>r'. from_wire C w = Inr r' \<and> same_tap r' r"
proof -
  obtain w where w: "wire_Unmarshal cbor d = Inr w" "same_wire w (to_wire C r)" "mwf (wire_VerificationShares w)"
    using assms(1)[unfolded wire_law_def] assms(2,4) wire_text_to_wire by blast
  have "\<exists>r'. from_wire C w = Inr r' \<and> same_tap r' r"
    by (rule from_to_wire[OF w(2,3)]) (use assms(3) in \<open>auto dest!: map_of_SomeD simp: mvals_def image_iff\<close>)
  then show ?thesis using that w(1) by blast
qed

lemma of_nat_zero_iff: "n < Order C \<Longrightarrow> (of_nat n :: 's) = 0 \<longleftrightarrow> n = 0"
  using of_nat_eq_iff_mod[of n 0] by simp

end

lemma hardened_index: "drop_bit 31 i = 0 \<longleftrightarrow> i < 2 ^ 31" "drop_bit 31 i \<noteq> 0 \<longleftrightarrow> 2 ^ 31 \<le> i" for i :: "32 word"
proof -
  have "unat (drop_bit 31 i) = unat i div 2 ^ 31" by (simp add: drop_bit_eq_div unat_div_distrib)
  then have "drop_bit 31 i = 0 \<longleftrightarrow> unat i < 2 ^ 31"
    by (metis div_eq_0_iff unat_eq_0 zero_neq_numeral power_not_zero)
  then show "drop_bit 31 i = 0 \<longleftrightarrow> i < 2 ^ 31" by (simp add: word_less_nat_alt)
  then show "drop_bit 31 i \<noteq> 0 \<longleftrightarrow> 2 ^ 31 \<le> i" by (simp add: not_less)
qed

section \<open>Sample data\<close>

text \<open>A one-party configuration over the small curve, and a codec which knows its wire form.\<close>

abbreviation sample_tap :: "(gf13, gf13) TaprootConfig" where
  "sample_tap \<equiv> \<lparr>tap_ID = ''a'', tap_Threshold = 0, tap_PrivateShare = 6, tap_PublicKey = XBytes curve13 6,
     tap_ChainKey = [], tap_VerificationShares = [(''a'', 6)]\<rparr>"

abbreviation child_tap :: "(gf13, gf13) TaprootConfig" where
  "child_tap \<equiv> \<lparr>tap_ID = ''a'', tap_Threshold = 0, tap_PrivateShare = 4, tap_PublicKey = XBytes curve13 9,
     tap_ChainKey = replicate 32 7, tap_VerificationShares = [(''a'', 4)]\<rparr>"

abbreviation sample_cfg :: "(gf13, gf13) Config" where
  "sample_cfg \<equiv> \<lparr>cfg_ID = ''a'', cfg_Threshold = 0, cfg_PrivateShare = 6, cfg_PublicKey = 6,
     cfg_ChainKey = [], cfg_VerificationShares = [(''a'', 6)]\<rparr>"

definition child_hmac :: "bytes \<Rightarrow> bytes \<Rightarrow> bytes" where
  "child_hmac k m = replicate 31 0 @ [3] @ replicate 32 7"

definition sample_wire :: wire_codec where
  "sample_wire = \<lparr>wire_Marshal = (\<lambda>w. if w = to_wire curve13 sample_tap then Inr [1] else Inl (Err ''cbor'')),
     wire_Unmarshal = (\<lambda>d. Inr (to_wire curve13 sample_tap))\<rparr>"

lemma sample_wire_law: "wire_law sample_wire"
  by (auto simp: wire_law_def sample_wire_def same_wire_def to_wire_def mmap_def mwf_def)

lemma sample_shares: "poly_shares curve13 0 6 [(''a'', 6)]"
  by (auto simp: poly_shares_def intro!: exI[of _ "[6]"] split: if_splits)

lemma sample_tap_ok: "tap_config_ok curve13 sample_tap"
proof -
  have "HasEvenY curve13 6" "ActOnBase curve13 6 = 6" by code_simp+
  then show ?thesis using sample_shares by (auto simp: tap_config_ok_def intro!: exI[of _ 6])
qed

lemma sample_tap_key: "tap_PublicKey sample_tap \<noteq> XBytes curve13 0"
  by code_simp

lemma sample_cfg_ok: "config_ok curve13 sample_cfg"
proof -
  have "ActOnBase curve13 6 = 6" by code_simp
  then show ?thesis using sample_shares by (simp add: config_ok_def)
qed

lemma child_tap_run: "TaprootConfig_DeriveChild curve13 child_hmac sample_tap 7 = Ret (Inr child_tap)"
  by code_simp

section \<open>Properties\<close>

text \<open>C9: \<open>DeriveChild\<close> of a consistent taproot configuration. It panics for a hardened index. Otherwise it takes
  HMAC-SHA512, under the chain key, of the compressed public key (with the even y coordinate) and the
  index; it reports the index as bad exactly when the first 32 bytes are zero or not below the group
  order, and else gives a consistent configuration for the same parties and threshold of the key moved by
  that scalar, with the private share moved likewise (negated if the new key has an odd y coordinate)
  and the last 32 bytes as the new chain key.\<close>

theorem taproot_child_consistent:
  assumes "curve_laws C" and "tap_config_ok C r" and "tap_PublicKey r \<noteq> XBytes C 0" and "\<And>k x. length (hmac k x) = 64"
  shows "\<exists>Y. LiftX C (tap_PublicKey r) = Inr Y \<and>
    (let out = hmac (tap_ChainKey r) (Point_MarshalBinary C Y @ be_bytes 4 (unat i));
         n = be_nat (take 32 out); Z = Y + ActOnBase C (of_nat n); share = tap_PrivateShare r + of_nat n
     in if 2 ^ 31 \<le> i then TaprootConfig_DeriveChild C hmac r i = Panic
        else if n = 0 \<or> Order C \<le> n
          then TaprootConfig_DeriveChild C hmac r i = Ret (Inl (Err (''bad index: '' @ nat_text (unat i))))
        else \<exists>r'. TaprootConfig_DeriveChild C hmac r i = Ret (Inr r') \<and> tap_config_ok C r' \<and>
          tap_ID r' = tap_ID r \<and> tap_Threshold r' = tap_Threshold r \<and>
          mkeys (tap_VerificationShares r') = mkeys (tap_VerificationShares r) \<and>
          tap_PublicKey r' = XBytes C Z \<and> tap_ChainKey r' = drop 32 out \<and>
          tap_PrivateShare r' = (if HasEvenY C Z then share else - share))"
proof -
  obtain Y where Y: "LiftX C (tap_PublicKey r) = Inr Y"
    using assms(2,3) curve_laws.liftX_even[OF assms(1)] unfolding tap_config_ok_def by metis
  define out where "out = hmac (tap_ChainKey r) (Point_MarshalBinary C Y @ be_bytes 4 (unat i))"
  define n where "n = be_nat (take 32 out)"
  have len: "length out = 64" by (simp add: out_def assms(4))
  have scalar: "Scalar_UnmarshalBinary C 0 (take 32 out) =
      (of_nat n, if Order C \<le> n then Some (Err ''invalid bytes for secp256k1 scalar'') else None)"
    using len by (simp add: Scalar_UnmarshalBinary_def n_def)
  have run: "TaprootConfig_DeriveChild C hmac r i = (if 2 ^ 31 \<le> i then Panic
      else if n = 0 \<or> Order C \<le> n then Ret (Inl (Err (''bad index: '' @ nat_text (unat i))))
      else Ret (TaprootConfig_Derive C r (of_nat n) (drop 32 out)))"
  proof (cases "2 ^ 31 \<le> i")
    case True
    then have "drop_bit 31 i \<noteq> 0" by (simp only: hardened_index(2))
    then show ?thesis using True by (simp add: TaprootConfig_DeriveChild_def bip32_DeriveScalar_def Y)
  next
    case False
    then have "drop_bit 31 i = 0" by (simp only: hardened_index(1) not_le)
    then have "TaprootConfig_DeriveChild C hmac r i = Ret (rbind (if Order C \<le> n \<or> (of_nat n :: 'a) = 0
        then Inl (Err (''bad index: '' @ nat_text (unat i))) else Inr (of_nat n, drop 32 out))
        (\<lambda>(scalar, newChainKey). TaprootConfig_Derive C r scalar newChainKey))"
      unfolding TaprootConfig_DeriveChild_def bip32_DeriveScalar_def by (simp add: Y Let_def scalar flip: out_def)
    then show ?thesis using False curve_laws.of_nat_zero_iff[OF assms(1), of n] by (cases "Order C \<le> n") auto
  qed
  obtain r' where r': "TaprootConfig_Derive C r (of_nat n) (drop 32 out) = Inr r'" "tap_ChainKey r' = drop 32 out"
    "tap_PrivateShare r' = (if HasEvenY C (Y + ActOnBase C (of_nat n)) then tap_PrivateShare r + of_nat n else - (tap_PrivateShare r + of_nat n))"
    using len Y by (auto simp: TaprootConfig_Derive_def Let_def SecBytes_def)
  from curve_laws.TaprootConfig_Derive_ok[OF assms(1-3) r'(1)] obtain Y' where
    d: "LiftX C (tap_PublicKey r) = Inr Y'" "tap_PublicKey r' = XBytes C (Y' + ActOnBase C (of_nat n))"
    "tap_config_ok C r'" "tap_ID r' = tap_ID r" "tap_Threshold r' = tap_Threshold r"
    "mkeys (tap_VerificationShares r') = mkeys (tap_VerificationShares r)" .
  show ?thesis
    unfolding Let_def by (rule exI[of _ Y], fold out_def, fold n_def) (use run r' d Y in auto)
qed

theorem taproot_child_consistent_witness: "tap_config_ok curve13 child_tap \<and> tap_ChainKey child_tap = replicate 32 7"
proof -
  have "length (child_hmac k x) = 64" for k x by (simp add: child_hmac_def)
  from taproot_child_consistent[where hmac = child_hmac and i = 7, OF curve13_laws sample_tap_ok sample_tap_key this]
  show ?thesis by (auto simp: child_tap_run Let_def split: if_split_asm)
qed

text \<open>C10: \<open>Config.Derive\<close> uses the given chain key, or the old one when none (an empty one) is given. It fails
  exactly when that key does not have 32 bytes, a given key of the wrong length included, and otherwise
  gives a consistent configuration with this chain key, of the key moved by the scalar.\<close>

theorem config_derive_consistent:
  assumes "curve_laws C" and "config_ok C r" and "newChainKey = (if ck = [] then cfg_ChainKey r else ck)"
  shows "((\<exists>e. Config_Derive C r adjust ck = Inl e) \<longleftrightarrow> length newChainKey \<noteq> 32) \<and>
    (\<forall>r'. Config_Derive C r adjust ck = Inr r' \<longrightarrow> config_ok C r' \<and> cfg_ChainKey r' = newChainKey \<and>
       cfg_PublicKey r' = cfg_PublicKey r + ActOnBase C adjust \<and> cfg_PrivateShare r' = cfg_PrivateShare r + adjust \<and>
       cfg_ID r' = cfg_ID r \<and> cfg_Threshold r' = cfg_Threshold r \<and>
       mkeys (cfg_VerificationShares r') = mkeys (cfg_VerificationShares r))"
proof -
  have "(\<exists>e. Config_Derive C r adjust ck = Inl e) \<longleftrightarrow> length newChainKey \<noteq> 32"
    by (auto simp: Config_Derive_def chain_key_err_def SecBytes_def Let_def assms(3))
  moreover have "cfg_ChainKey r' = newChainKey \<and> cfg_PublicKey r' = cfg_PublicKey r + ActOnBase C adjust \<and>
      cfg_PrivateShare r' = cfg_PrivateShare r + adjust \<and> cfg_ID r' = cfg_ID r \<and> cfg_Threshold r' = cfg_Threshold r \<and>
      mkeys (cfg_VerificationShares r') = mkeys (cfg_VerificationShares r)"
    if "Config_Derive C r adjust ck = Inr r'" for r'
    using that by (auto simp: Config_Derive_def chain_key_err_def Let_def mkeys_mmap assms(3) split: if_splits)
  ultimately show ?thesis using curve_laws.Config_Derive_ok[OF assms(1,2)] by blast
qed

theorem config_derive_consistent_witness:
  "config_ok curve13 \<lparr>cfg_ID = ''a'', cfg_Threshold = 0, cfg_PrivateShare = 9, cfg_PublicKey = 9,
     cfg_ChainKey = replicate 32 7, cfg_VerificationShares = [(''a'', 9)]\<rparr>"
proof -
  have "Config_Derive curve13 sample_cfg 3 (replicate 32 7) = Inr \<lparr>cfg_ID = ''a'', cfg_Threshold = 0,
      cfg_PrivateShare = 9, cfg_PublicKey = 9, cfg_ChainKey = replicate 32 7, cfg_VerificationShares = [(''a'', 9)]\<rparr>"
    by code_simp
  then show ?thesis
    using config_derive_consistent[OF curve13_laws sample_cfg_ok refl, where adjust = 3 and ck = "replicate 32 7"] by simp
qed

text \<open>C11: What \<open>EncodeTaprootConfigToString\<close> returns for a configuration whose identifiers are valid UTF-8 is
  decoded to the same configuration, provided no verification share is the identity (which has no
  encoding).\<close>

theorem taproot_config_roundtrip:
  assumes "curve_laws C" and "wire_law cbor" and "tap_text r" and "0 \<notin> set (mvals (tap_VerificationShares r))"
    and "EncodeTaprootConfigToString C cbor (Some (tap_ptrs r)) = Inr text"
  shows "\<exists>r'. DecodeTaprootConfigFromString C cbor text = Inr r' \<and> same_tap r' r"
proof -
  obtain d where d: "wire_Marshal cbor (to_wire C r) = Inr d" "text = b64_encode d"
    using assms(5) by (cases "wire_Marshal cbor (to_wire C r)")
      (auto simp: EncodeTaprootConfigToString_def TaprootConfig_MarshalBinary_def)
  obtain w where "wire_Unmarshal cbor d = Inr w" "\<exists>r'. from_wire C w = Inr r' \<and> same_tap r' r"
    by (rule curve_laws.wire_roundtrip[OF assms(1-4) d(1)])
  then show ?thesis
    using d(2) by (auto simp: DecodeTaprootConfigFromString_def TaprootConfig_UnmarshalBinary_def)
qed

theorem taproot_config_roundtrip_witness:
  "\<exists>r'. DecodeTaprootConfigFromString curve13 sample_wire (b64_encode [1]) = Inr r' \<and> same_tap r' sample_tap"
proof (rule taproot_config_roundtrip[OF curve13_laws sample_wire_law])
  show "tap_text sample_tap" by (auto simp: tap_text_def mkeys_def intro: utf8_ascii)
  show "0 \<notin> set (mvals (tap_VerificationShares sample_tap))" by code_simp
  show "EncodeTaprootConfigToString curve13 sample_wire (Some (tap_ptrs sample_tap)) = Inr (b64_encode [1])"
    by (simp add: EncodeTaprootConfigToString_def TaprootConfig_MarshalBinary_def sample_wire_def)
qed

end
