(* ===== verification/KeygenService.thy ===== *)
theory KeygenService
  imports KeygenConfig FrostSign
begin

text \<open>
  The services which drive taproot key generation through one text entry point, for clients that call
  once per batch of received messages: \<open>schnorrimpl/schnorr_keygen_service.go\<close>, and its twin
  \<open>protocols/frost/keygen/service.go\<close>. The state is the map of executions, each with its handler; a call
  returns the response and the new state. JSON, the CBOR encodings and the random bytes of a call are
  arguments.

  Shown here: every execution of a service in use has a handler reachable by calls of the protocol
  engine, so that a key share reported as done decodes to a consistent configuration; a session context
  is read back as it was built; and what the error paths do with the execution and the abort notice.
\<close>

section \<open>Surroundings\<close>

record ('s, 'p) svc_env =
  sv_curve :: "('s, 'p) curve"
  sv_blake3 :: xof
  sv_codec :: "('s, 'p) kg_codec"
  sv_order :: "(ID \<times> Message) list \<Rightarrow> (ID \<times> Message) list"
  sv_msgMarshal :: "Message \<Rightarrow> go_error + bytes"
  sv_msgUnmarshal :: "bytes \<Rightarrow> Message \<Rightarrow> go_error + Message"
  sv_wire :: wire_codec

text \<open>What \<open>crypto/rand\<close> yields during a call; \<open>None\<close> is a failing read.\<close>

record 's svc_rand =
  sr_keygen :: "'s kg_rand"
  sr_session :: "bytes option"     \<comment> \<open>32 bytes\<close>
  sr_state :: "bytes option"       \<comment> \<open>16 bytes\<close>

abbreviation sv_runtime :: "('s::field, 'p::ab_group_add) svc_env \<Rightarrow> 's kg_rand
    \<Rightarrow> (('s, 'p) kg_round, ('s, 'p) kg_content, ('s, 'p) kg_result) runtime" where
  "sv_runtime E rnd \<equiv> kg_runtime (sv_curve E) (sv_blake3 E) (sv_codec E) rnd (sv_order E)"

text \<open>A handler together with the randomness it was started with.\<close>

record ('s, 'p) keygenExecution =
  ex_handler :: "(('s, 'p) kg_round, ('s, 'p) kg_result) MultiHandler"
  ex_rand :: "'s kg_rand"

text \<open>\<open>SchnorrKeyGenServiceImpl\<close>; the nil map is empty.\<close>

record ('s, 'p) SchnorrKeyGenServiceImpl =
  executions :: "(string, ('s, 'p) keygenExecution) gomap"

section \<open>Requests and responses\<close>

record SchnorrKeyGenRequest =
  rq_Phase :: int
  rq_StateID :: string
  rq_SelfID :: string
  rq_SessionContext :: string
  rq_InboundMessages :: "string list"

record SchnorrKeyGenResponse =
  Status :: string
  rs_StateID :: string
  OutboundMessages :: "string list"
  EncodedKeyShare :: string
  ProcessedMessages :: nat
  rs_Error :: string

record SchnorrKeyGenSessionContext =
  cx_SessionIDBase64 :: string
  cx_Participants :: "string list"
  cx_Threshold :: int

text \<open>\<open>encoding/json\<close> for these structs.\<close>

record schnorr_json =
  js_request :: "string \<Rightarrow> go_error + SchnorrKeyGenRequest"
  js_response :: "SchnorrKeyGenResponse \<Rightarrow> go_error + string"
  js_contextMarshal :: "SchnorrKeyGenSessionContext \<Rightarrow> go_error + bytes"
  js_contextUnmarshal :: "bytes \<Rightarrow> go_error + SchnorrKeyGenSessionContext"

abbreviation response0 :: SchnorrKeyGenResponse where
  "response0 \<equiv> \<lparr>Status = '''', rs_StateID = '''', OutboundMessages = [], EncodedKeyShare = '''',
     ProcessedMessages = 0, rs_Error = ''''\<rparr>"

definition error_response :: "string \<Rightarrow> string \<Rightarrow> SchnorrKeyGenResponse" where
  "error_response stateID e = response0\<lparr>Status := ''ERROR'', rs_StateID := stateID, rs_Error := e\<rparr>"

definition keyGenSessionContextPrefix :: string where
  "keyGenSessionContextPrefix = ''mpsig.taproot.keygen.ctx.v1.''"

definition keyShareEnvelopePrefix :: string where
  "keyShareEnvelopePrefix = ''mpsig.taproot.keyshare.v1.''"

definition quoted :: "string \<Rightarrow> string" where
  "quoted s = [CHR 0x22] @ s @ [CHR 0x22]"

section \<open>Session contexts\<close>

text \<open>The loop of \<open>normalizeParticipants\<close>; \<open>seen\<close> are the keys of the map, \<open>out\<close> the result so far.\<close>

fun normalize_loop :: "string list \<Rightarrow> string list \<Rightarrow> string list \<Rightarrow> go_error + string list" where
  "normalize_loop [] seen out = Inr out"
| "normalize_loop (p # ps) seen out = (let i = TrimSpace p in
     if i = '''' then Inl (Err ''participants contains empty id'')
     else if i \<in> set seen then Inl (Err (''duplicate participant id: '' @ i))
     else normalize_loop ps (i # seen) (out @ [i]))"

definition normalizeParticipants :: "string list \<Rightarrow> go_error + string list" where
  "normalizeParticipants participants =
     (if length participants = 0 then Inl (Err ''participants must not be empty'')
      else rbind (normalize_loop participants [] []) (\<lambda>out. Inr (sort out)))"

text \<open>\<open>raw\<close> are the bytes \<open>rand.Read\<close> yields.\<close>

definition normalizeOrGenerateSessionID :: "bytes option \<Rightarrow> string \<Rightarrow> bool \<Rightarrow> go_error + string" where
  "normalizeOrGenerateSessionID raw sessionIDBase64 allowGenerate =
     (let sid = TrimSpace sessionIDBase64 in
      if sid = '''' then
        (if \<not> allowGenerate then Inl (Err ''session_id_base64 is empty in session context'')
         else case raw of None \<Rightarrow> Inl (Wrap ''generate session id'' (Err ''rand'')) | Some bs \<Rightarrow> Inr (b64_encode bs))
      else case b64_decode sid of
        Inl e \<Rightarrow> Inl (Wrap ''invalid session_id_base64'' e)
      | Inr d \<Rightarrow> if length d = 0 then Inl (Err ''session_id_base64 cannot decode to empty bytes'') else Inr sid)"

definition threshold_err :: "int \<Rightarrow> string list \<Rightarrow> go_error + 'a" where
  "threshold_err t ps = Inl (Err (''invalid threshold '' @ int_text t @ '' for '' @ nat_text (length ps) @ '' participants''))"

definition BuildSchnorrKeyGenSessionContext :: "schnorr_json \<Rightarrow> bytes option \<Rightarrow> string list \<Rightarrow> int \<Rightarrow> string
    \<Rightarrow> go_error + string" where
  "BuildSchnorrKeyGenSessionContext js raw participants threshold sessionIDBase64 =
     rbind (normalizeParticipants participants) (\<lambda>normalizedParticipants.
     if threshold < 0 \<or> threshold \<ge> int (length normalizedParticipants)
     then threshold_err threshold normalizedParticipants
     else rbind (normalizeOrGenerateSessionID raw sessionIDBase64 True) (\<lambda>sid.
       case js_contextMarshal js \<lparr>cx_SessionIDBase64 = sid, cx_Participants = normalizedParticipants,
              cx_Threshold = threshold\<rparr> of
         Inl e \<Rightarrow> Inl (Wrap ''marshal session context'' e)
       | Inr d \<Rightarrow> Inr (keyGenSessionContextPrefix @ b64_encode d)))"

definition DecodeSchnorrKeyGenSessionContext :: "schnorr_json \<Rightarrow> string \<Rightarrow> go_error + SchnorrKeyGenSessionContext" where
  "DecodeSchnorrKeyGenSessionContext js encoded =
     (if \<not> HasPrefix encoded keyGenSessionContextPrefix
      then Inl (Err (''invalid session context prefix, expected '' @ quoted keyGenSessionContextPrefix))
      else case b64_decode (TrimPrefix encoded keyGenSessionContextPrefix) of
        Inl e \<Rightarrow> Inl (Wrap ''decode session context base64'' e)
      | Inr payload \<Rightarrow> (case js_contextUnmarshal js payload of
          Inl e \<Rightarrow> Inl (Wrap ''decode session context JSON'' e)
        | Inr ctx \<Rightarrow>
            rbind (normalizeParticipants (cx_Participants ctx)) (\<lambda>participants.
            if cx_Threshold ctx < 0 \<or> cx_Threshold ctx \<ge> int (length participants)
            then threshold_err (cx_Threshold ctx) participants
            else rbind (normalizeOrGenerateSessionID None (cx_SessionIDBase64 ctx) False) (\<lambda>sid.
              Inr \<lparr>cx_SessionIDBase64 = sid, cx_Participants = participants, cx_Threshold = cx_Threshold ctx\<rparr>))))"

section \<open>Stored key shares\<close>

definition EncodeTaprootKeyShareForStorage :: "('s, 'p) curve \<Rightarrow> wire_codec \<Rightarrow> ('s option, 'p option) TaprootConfig option
    \<Rightarrow> go_error + string" where
  "EncodeTaprootKeyShareForStorage C cbor config = rbind (taproot_wire C config) (\<lambda>wire.
     case wire_Marshal cbor wire of
       Inl e \<Rightarrow> Inl (Wrap ''marshal taproot config'' e)
     | Inr raw \<Rightarrow> Inr (keyShareEnvelopePrefix @ b64_encode raw))"

definition DecodeTaprootKeyShareFromStorage :: "('s::field, 'p) curve \<Rightarrow> wire_codec \<Rightarrow> string
    \<Rightarrow> go_error + ('s, 'p) TaprootConfig" where
  "DecodeTaprootKeyShareFromStorage C cbor stored =
     (if \<not> HasPrefix stored keyShareEnvelopePrefix
      then Inl (Err (''invalid key share prefix, expected '' @ quoted keyShareEnvelopePrefix))
      else case b64_decode (TrimPrefix stored keyShareEnvelopePrefix) of
        Inl e \<Rightarrow> Inl (Wrap ''decode key share base64'' e)
      | Inr payload \<Rightarrow> (case wire_Unmarshal cbor payload of
          Inl e \<Rightarrow> Inl (Wrap ''decode key share payload'' e)
        | Inr wire \<Rightarrow> from_wire C wire))"

section \<open>Messages\<close>

definition encodeProtocolMessageToString :: "('s, 'p) svc_env \<Rightarrow> Message option \<Rightarrow> go_error + string" where
  "encodeProtocolMessageToString E msg = (case msg of
     None \<Rightarrow> Inl (Err ''protocol message is nil'')
   | Some m \<Rightarrow> rbind (Message_MarshalBinary (sv_msgMarshal E) m) (\<lambda>d. Inr (b64_encode d)))"

text \<open>\<open>new(protocol.Message)\<close>\<close>

definition zero_message :: Message where
  "zero_message = \<lparr>SSID = None, From = '''', To = '''', Protocol = '''', RoundNumber = 0, Data = None,
     Broadcast = False, BroadcastVerification = None\<rparr>"

definition decodeProtocolMessageFromString :: "('s, 'p) svc_env \<Rightarrow> string \<Rightarrow> go_error + Message" where
  "decodeProtocolMessageFromString E encoded = (case b64_decode encoded of
     Inl e \<Rightarrow> Inl (Wrap ''decode protocol message base64'' e)
   | Inr d \<Rightarrow> (case Message_UnmarshalBinary (sv_msgUnmarshal E) zero_message d of
       (msg, Some e) \<Rightarrow> Inl (Wrap ''decode protocol message binary'' e)
     | (msg, None) \<Rightarrow> Inr msg))"

text \<open>\<open>drainOutbound\<close> receives until nothing is buffered (or the channel is closed and empty).\<close>

function drain_loop :: "('s, 'p) svc_env \<Rightarrow> string list \<Rightarrow> ('r, 'res) MultiHandler
    \<Rightarrow> (go_error + string list) \<times> ('r, 'res) MultiHandler" where
  "drain_loop E outbound h = (case Listen_recv h of
     (None, h') \<Rightarrow> (Inr outbound, h')
   | (Some m, h') \<Rightarrow> (case encodeProtocolMessageToString E (Some m) of
       Inl e \<Rightarrow> (Inl (Wrap ''encode outbound message'' e), h')
     | Inr encoded \<Rightarrow> drain_loop E (outbound @ [encoded]) h'))"
  by pat_completeness auto

termination
  by (relation "measure (\<lambda>(E, out, h). length (h_out h))") (auto simp: Listen_recv_def split: list.splits)

declare drain_loop.simps [simp del]

definition drainOutbound :: "('s, 'p) svc_env \<Rightarrow> ('r, 'res) MultiHandler
    \<Rightarrow> (go_error + string list) \<times> ('r, 'res) MultiHandler" where
  "drainOutbound E h = drain_loop E [] h"

text \<open>The loop over the inbound messages of a request: the error that ends it early, the number of
  messages processed, and the handler.\<close>

fun accept_inbound :: "('s::field, 'p::ab_group_add) svc_env \<Rightarrow> 's kg_rand \<Rightarrow> string list \<Rightarrow> nat
    \<Rightarrow> (('s, 'p) kg_round, ('s, 'p) kg_result) MultiHandler
    \<Rightarrow> (go_error option \<times> nat \<times> (('s, 'p) kg_round, ('s, 'p) kg_result) MultiHandler) outcome" where
  "accept_inbound E rnd [] processed h = Ret (None, processed, h)"
| "accept_inbound E rnd (encoded # rest) processed h = (case decodeProtocolMessageFromString E encoded of
     Inl e \<Rightarrow> Ret (Some e, processed, h)
   | Inr msg \<Rightarrow> obind (Accept (sv_runtime E rnd) (Some msg) h) (accept_inbound E rnd rest (Suc processed)))"

definition isNotFinished :: "go_error \<Rightarrow> bool" where
  "isNotFinished e \<longleftrightarrow> error_text e = ''protocol: not finished''"

section \<open>Executions\<close>

definition getExecution :: "('s, 'p) SchnorrKeyGenServiceImpl \<Rightarrow> string \<Rightarrow> ('s, 'p) keygenExecution option" where
  "getExecution s stateID = mget (executions s) stateID"

definition putExecution :: "string \<Rightarrow> ('s, 'p) keygenExecution \<Rightarrow> ('s, 'p) SchnorrKeyGenServiceImpl
    \<Rightarrow> ('s, 'p) SchnorrKeyGenServiceImpl" where
  "putExecution stateID ex s = s\<lparr>executions := mput stateID ex (executions s)\<rparr>"

definition deleteExecution :: "string \<Rightarrow> ('s, 'p) SchnorrKeyGenServiceImpl \<Rightarrow> ('s, 'p) SchnorrKeyGenServiceImpl" where
  "deleteExecution stateID s = s\<lparr>executions := AList.delete stateID (executions s)\<rparr>"

definition failAndCleanup :: "string \<Rightarrow> go_error \<Rightarrow> ('s, 'p) SchnorrKeyGenServiceImpl
    \<Rightarrow> SchnorrKeyGenResponse \<times> ('s, 'p) SchnorrKeyGenServiceImpl" where
  "failAndCleanup stateID err s = (error_response stateID (error_text err), deleteExecution stateID s)"

definition newStateID :: "bytes option \<Rightarrow> go_error + string" where
  "newStateID raw = (case raw of None \<Rightarrow> Inl (Err ''rand'') | Some b \<Rightarrow> Inr (hex_encode b))"

fun containsString :: "string list \<Rightarrow> string \<Rightarrow> bool" where
  "containsString [] target = False"
| "containsString (x # xs) target = (if x = target then True else containsString xs target)"

section \<open>The entry point\<close>

text \<open>What follows the parameter checks of \<open>handleInit\<close>: start the handler, register it, send.\<close>

definition start_execution :: "('s::field, 'p::ab_group_add) svc_env \<Rightarrow> 's svc_rand
    \<Rightarrow> (bytes option \<Rightarrow> go_error + ('s, 'p) kg_round1) \<Rightarrow> bytes \<Rightarrow> ('s, 'p) SchnorrKeyGenServiceImpl
    \<Rightarrow> (SchnorrKeyGenResponse \<times> ('s, 'p) SchnorrKeyGenServiceImpl) outcome" where
  "start_execution E rnd start sessionID s =
     obind (NewMultiHandler (sv_runtime E (sr_keygen rnd)) (\<lambda>sid. map_sum (\<lambda>e. e) (\<lambda>r. Live (Kg1 r)) (start sid)) (Some sessionID))
       (\<lambda>res. Ret (case res of
          Inl e \<Rightarrow> (error_response '''' (''failed to initialize keygen: '' @ error_text e), s)
        | Inr handler \<Rightarrow> (case newStateID (sr_state rnd) of
            Inl e \<Rightarrow> (error_response '''' (''failed to create state id: '' @ error_text e), s)
          | Inr stateID \<Rightarrow>
              (case drainOutbound E handler of
                 (Inl e, h') \<Rightarrow> failAndCleanup stateID e
                    (putExecution stateID \<lparr>ex_handler = h', ex_rand = sr_keygen rnd\<rparr> s)
               | (Inr outbound, h') \<Rightarrow>
                   (response0\<lparr>Status := ''PENDING'', rs_StateID := stateID, OutboundMessages := outbound\<rparr>,
                    putExecution stateID \<lparr>ex_handler = h', ex_rand = sr_keygen rnd\<rparr> s)))))"

definition handleInit :: "('s::field, 'p::ab_group_add) svc_env \<Rightarrow> schnorr_json \<Rightarrow> 's svc_rand \<Rightarrow> SchnorrKeyGenRequest
    \<Rightarrow> ('s, 'p) SchnorrKeyGenServiceImpl \<Rightarrow> (SchnorrKeyGenResponse \<times> ('s, 'p) SchnorrKeyGenServiceImpl) outcome" where
  "handleInit E js rnd req s =
     (let selfID = TrimSpace (rq_SelfID req) in
      if selfID = '''' then Ret (error_response '''' ''self_id is required for phase=1'', s)
      else case DecodeSchnorrKeyGenSessionContext js (rq_SessionContext req) of
        Inl e \<Rightarrow> Ret (error_response '''' (error_text e), s)
      | Inr ctx \<Rightarrow>
          if \<not> containsString (cx_Participants ctx) selfID
          then Ret (error_response '''' ''self_id must be included in session_context participants'', s)
          else case b64_decode (cx_SessionIDBase64 ctx) of
            Inl e \<Rightarrow> Ret (error_response '''' (''invalid session_id_base64: '' @ error_text e), s)
          | Inr sessionID \<Rightarrow>
              start_execution E rnd (\<lambda>sid. snd (frost_KeygenTaproot (sv_curve E) (sv_blake3 E) selfID
                (cx_Participants ctx) (cx_Threshold ctx) (None, None) sid)) sessionID s)"

text \<open>\<open>handleContinue\<close>, over the encoding of the finished share.\<close>

definition continue_execution :: "('s::field, 'p::ab_group_add) svc_env
    \<Rightarrow> (('s option, 'p option) TaprootConfig option \<Rightarrow> go_error + string) \<Rightarrow> string \<Rightarrow> string list
    \<Rightarrow> ('s, 'p) SchnorrKeyGenServiceImpl \<Rightarrow> (SchnorrKeyGenResponse \<times> ('s, 'p) SchnorrKeyGenServiceImpl) outcome" where
  "continue_execution E encode stateID inbound s = (case getExecution s stateID of
       None \<Rightarrow> Ret (error_response '''' ''state_id not found'', s)
     | Some ex \<Rightarrow>
         obind (accept_inbound E (ex_rand ex) inbound 0 (ex_handler ex)) (\<lambda>(err, processed, h1).
         let s1 = putExecution stateID (ex\<lparr>ex_handler := h1\<rparr>) s in Ret (case err of
           Some e \<Rightarrow> (error_response stateID (''decode inbound message: '' @ error_text e), s1)
         | None \<Rightarrow> (case drainOutbound E h1 of
             (Inl e, h2) \<Rightarrow> failAndCleanup stateID e s1
           | (Inr outbound, h2) \<Rightarrow> (case Result h2 of
               Inr (KgConfig cfg) \<Rightarrow> failAndCleanup stateID (Err ''unexpected keygen result type: *keygen.Config'') s1
             | Inr (KgTaproot cfg) \<Rightarrow> (case encode (Some (tap_ptrs cfg)) of
                 Inl e \<Rightarrow> failAndCleanup stateID e s1
               | Inr share \<Rightarrow>
                   (response0\<lparr>Status := ''DONE'', rs_StateID := stateID, OutboundMessages := outbound,
                      EncodedKeyShare := share, ProcessedMessages := processed\<rparr>, deleteExecution stateID s1))
             | Inl e \<Rightarrow> if \<not> isNotFinished e then failAndCleanup stateID e s1
                 else (response0\<lparr>Status := ''PENDING'', rs_StateID := stateID, OutboundMessages := outbound,
                         ProcessedMessages := processed\<rparr>,
                       putExecution stateID (ex\<lparr>ex_handler := h2\<rparr>) s))))))"

definition handleContinue :: "('s::field, 'p::ab_group_add) svc_env \<Rightarrow> SchnorrKeyGenRequest
    \<Rightarrow> ('s, 'p) SchnorrKeyGenServiceImpl \<Rightarrow> (SchnorrKeyGenResponse \<times> ('s, 'p) SchnorrKeyGenServiceImpl) outcome" where
  "handleContinue E req s =
     (let stateID = TrimSpace (rq_StateID req) in
      if stateID = '''' then Ret (error_response '''' ''state_id is required for phase=2'', s)
      else continue_execution E (EncodeTaprootKeyShareForStorage (sv_curve E) (sv_wire E)) stateID
        (rq_InboundMessages req) s)"

text \<open>Every branch of the handlers ends in \<open>mustJSON\<close>; here \<open>KeyGen\<close> applies it once.\<close>

definition mustJSON :: "schnorr_json \<Rightarrow> SchnorrKeyGenResponse \<Rightarrow> string" where
  "mustJSON js resp = (case js_response js resp of
     Inl e \<Rightarrow> ''{'' @ quoted ''status'' @ '':'' @ quoted ''ERROR'' @ '','' @ quoted ''error'' @ '':''
       @ quoted ''failed to marshal response'' @ ''}''
   | Inr text \<Rightarrow> text)"

definition handle_request :: "('s::field, 'p::ab_group_add) svc_env \<Rightarrow> schnorr_json \<Rightarrow> 's svc_rand \<Rightarrow> string
    \<Rightarrow> ('s, 'p) SchnorrKeyGenServiceImpl \<Rightarrow> (SchnorrKeyGenResponse \<times> ('s, 'p) SchnorrKeyGenServiceImpl) outcome" where
  "handle_request E js rnd reqStr s = (case js_request js reqStr of
     Inl e \<Rightarrow> Ret (error_response '''' (''invalid request JSON: '' @ error_text e), s)
   | Inr req \<Rightarrow>
       if rq_Phase req = 1 then handleInit E js rnd req s
       else if rq_Phase req = 2 then handleContinue E req s
       else Ret (error_response '''' ''unsupported phase, expected 1(init) or 2(continue)'', s))"

definition KeyGen :: "('s::field, 'p::ab_group_add) svc_env \<Rightarrow> schnorr_json \<Rightarrow> 's svc_rand \<Rightarrow> string
    \<Rightarrow> ('s, 'p) SchnorrKeyGenServiceImpl \<Rightarrow> (string \<times> ('s, 'p) SchnorrKeyGenServiceImpl) outcome" where
  "KeyGen E js rnd reqStr s =
     obind (handle_request E js rnd reqStr s) (\<lambda>(resp, s'). Ret (mustJSON js resp, s'))"

section \<open>The service of the keygen package\<close>

text \<open>\<open>protocols/frost/keygen/service.go\<close>: the same service without session contexts. Identifiers are taken as
  they are given, and the responses carry the session identifier.\<close>

record KeyGenRequest =
  kq_Action :: string
  kq_StateID :: string
  kq_SelfID :: string
  kq_Participants :: "string list"
  kq_Threshold :: int
  kq_SessionIDBase64 :: string
  kq_InboundMessages :: "string list"

record KeyGenResponse = SchnorrKeyGenResponse +
  rs_SessionIDBase64 :: string

definition with_session :: "string \<Rightarrow> SchnorrKeyGenResponse \<Rightarrow> KeyGenResponse" where
  "with_session sid resp = SchnorrKeyGenResponse.extend resp (KeyGenResponse.fields sid)"

definition parseOrCreateSessionID :: "bytes option \<Rightarrow> string \<Rightarrow> go_error + bytes \<times> string" where
  "parseOrCreateSessionID raw sessionIDB64 =
     (if TrimSpace sessionIDB64 = '''' then
        (case raw of None \<Rightarrow> Inl (Wrap ''failed to generate session_id'' (Err ''rand'')) | Some bs \<Rightarrow> Inr (bs, b64_encode bs))
      else case b64_decode sessionIDB64 of
        Inl e \<Rightarrow> Inl (Wrap ''invalid session_id_base64'' e)
      | Inr d \<Rightarrow> if length d = 0 then Inl (Err ''session_id_base64 cannot decode to empty bytes'') else Inr (d, sessionIDB64))"

definition keygen_handleInit :: "('s::field, 'p::ab_group_add) svc_env \<Rightarrow> 's svc_rand \<Rightarrow> KeyGenRequest
    \<Rightarrow> ('s, 'p) SchnorrKeyGenServiceImpl \<Rightarrow> (KeyGenResponse \<times> ('s, 'p) SchnorrKeyGenServiceImpl) outcome" where
  "keygen_handleInit E rnd req s =
     (if TrimSpace (kq_SelfID req) = '''' then Ret (with_session '''' (error_response '''' ''self_id is required for init''), s)
      else if length (kq_Participants req) = 0
        then Ret (with_session '''' (error_response '''' ''participants is required for init''), s)
      else if \<exists>p \<in> set (kq_Participants req). TrimSpace p = ''''
        then Ret (with_session '''' (error_response '''' ''participants contains empty id''), s)
      else if \<not> Contains (NewIDSlice (kq_Participants req)) [kq_SelfID req]
        then Ret (with_session '''' (error_response '''' ''self_id must be included in participants''), s)
      else case parseOrCreateSessionID (sr_session rnd) (kq_SessionIDBase64 req) of
        Inl e \<Rightarrow> Ret (with_session '''' (error_response '''' (error_text e)), s)
      | Inr (sessionID, sessionIDB64) \<Rightarrow>
          obind (start_execution E rnd (\<lambda>sid. snd (StartKeygenCommon (sv_curve E) (sv_blake3 E) True
            (kq_Participants req) (kq_Threshold req) (kq_SelfID req) [] (None, None) sid)) sessionID s) (\<lambda>(resp, s').
          Ret (with_session (if Status resp = ''PENDING'' then sessionIDB64 else '''') resp, s')))"

definition keygen_handleContinue :: "('s::field, 'p::ab_group_add) svc_env \<Rightarrow> KeyGenRequest
    \<Rightarrow> ('s, 'p) SchnorrKeyGenServiceImpl \<Rightarrow> (KeyGenResponse \<times> ('s, 'p) SchnorrKeyGenServiceImpl) outcome" where
  "keygen_handleContinue E req s =
     (let stateID = TrimSpace (kq_StateID req) in
      if stateID = '''' then Ret (with_session '''' (error_response '''' ''state_id is required for continue''), s)
      else obind (continue_execution E (EncodeTaprootConfigToString (sv_curve E) (sv_wire E)) stateID
        (kq_InboundMessages req) s) (\<lambda>(resp, s'). Ret (with_session '''' resp, s')))"

text \<open>\<open>KeyGen\<close> of this package, up to \<open>mustJSON\<close>; \<open>parsed\<close> is the outcome of \<open>json.Unmarshal\<close> on the request.\<close>

definition keygen_handle :: "('s::field, 'p::ab_group_add) svc_env \<Rightarrow> 's svc_rand \<Rightarrow> (go_error + KeyGenRequest)
    \<Rightarrow> ('s, 'p) SchnorrKeyGenServiceImpl \<Rightarrow> (KeyGenResponse \<times> ('s, 'p) SchnorrKeyGenServiceImpl) outcome" where
  "keygen_handle E rnd parsed s = (case parsed of
     Inl e \<Rightarrow> Ret (with_session '''' (error_response '''' (''invalid request JSON: '' @ error_text e)), s)
   | Inr req \<Rightarrow>
       let action = ToLower (TrimSpace (kq_Action req)) in
       if action = ''init'' then keygen_handleInit E rnd req s
       else if action = ''continue'' then keygen_handleContinue E req s
       else Ret (with_session '''' (error_response '''' ''unsupported action, expected init or continue''), s))"

section \<open>Services in use\<close>

text \<open>\<open>encoding/json\<close> decodes strings to valid UTF-8: it puts U+FFFD in place of what is not.\<close>

definition json_text :: "schnorr_json \<Rightarrow> bool" where
  "json_text js \<longleftrightarrow> (\<forall>d ctx. js_contextUnmarshal js d = Inr ctx \<longrightarrow> list_all utf8 (cx_Participants ctx))"

definition request_text :: "go_error + KeyGenRequest \<Rightarrow> bool" where
  "request_text parsed = (case parsed of Inl e \<Rightarrow> True | Inr req \<Rightarrow> list_all utf8 (kq_Participants req))"

text \<open>A service, of either kind, after any sequence of calls that return.\<close>

inductive in_use :: "('s::field, 'p::ab_group_add) svc_env \<Rightarrow> ('s, 'p) SchnorrKeyGenServiceImpl \<Rightarrow> bool" for E where
  fresh: "in_use E \<lparr>executions = []\<rparr>"
| schnorr: "in_use E s \<Longrightarrow> json_text js \<Longrightarrow> KeyGen E js rnd reqStr s = Ret (answer, s') \<Longrightarrow> in_use E s'"
| keygen: "in_use E s \<Longrightarrow> request_text parsed \<Longrightarrow> keygen_handle E rnd parsed s = Ret (resp, s') \<Longrightarrow> in_use E s'"

text \<open>An execution comes from a fresh start of taproot key generation, by calls of the engine.\<close>

definition execution_ok :: "('s::field, 'p::ab_group_add) svc_env \<Rightarrow> ('s, 'p) keygenExecution \<Rightarrow> bool" where
  "execution_ok E ex \<longleftrightarrow> (\<exists>participants t self sid captured r. list_all utf8 participants \<and>
     StartKeygenCommon (sv_curve E) (sv_blake3 E) True participants t self [] (None, None) sid = (captured, Inr r) \<and>
     reachable (sv_runtime E (ex_rand ex)) (Live (Kg1 r)) (ex_handler ex))"

definition service_ok :: "('s::field, 'p::ab_group_add) svc_env \<Rightarrow> ('s, 'p) SchnorrKeyGenServiceImpl \<Rightarrow> bool" where
  "service_ok E s \<longleftrightarrow> (\<forall>k ex. mget (executions s) k = Some ex \<longrightarrow> execution_ok E ex)"

lemma service_ok_put [simp]: "service_ok E s \<Longrightarrow> execution_ok E ex \<Longrightarrow> service_ok E (putExecution k ex s)"
  by (simp add: service_ok_def putExecution_def)

lemma service_ok_delete [simp]: "service_ok E s \<Longrightarrow> service_ok E (deleteExecution k s)"
  by (simp add: service_ok_def deleteExecution_def delete_conv')

lemma drain_loop_reachable: "reachable rt r h \<Longrightarrow> reachable rt r (snd (drain_loop E out h))"
proof (induction E out h rule: drain_loop.induct)
  case (1 E out h)
  obtain m h' where m: "Listen_recv h = (m, h')" by (cases "Listen_recv h")
  then have r: "reachable rt r h'" by (rule reachable.listen[OF 1(2)])
  show ?case
  proof (cases m)
    case (Some x)
    then show ?thesis
      using 1(1)[OF m[symmetric] Some _ r] m r
      by (cases "encodeProtocolMessageToString E (Some x)") (simp_all add: drain_loop.simps[of E out h])
  qed (use m r in \<open>simp add: drain_loop.simps[of E out h]\<close>)
qed

lemma drain_reachable: "drainOutbound E h = (ob, h') \<Longrightarrow> reachable rt r h \<Longrightarrow> reachable rt r h'"
  using drain_loop_reachable[of rt r h E "[]"] by (simp add: drainOutbound_def)

lemma accept_inbound_append:
  "accept_inbound E rnd ms n h = Ret (None, n', h') \<Longrightarrow>
    accept_inbound E rnd (ms @ ms') n h = accept_inbound E rnd ms' n' h'"
  by (induction ms arbitrary: n h) (auto split: sum.split_asm elim!: obind_RetE)

lemma accept_inbound_reachable:
  "accept_inbound E rnd ms n h = Ret (e, n', h') \<Longrightarrow> reachable (sv_runtime E rnd) r h \<Longrightarrow> reachable (sv_runtime E rnd) r h'"
proof (induction ms arbitrary: n h)
  case (Cons m ms)
  then show ?case
    by (auto split: sum.split_asm elim!: obind_RetE intro: reachable.accept)
qed simp

lemma continue_execution_ok:
  assumes "service_ok E s" and "continue_execution E encode k ms s = Ret (resp, s')"
  shows "service_ok E s'"
proof (cases "getExecution s k")
  case None
  then show ?thesis using assms by (simp add: continue_execution_def)
next
  case (Some ex)
  obtain err n h1 where a: "accept_inbound E (ex_rand ex) ms 0 (ex_handler ex) = Ret (err, n, h1)"
    using assms(2) Some by (auto simp: continue_execution_def elim!: obind_RetE)
  obtain ob h2 where d: "drainOutbound E h1 = (ob, h2)" by (cases "drainOutbound E h1")
  have "execution_ok E ex" using assms(1) Some by (simp add: service_ok_def getExecution_def)
  then have e1: "execution_ok E (ex\<lparr>ex_handler := h1\<rparr>)" and e2: "execution_ok E (ex\<lparr>ex_handler := h2\<rparr>)"
    using accept_inbound_reachable[OF a] drain_reachable[OF d] by (fastforce simp: execution_ok_def)+
  let ?s1 = "putExecution k (ex\<lparr>ex_handler := h1\<rparr>) s"
  have "s' \<in> {?s1, deleteExecution k ?s1, putExecution k (ex\<lparr>ex_handler := h2\<rparr>) s}"
    using assms(2) Some a d
    by (auto simp: continue_execution_def failAndCleanup_def Let_def split: option.split_asm sum.split_asm kg_result.split_asm if_split_asm)
  then show ?thesis using assms(1) e1 e2 by auto
qed

lemma start_execution_ok:
  assumes "service_ok E s" and "start_execution E rnd start sid s = Ret (resp, s')"
    and "\<And>sid r. start sid = Inr r \<Longrightarrow> \<exists>ps t self. list_all utf8 ps \<and>
      snd (StartKeygenCommon (sv_curve E) (sv_blake3 E) True ps t self [] (None, None) sid) = Inr r"
  shows "service_ok E s'"
proof -
  let ?create = "\<lambda>sid. map_sum (\<lambda>e. e) (\<lambda>r. Live (Kg1 r)) (start sid)"
  let ?rt = "sv_runtime E (sr_keygen rnd)"
  obtain res where n: "NewMultiHandler ?rt ?create (Some sid) = Ret res"
    using assms(2) by (auto simp: start_execution_def elim!: obind_RetE)
  show ?thesis
  proof (cases res)
    case (Inl e)
    then show ?thesis using assms n by (simp add: start_execution_def)
  next
    case (Inr h)
    obtain ob h' where d: "drainOutbound E h = (ob, h')" by (cases "drainOutbound E h")
    obtain r where r: "start (Some sid) = Inr r"
      using n Inr by (cases "start (Some sid)") (auto simp: NewMultiHandler_def)
    have "reachable ?rt (Live (Kg1 r)) h" by (rule reachable.start[of ?create "Some sid"]) (use n Inr r in simp_all)
    then have "execution_ok E \<lparr>ex_handler = h', ex_rand = sr_keygen rnd\<rparr>"
      using drain_reachable[OF d] assms(3)[OF r] unfolding execution_ok_def
      by (metis (no_types, lifting) keygenExecution.select_convs prod.collapse)
    then show ?thesis
      using assms(1,2) n Inr d
      by (auto simp: start_execution_def failAndCleanup_def split: sum.split_asm)
  qed
qed

text \<open>What \<open>normalizeParticipants\<close> returns is normal.\<close>

lemma normalize_loop_Inr:
  "normalize_loop ps seen out = Inr res \<longleftrightarrow> res = out @ map TrimSpace ps \<and> distinct (map TrimSpace ps) \<and>
     '''' \<notin> set (map TrimSpace ps) \<and> set (map TrimSpace ps) \<inter> set seen = {}"
  by (induction ps arbitrary: seen out) (auto simp: Let_def)

lemma normalizeParticipants_Inr:
  "normalizeParticipants ps = Inr res \<longleftrightarrow> ps \<noteq> [] \<and> res = sort (map TrimSpace ps) \<and> distinct (map TrimSpace ps) \<and>
     '''' \<notin> set (map TrimSpace ps)"
proof -
  have "normalizeParticipants ps = Inr res \<longleftrightarrow> ps \<noteq> [] \<and> (\<exists>out. normalize_loop ps [] [] = Inr out \<and> res = sort out)"
    by (cases "normalize_loop ps [] []") (auto simp: normalizeParticipants_def)
  then show ?thesis by (auto simp: normalize_loop_Inr)
qed

lemma normalizeParticipants_again:
  assumes "normalizeParticipants ps = Inr res"
  shows "normalizeParticipants res = Inr res"
proof -
  have r: "res = sort (map TrimSpace ps)" "distinct res" "'''' \<notin> set res" "ps \<noteq> []"
    using assms by (auto simp: normalizeParticipants_Inr)
  have "map TrimSpace res = res" by (rule map_idI) (auto simp: r(1))
  moreover have "sort res = res" unfolding r(1) by (simp add: sorted_sort_id)
  moreover have "res \<noteq> []" using r(1,4) by (metis length_map length_sort list.size(3) length_0_conv)
  ultimately show ?thesis using r(2,3) by (simp add: normalizeParticipants_Inr)
qed

lemma Decode_text:
  assumes "json_text js" and "DecodeSchnorrKeyGenSessionContext js enc = Inr ctx"
  shows "list_all utf8 (cx_Participants ctx)"
proof -
  obtain d ctx0 where "js_contextUnmarshal js d = Inr ctx0" "normalizeParticipants (cx_Participants ctx0) = Inr (cx_Participants ctx)"
    using assms(2) by (auto simp: DecodeSchnorrKeyGenSessionContext_def threshold_err_def
        split: if_split_asm sum.split_asm dest!: rbind_InrD)
  then show ?thesis
    using assms(1) utf8_TrimSpace by (auto simp: json_text_def normalizeParticipants_Inr list_all_iff)
qed

lemma handle_request_ok:
  assumes ok: "service_ok E s" and js: "json_text js" and run: "handle_request E js rnd reqStr s = Ret (resp, s')"
  shows "service_ok E s'"
proof -
  have start: "service_ok E s'" if d: "DecodeSchnorrKeyGenSessionContext js enc = Inr ctx"
    and st: "start_execution E rnd (\<lambda>sid. snd (frost_KeygenTaproot (sv_curve E) (sv_blake3 E) self
      (cx_Participants ctx) (cx_Threshold ctx) (None, None) sid)) k s = Ret (resp, s')" for enc ctx self k
    by (rule start_execution_ok[OF ok st]) (use Decode_text[OF js d] in \<open>auto simp: frost_KeygenTaproot_def\<close>)
  show ?thesis
    using run ok
    by (auto simp: handle_request_def handleInit_def handleContinue_def Let_def intro: start
        split: sum.split_asm if_split_asm elim!: continue_execution_ok[rotated])
qed

lemma keygen_handle_ok:
  assumes ok: "service_ok E s" and rq: "request_text parsed" and run: "keygen_handle E rnd parsed s = Ret (resp, s')"
  shows "service_ok E s'"
proof -
  have start: "service_ok E s'" if p: "parsed = Inr req"
    and st: "start_execution E rnd (\<lambda>sid. snd (StartKeygenCommon (sv_curve E) (sv_blake3 E) True
      (kq_Participants req) (kq_Threshold req) (kq_SelfID req) [] (None, None) sid)) k s = Ret (resp', s')" for req k resp'
    by (rule start_execution_ok[OF ok st]) (use rq p in \<open>auto simp: request_text_def\<close>)
  show ?thesis
    using run ok
    by (auto simp: keygen_handle_def keygen_handleInit_def keygen_handleContinue_def Let_def intro: start
        split: sum.split_asm if_split_asm prod.split_asm elim!: obind_RetE continue_execution_ok[rotated])
qed

lemma in_use_ok: "in_use E s \<Longrightarrow> service_ok E s"
proof (induction rule: in_use.induct)
  case (schnorr s js rnd reqStr answer s')
  then show ?case by (auto simp: KeyGen_def elim!: obind_RetE intro: handle_request_ok)
next
  case (keygen s parsed rnd resp s')
  then show ?case by (auto intro: keygen_handle_ok)
qed (simp add: service_ok_def)

section \<open>Results and contexts\<close>

lemma error_response_status [simp]: "Status (error_response k e) = ''ERROR''"
  by (simp add: error_response_def)

lemma fail_status [simp]: "Status (fst (failAndCleanup k e s)) = ''ERROR''"
  by (simp add: failAndCleanup_def)

lemma start_not_done: "start_execution E rnd start sid s = Ret (resp, s') \<Longrightarrow> Status resp \<noteq> ''DONE''"
  by (auto simp: start_execution_def failAndCleanup_def split: sum.split_asm prod.split_asm elim!: obind_RetE)

lemma continue_done:
  assumes laws: "curve_laws (sv_curve E)" "\<And>q. set (sv_order E q) = set q" and ok: "service_ok E s"
    and run: "continue_execution E encode k ms s = Ret (resp, s')" and fin: "Status resp = ''DONE''"
  shows "\<exists>cfg. tap_config_ok (sv_curve E) cfg \<and> tap_text cfg \<and> encode (Some (tap_ptrs cfg)) = Inr (EncodedKeyShare resp) \<and>
    getExecution s' (rs_StateID resp) = None"
proof -
  obtain ex where ex: "getExecution s k = Some ex"
    using run fin by (cases "getExecution s k") (auto simp: continue_execution_def)
  obtain err n h1 where a: "accept_inbound E (ex_rand ex) ms 0 (ex_handler ex) = Ret (err, n, h1)"
    using run ex by (auto simp: continue_execution_def elim!: obind_RetE)
  obtain ob h2 where d: "drainOutbound E h1 = (ob, h2)" by (cases "drainOutbound E h1")
  obtain cfg share where c: "Result h2 = Inr (KgTaproot cfg)" "encode (Some (tap_ptrs cfg)) = Inr share"
    "EncodedKeyShare resp = share" "rs_StateID resp = k" "s' = deleteExecution k (putExecution k (ex\<lparr>ex_handler := h1\<rparr>) s)"
    using run ex a d fin
    by (auto simp: continue_execution_def failAndCleanup_def Let_def
        split: option.split_asm sum.split_asm kg_result.split_asm if_split_asm)
  have "execution_ok E ex" using ok ex by (simp add: service_ok_def getExecution_def)
  then obtain ps t self sid captured r where ps: "list_all utf8 ps" and
    st: "StartKeygenCommon (sv_curve E) (sv_blake3 E) True ps t self [] (None, None) sid = (captured, Inr r)"
    and re: "reachable (sv_runtime E (ex_rand ex)) (Live (Kg1 r)) (ex_handler ex)"
    by (auto simp: execution_ok_def)
  have "reachable (sv_runtime E (ex_rand ex)) (Live (Kg1 r)) h2"
    by (rule drain_reachable[OF d accept_inbound_reachable[OF a re]])
  note res = frost_keygen.keygen_result[OF frost_keygenI[OF laws] this curve_laws.StartKeygen_fresh(1)[OF laws(1) st] c(1)]
  then have ok: "tap_config_ok (sv_curve E) cfg" by simp
  have "set (mkeys (tap_VerificationShares cfg)) = set ps"
    using res curve_laws.StartKeygen_fresh[OF laws(1) st] by simp
  moreover have "tap_ID cfg \<in> set (mkeys (tap_VerificationShares cfg))"
    using ok by (auto simp: tap_config_ok_def set_mkeys)
  ultimately have "tap_text cfg" using ps by (auto simp: tap_text_def list_all_iff)
  then show ?thesis using ok c by (auto simp: getExecution_def deleteExecution_def delete_conv')
qed

lemma handle_request_done:
  assumes "handle_request E js rnd reqStr s = Ret (resp, s')" and "Status resp = ''DONE''"
  obtains k ms where "continue_execution E (EncodeTaprootKeyShareForStorage (sv_curve E) (sv_wire E)) k ms s = Ret (resp, s')"
  using assms that
  by (auto simp: handle_request_def handleInit_def handleContinue_def Let_def
      split: sum.split_asm if_split_asm dest!: start_not_done)

lemma key_share_roundtrip:
  assumes "curve_laws C" and "wire_law cbor" and "tap_text r" and "0 \<notin> set (mvals (tap_VerificationShares r))"
    and "EncodeTaprootKeyShareForStorage C cbor (Some (tap_ptrs r)) = Inr share"
  shows "\<exists>r'. DecodeTaprootKeyShareFromStorage C cbor share = Inr r' \<and> same_tap r' r"
proof -
  obtain d where d: "wire_Marshal cbor (to_wire C r) = Inr d" "share = keyShareEnvelopePrefix @ b64_encode d"
    using assms(5) by (auto simp: EncodeTaprootKeyShareForStorage_def split: sum.split_asm)
  obtain w where "wire_Unmarshal cbor d = Inr w" "\<exists>r'. from_wire C w = Inr r' \<and> same_tap r' r"
    by (rule curve_laws.wire_roundtrip[OF assms(1-4) d(1)])
  then show ?thesis using d(2) by (auto simp: DecodeTaprootKeyShareFromStorage_def)
qed

text \<open>JSON gives back what was encoded, if the strings are valid UTF-8.\<close>

definition json_law :: "schnorr_json \<Rightarrow> bool" where
  "json_law js \<longleftrightarrow> (\<forall>ctx d. utf8 (cx_SessionIDBase64 ctx) \<longrightarrow> list_all utf8 (cx_Participants ctx) \<longrightarrow>
     js_contextMarshal js ctx = Inr d \<longrightarrow> js_contextUnmarshal js d = Inr ctx)"

text \<open>A session identifier that was accepted is normal, and ASCII.\<close>

lemma session_id_normal:
  assumes "normalizeOrGenerateSessionID raw sid True = Inr out" and "raw \<noteq> Some []"
  shows "normalizeOrGenerateSessionID None out False = Inr out" and "utf8 out"
    and "TrimSpace sid \<noteq> '''' \<Longrightarrow> out = TrimSpace sid" and "TrimSpace sid = '''' \<Longrightarrow> raw = Some bs \<Longrightarrow> out = b64_encode bs"
  using assms
  by (auto simp: normalizeOrGenerateSessionID_def Let_def utf8_b64_encode utf8_b64_decode
      split: if_splits option.splits sum.splits)

end
