(* ===== verification/KeygenDegree.thy ===== *)
theory KeygenDegree
  imports FrostKeygen
begin

text \<open>
  Key generation with a commitment of the wrong degree (\<open>protocols/frost/keygen/round2.go\<close>, \<open>round3.go\<close>). Round 2
  stores a commitment whatever its degree; the sum of the commitments in round 3 then fails, and the
  round panics.
\<close>

lemma own_degree:
  assumes "kg_committed C r"
  obtains own where "mget (kg_Phi r) (kg_self r) = Some own" and "Exponent_Degree own = int (nat (kg_threshold r))"
proof -
  obtain own where own: "mget (kg_Phi r) (kg_self r) = Some own" "NewPolynomialExponent C (kg_f_i r) = Ret own"
    and len: "length (kg_f_i r) = Suc (nat (kg_threshold r))"
    using assms by (auto simp: kg_committed_def)
  obtain c cs where f: "kg_f_i r = c # cs" "length cs = nat (kg_threshold r)"
    using len by (cases "kg_f_i r") auto
  show ?thesis
    using that[OF own(1)] own(2) f by (auto simp: NewPolynomialExponent_def Exponent_Degree_def split: if_splits)
qed

text \<open>Polynomials that can be added have one degree.\<close>

lemma Exponent_Sum_degree:
  assumes "Exponent_Sum ps = Ret (Inr s)" and "p \<in> set ps" and "q \<in> set ps"
  shows "Exponent_Degree p = Exponent_Degree q"
proof -
  obtain x xs where ps: "ps = x # xs" using assms(2) by (cases ps) auto
  then have "\<exists>s. Exponent_add_all x xs = Inr s" using assms(1) by (simp add: Exponent_Sum_def)
  then have "length (coefficients y) = length (coefficients x) \<and> IsConstant y = IsConstant x" if "y \<in> set ps" for y
    using that ps Exponent_add_all_Inr_iff[of x xs] by auto
  then show ?thesis using assms(2,3) by (simp add: Exponent_Degree_def)
qed

lemma mget_mvals: "mget m k = Some v \<Longrightarrow> v \<in> set (mvals m)"
  by (force simp: mvals_def dest: map_of_SomeD)

lemma kg_degree_panic:
  assumes "kg_committed C r" and "0 \<le> kg_threshold r" and "mget (kg_Phi r) l = Some phi"
    and "Exponent_Degree phi \<noteq> kg_threshold r"
  shows "kg_round3_Finalize C r = Panic"
proof -
  obtain own where own: "mget (kg_Phi r) (kg_self r) = Some own" "Exponent_Degree own = kg_threshold r"
    using own_degree[OF assms(1)] assms(2) by auto
  have s: "Exponent_Sum (mvals (kg_Phi r)) \<noteq> Ret (Inr s)" for s
    using Exponent_Sum_degree[of "mvals (kg_Phi r)" s phi own] mget_mvals[OF assms(3)] mget_mvals[OF own(1)] own(2) assms(4) by auto
  have chain: "kg_chain_key keys js acc \<noteq> Blocked" for keys js acc
    by (induction js arbitrary: acc) (auto simp: RID_XOR_def obind_case split: outcome.split)
  have const: "kg_sum_constants phis acc \<noteq> Blocked" for phis :: "'b Exponent list" and acc
    by (induction phis arbitrary: acc) (auto simp: Exponent_Constant_def obind_case split: outcome.split list.split)
  have sum: "Exponent_Sum (mvals (kg_Phi r)) \<noteq> Blocked" by (simp add: Exponent_Sum_def split: list.split)
  show ?thesis
    unfolding kg_round3_Finalize_def Let_def obind_case
    using s chain const sum by (auto split: outcome.split sum.split)
qed

text \<open>What round 2 checks of a commitment concerns its constant only: with the same constant, a commitment of any
  degree is stored.\<close>

lemma stores_any_degree:
  assumes "kg_round2_StoreBroadcast C b3 r m = Ret (Inr r')" and "rm_Content m = KgBroadcast2 (Some phi) pf com"
    and "Exponent_Constant phi' = Exponent_Constant phi"
  shows "kg_round2_StoreBroadcast C b3 r (m\<lparr>rm_Content := KgBroadcast2 (Some phi') pf com\<rparr>)
    = Ret (Inr (r'\<lparr>kg_Phi := mput (rm_From m) phi' (kg_Phi r)\<rparr>))"
  using assms by (auto simp: kg_round2_StoreBroadcast_def Let_def obind_case
      split: if_split_asm option.split_asm outcome.split_asm)

text \<open>The message \<open>m\<close> is accepted as the last one its round waits for; \<open>h'\<close> is the handler with the message stored
  and verified, right before the round is finalized.\<close>

definition completes :: "('r, 'c, 'res) runtime \<Rightarrow> Message \<Rightarrow> ('r, 'res) MultiHandler \<Rightarrow> ('r, 'res) MultiHandler \<Rightarrow> bool" where
  "completes rt m h h' \<longleftrightarrow> CanAccept rt h (Some m) \<and> \<not> finished h \<and> \<not> duplicate h m \<and> RoundNumber m \<noteq> 0 \<and>
     s_number (ops rt) (currentRound h) = RoundNumber m \<and> verify_either rt m (store m h) = Ret (None, h') \<and>
     fst (receivedAll rt h') \<and> checkBroadcastHash rt (snd (receivedAll rt h'))"

lemma completes_Accept: "completes rt m h h' \<Longrightarrow> Accept rt (Some m) h = finalize rt h'"
  by (auto simp: completes_def Accept_def finished_def Let_def)

lemma completes_panic:
  assumes "completes rt m h h'" and "\<And>cap. s_finalize (ops rt) (currentRound h') cap = Panic"
  shows "Accept rt (Some m) h = Panic"
proof -
  obtain h1 where h1: "receivedAll rt h' = (True, h1)" "checkBroadcastHash rt h1"
    using assms(1) by (cases "receivedAll rt h'") (auto simp: completes_def)
  have "finalize_step rt h' = Panic"
    using h1 receivedAll_frame(3)[OF h1(1)] assms(2) by (simp add: finalize_step_def Let_def)
  then show ?thesis using completes_Accept[OF assms(1)] by (simp add: finalize.simps[of rt h'])
qed

context frost_keygen
begin

lemma completes_committed:
  assumes "reachable (kg_runtime C b3 codec rnd order) (Live (Kg1 r)) h" and "kg_base C r0 r"
    and "completes (kg_runtime C b3 codec rnd order) m h h'" and "currentRound h' = Live (Kg3 r3)"
  shows "kg_committed C r3" and "kg_threshold r3 = kg_threshold r0"
proof -
  let ?rt = "kg_runtime C b3 codec rnd order"
  have g: "kg_good C r0 (Kg1 r)" and n: "r_number (ops ?rt) (Kg1 r) = 1" using assms(2) by (simp_all add: kg_runtime_def)
  have c: "CanAccept ?rt h (Some m)" "\<not> finished h" "RoundNumber m \<noteq> 0"
    "s_number (ops ?rt) (currentRound h) = RoundNumber m" "verify_either ?rt m (store m h) = Ret (None, h')"
    using assms(3) by (simp_all add: completes_def)
  have i: "running ?rt kg.ok (r_helper (ops ?rt) (Kg1 r)) h" "settled ?rt kg_gotB kg_gotM h"
    using kg.inv_not_finished[OF kg.inv_reachable[OF assms(1) g n] c(2)] by simp_all
  have "running ?rt kg.ok (r_helper (ops ?rt) (Kg1 r)) h'"
    using kg.accepted_verified[OF i c(1,3,4,5)] by blast
  then obtain x where "currentRound h' = Live x" "kg_good C r0 x" by (rule kg.running_current)
  then have "kg_good C r0 (Kg3 r3)" using assms(4) by simp
  then show "kg_committed C r3" "kg_threshold r3 = kg_threshold r0" by (simp_all add: kg_base_def kg_from_def)
qed

end

end
