(* ===== verification/KeygenRun.thy ===== *)
theory KeygenRun
  imports KeygenDegree "HOL-Library.Code_Target_Numeral"
begin

text \<open>
  Key generation run inside the logic: party \<open>a\<close> of two, threshold 1, on the small curve of
  \<open>CurveInstance\<close>, with a fixed hash stream, fixed randomness and the messages of party \<open>b\<close> as the
  codec delivers them. The runs show that the hypotheses of the theorems on key generation can hold
  together, and what happens after messages the rounds do not reject.
\<close>

text \<open>The hash stream of these runs does not depend on what is hashed, so the evaluation leaves the text and
  the frames written to a hash as they are.\<close>

declare frame.simps [code del]
declare str_bytes_def [code del]

lemma ID_Scalar_code [code]: "ID_Scalar i = of_nat (be_nat (map of_char i))"
  by (simp add: ID_Scalar_def str_bytes_def)

definition run_unit :: bytes where
  "run_unit = replicate 31 0 @ [1]"

definition run_b3 :: xof where
  "run_b3 h i = (if i mod 32 = 31 then 1 else 0)"

text \<open>What party \<open>b\<close> sends: its polynomial with the proof for the constant, its chain key, and a share.\<close>

definition run_phi :: "gf13 Exponent \<Rightarrow> (gf13, gf13) kg_content" where
  "run_phi phi = KgBroadcast2 (Some phi)
     (Some \<lparr>sch_C = 2, sch_Z = fst (sample_Scalar curve13 (run_b3 [])) * 4 + 2\<rparr>) (run_unit @ run_unit)"

definition run_codec :: "gf13 Exponent \<Rightarrow> gf13 \<Rightarrow> (gf13, gf13) kg_codec" where
  "run_codec phi f = \<lparr>kgc_marshal = (\<lambda>_. Some []),
     kgc_broadcast2 = (\<lambda>_. Some (run_phi phi)),
     kgc_broadcast3 = (\<lambda>_. Some (KgBroadcast3 run_unit run_unit)),
     kgc_message3 = (\<lambda>_. Some (KgMessage3 (Some f)))\<rparr>"

definition run_rand :: "gf13 kg_rand" where
  "run_rand = \<lparr>kr_secret = 3, kr_coeffs = (\<lambda>_. 5), kr_nonce = 2, kr_rid = Some run_unit,
     kr_decommit = Some run_unit\<rparr>"

type_synonym run_handler = "((gf13, gf13) kg_round, (gf13, gf13) kg_result) MultiHandler"

definition run_rt :: "gf13 Exponent \<Rightarrow> gf13
    \<Rightarrow> ((gf13, gf13) kg_round, (gf13, gf13) kg_content, (gf13, gf13) kg_result) runtime" where
  "run_rt phi f = kg_runtime curve13 run_b3 (run_codec phi f) run_rand (\<lambda>q. q)"

definition run_start :: "ID \<Rightarrow> (ID, gf13) gomap \<Rightarrow> (gf13, gf13) kg_captured
    \<Rightarrow> (gf13, gf13) kg_captured \<times> (go_error + (gf13, gf13) kg_round1)" where
  "run_start self shares captured =
     StartKeygenCommon curve13 run_b3 False [''a'', ''b''] 1 self shares captured None"

definition run_round1 :: "ID \<Rightarrow> (gf13, gf13) kg_round1" where
  "run_round1 self = projr (snd (run_start self [] (None, None)))"

definition run_refresh1 :: "(gf13, gf13) kg_round1" where
  "run_refresh1 = projr (snd (run_start ''a'' [(''a'', 8), (''b'', 6)] (Some 8, Some 7)))"

definition run_msg :: "ID \<Rightarrow> Number \<Rightarrow> bool \<Rightarrow> Message" where
  "run_msg peer n b = \<lparr>SSID = Some (run_unit @ run_unit), From = peer, To = '''',
     Protocol = ''frost/keygen-threshold'', RoundNumber = n, Data = Some [], Broadcast = b,
     BroadcastVerification = Some (run_unit @ run_unit)\<rparr>"

fun accept_all :: "('r, 'c, 'res) runtime \<Rightarrow> Message list \<Rightarrow> ('r, 'res) MultiHandler \<Rightarrow> ('r, 'res) MultiHandler outcome" where
  "accept_all rt [] h = Ret h"
| "accept_all rt (m # ms) h = obind (Accept rt (Some m) h) (accept_all rt ms)"

definition run_from :: "('r, 'c, 'res) runtime \<Rightarrow> 'r \<Rightarrow> Message list \<Rightarrow> ('r, 'res) MultiHandler outcome" where
  "run_from rt r ms = obind (NewMultiHandler rt (\<lambda>_. Inr (Live r)) None)
     (\<lambda>x. case x of Inl e \<Rightarrow> Panic | Inr h \<Rightarrow> accept_all rt ms h)"

definition run_keygen :: "gf13 Exponent \<Rightarrow> gf13 \<Rightarrow> (gf13, gf13) kg_round1 \<Rightarrow> run_handler outcome" where
  "run_keygen phi f r = run_from (run_rt phi f) (Kg1 r)
     [run_msg ''b'' 2 True, run_msg ''b'' 3 True, run_msg ''b'' 3 False]"

lemma reachable_accept_all:
  "reachable rt r h \<Longrightarrow> accept_all rt ms h = Ret h' \<Longrightarrow> reachable rt r h'"
proof (induction ms arbitrary: h)
  case (Cons m ms)
  then obtain h1 where "Accept rt (Some m) h = Ret h1" "accept_all rt ms h1 = Ret h'"
    by (auto elim!: obind_RetE)
  then show ?case using Cons reachable.accept by blast
qed simp

lemma run_reachable:
  assumes "run_from rt r ms = Ret h"
  shows "reachable rt (Live r) h"
proof -
  obtain h0 where n: "NewMultiHandler rt (\<lambda>_. Inr (Live r)) None = Ret (Inr h0)" "accept_all rt ms h0 = Ret h"
    using assms by (auto simp: run_from_def obind_case split: sum.split_asm outcome.split_asm)
  have "reachable rt (Live r) h0" by (rule reachable.start[OF refl n(1)])
  then show ?thesis using n(2) by (rule reachable_accept_all)
qed

text \<open>The contract of key generation holds of these runs.\<close>

interpretation run: frost_keygen curve13 run_b3 "run_codec phi f" run_rand "\<lambda>q. q" r for phi f r
  by (rule frost_keygen.intro[OF curve13_laws frost_keygen_axioms.intro]) simp

section \<open>A key generation that succeeds\<close>

lemma run_start_a: "StartKeygenCommon curve13 run_b3 False [''a'', ''b''] 1 ''a'' [] (None, None) None
    = ((Some 0, Some 0), Inr (run_round1 ''a''))"
proof -
  have "fst (run_start ''a'' [] (None, None)) = (Some 0, Some 0)" "\<not> isl (snd (run_start ''a'' [] (None, None)))"
    by code_simp+
  then show ?thesis
    unfolding run_round1_def run_start_def by (metis prod.collapse sum.collapse(2))
qed

abbreviation run_config :: "(gf13, gf13) Config" where
  "run_config \<equiv> \<lparr>cfg_ID = ''a'', cfg_Threshold = 1, cfg_PrivateShare = 8, cfg_PublicKey = 7, cfg_ChainKey = [],
     cfg_VerificationShares = [(''a'', 8), (''b'', 6)]\<rparr>"

abbreviation run_rt_good :: "((gf13, gf13) kg_round, (gf13, gf13) kg_content, (gf13, gf13) kg_result) runtime" where
  "run_rt_good \<equiv> run_rt \<lparr>IsConstant = False, coefficients = [4, 6]\<rparr> 1"

lemma run_succeeds:
  "case run_keygen \<lparr>IsConstant = False, coefficients = [4, 6]\<rparr> 1 (run_round1 ''a'') of
     Ret h \<Rightarrow> Result h = Inr (KgConfig run_config) \<and> 3 \<in> set (mkeys (rounds h)) \<and>
       s_number (ops run_rt_good) (currentRound h) = 0 \<and>
       mget (broadcastHashes h) 2 = Some (run_unit @ run_unit) \<and>
       qget (broadcast h) 3 ''b'' = Some (run_msg ''b'' 3 True)
   | _ \<Rightarrow> False"
  by code_simp

lemma run_result:
  obtains h where "reachable run_rt_good (Live (Kg1 (run_round1 ''a''))) h"
    and "Result h = Inr (KgConfig run_config)" and "3 \<in> set (mkeys (rounds h))"
    and "s_number (ops run_rt_good) (currentRound h) = 0"
    and "mget (broadcastHashes h) 2 = Some (run_unit @ run_unit)"
    and "qget (broadcast h) 3 ''b'' = Some (run_msg ''b'' 3 True)"
  using run_succeeds run_reachable[of run_rt_good "Kg1 (run_round1 ''a'')"] that
  unfolding run_keygen_def by (auto split: outcome.split_asm)

lemma run_config_ok: "config_ok curve13 run_config"
proof (rule run_result)
  fix h assume h: "reachable run_rt_good (Live (Kg1 (run_round1 ''a''))) h" "Result h = Inr (KgConfig run_config)"
  note s = curve_laws.StartKeygen_fresh(1)[OF curve13_laws run_start_a]
  show ?thesis using run.keygen_result[OF h(1)[unfolded run_rt_def] s h(2)] by simp
qed

text \<open>Before the other party has sent anything.\<close>

lemma run_waiting: "case run_from run_rt_good (Kg1 (run_round1 ''a'')) [] of Ret h \<Rightarrow> \<not> finished h | _ \<Rightarrow> False"
  by code_simp

lemma run_from_nil: "run_from rt r [] = Ret h \<Longrightarrow> NewMultiHandler rt (\<lambda>_. Inr (Live r)) None = Ret (Inr h)"
  by (auto simp: run_from_def obind_case split: sum.split_asm outcome.split_asm)

section \<open>A refresh\<close>

lemma run_start_refresh:
  "StartKeygenCommon curve13 run_b3 False [''a'', ''b''] 1 ''a'' [(''a'', 8), (''b'', 6)] (Some 8, Some 7) None
    = ((Some 8, Some 7), Inr run_refresh1)"
proof -
  let ?s = "run_start ''a'' [(''a'', 8), (''b'', 6)] (Some 8, Some 7)"
  have "fst ?s = (Some 8, Some 7)" "\<not> isl (snd ?s)" by code_simp+
  then show ?thesis
    unfolding run_refresh1_def run_start_def by (metis prod.collapse sum.collapse(2))
qed

abbreviation run_rt_refresh :: "((gf13, gf13) kg_round, (gf13, gf13) kg_content, (gf13, gf13) kg_result) runtime" where
  "run_rt_refresh \<equiv> run_rt \<lparr>IsConstant = True, coefficients = [6]\<rparr> 10"

abbreviation run_refreshed :: "(gf13, gf13) Config" where
  "run_refreshed \<equiv> \<lparr>cfg_ID = ''a'', cfg_Threshold = 1, cfg_PrivateShare = 9, cfg_PublicKey = 7, cfg_ChainKey = [],
     cfg_VerificationShares = [(''a'', 9), (''b'', 5)]\<rparr>"

lemma run_refresh_succeeds:
  "case run_keygen \<lparr>IsConstant = True, coefficients = [6]\<rparr> 10 run_refresh1 of
     Ret h \<Rightarrow> Result h = Inr (KgConfig run_refreshed) | _ \<Rightarrow> False"
  by code_simp

lemma run_refresh_result:
  obtains h where "reachable run_rt_refresh (Live (Kg1 run_refresh1)) h" and "Result h = Inr (KgConfig run_refreshed)"
  using run_refresh_succeeds run_reachable[of run_rt_refresh "Kg1 run_refresh1"] that
  unfolding run_keygen_def by (auto split: outcome.split_asm)

section \<open>A polynomial of the wrong degree\<close>

abbreviation run_rt_long :: "((gf13, gf13) kg_round, (gf13, gf13) kg_content, (gf13, gf13) kg_result) runtime" where
  "run_rt_long \<equiv> run_rt \<lparr>IsConstant = False, coefficients = [4, 6, 1]\<rparr> 11"

lemma run_long_completes:
  "case run_from run_rt_long (Kg1 (run_round1 ''a'')) [run_msg ''b'' 2 True, run_msg ''b'' 3 True] of
     Ret h \<Rightarrow> (case verify_either run_rt_long (run_msg ''b'' 3 False) (store (run_msg ''b'' 3 False) h) of
       Ret (None, h') \<Rightarrow> completes run_rt_long (run_msg ''b'' 3 False) h h' \<and> (case currentRound h' of
         Live (Kg3 r) \<Rightarrow> mget (kg_Phi r) ''b'' = Some \<lparr>IsConstant = False, coefficients = [4, 6, 1]\<rparr> | _ \<Rightarrow> False)
     | _ \<Rightarrow> False)
   | _ \<Rightarrow> False"
  by code_simp

lemma run_long_step:
  obtains h h' r3 where "reachable run_rt_long (Live (Kg1 (run_round1 ''a''))) h"
    and "completes run_rt_long (run_msg ''b'' 3 False) h h'" and "currentRound h' = Live (Kg3 r3)"
    and "mget (kg_Phi r3) ''b'' = Some \<lparr>IsConstant = False, coefficients = [4, 6, 1]\<rparr>"
proof -
  obtain h where h: "run_from run_rt_long (Kg1 (run_round1 ''a'')) [run_msg ''b'' 2 True, run_msg ''b'' 3 True] = Ret h"
    using run_long_completes by (auto split: outcome.split_asm)
  obtain h' where h': "completes run_rt_long (run_msg ''b'' 3 False) h h'"
    and c: "case currentRound h' of Live (Kg3 r) \<Rightarrow>
      mget (kg_Phi r) ''b'' = Some \<lparr>IsConstant = False, coefficients = [4, 6, 1]\<rparr> | _ \<Rightarrow> False"
    using run_long_completes unfolding h by (auto split: outcome.split_asm option.split_asm)
  show ?thesis
    using that[OF run_reachable[OF h] h'] c by (auto split: session.split_asm kg_round.split_asm)
qed

section \<open>The other party\<close>

lemma run_start_b: "StartKeygenCommon curve13 run_b3 False [''a'', ''b''] 1 ''b'' [] (None, None) None
    = ((Some 0, Some 0), Inr (run_round1 ''b''))"
proof -
  have "fst (run_start ''b'' [] (None, None)) = (Some 0, Some 0)" "\<not> isl (snd (run_start ''b'' [] (None, None)))"
    by code_simp+
  then show ?thesis
    unfolding run_round1_def run_start_def by (metis prod.collapse sum.collapse(2))
qed

lemma run_b_enters_round3:
  "case run_from run_rt_good (Kg1 (run_round1 ''b'')) [] of
     Ret h0 \<Rightarrow> broadcastHashes h0 = [] \<and> (case Accept run_rt_good (Some (run_msg ''a'' 2 True)) h0 of
       Ret h \<Rightarrow> mget (broadcastHashes h) 2 = Some (run_unit @ run_unit) \<and>
         qget (broadcast h) 2 ''a'' = Some (run_msg ''a'' 2 True) \<and>
         Valid (partyIDs (s_helper (ops run_rt_good) (currentRound h)))
     | _ \<Rightarrow> False)
   | _ \<Rightarrow> False"
  by code_simp

lemma run_result_b:
  obtains h0 h where "Accept run_rt_good (Some (run_msg ''a'' 2 True)) h0 = Ret h"
    and "reachable run_rt_good (Live (Kg1 (run_round1 ''b''))) h" and "broadcastHashes h0 = []"
    and "mget (broadcastHashes h) 2 = Some (run_unit @ run_unit)"
    and "qget (broadcast h) 2 ''a'' = Some (run_msg ''a'' 2 True)"
    and "Valid (partyIDs (s_helper (ops run_rt_good) (currentRound h)))"
proof -
  obtain h0 h where h: "run_from run_rt_good (Kg1 (run_round1 ''b'')) [] = Ret h0" "broadcastHashes h0 = []"
    "Accept run_rt_good (Some (run_msg ''a'' 2 True)) h0 = Ret h"
    "mget (broadcastHashes h) 2 = Some (run_unit @ run_unit)"
    "qget (broadcast h) 2 ''a'' = Some (run_msg ''a'' 2 True)"
    "Valid (partyIDs (s_helper (ops run_rt_good) (currentRound h)))"
    using run_b_enters_round3 by (auto split: outcome.split_asm)
  show thesis using that[OF h(3) reachable.accept[OF run_reachable[OF h(1)] h(3)] h(2,4,5,6)] .
qed

end
