(* ===== verification/SignRun.thy ===== *)
theory SignRun
  imports FrostSign KeygenRun
begin

text \<open>
  Signing run inside the logic: party \<open>a\<close> signs with party \<open>b\<close> under the key of the run in \<open>KeygenRun\<close>,
  plain and in taproot mode.
\<close>

definition srun_codec :: "gf13 \<Rightarrow> gf13 \<Rightarrow> gf13 \<Rightarrow> (gf13, gf13) sg_codec" where
  "srun_codec D E z = \<lparr>sgc_marshal = (\<lambda>_. Some []), sgc_broadcast2 = (\<lambda>_. Some (SgBroadcast2 (Some D) (Some E))),
     sgc_broadcast3 = (\<lambda>_. Some (SgBroadcast3 (Some z)))\<rparr>"

definition srun_orc :: sg_oracles where
  "srun_orc = \<lparr>b3_DeriveKey = (\<lambda>_ _. []), b3_Keyed = (\<lambda>_. run_b3), so_sha256 = (\<lambda>_. run_unit), so_a = []\<rparr>"

definition srun_rt :: "gf13 \<Rightarrow> gf13 \<Rightarrow> gf13
    \<Rightarrow> ((gf13, gf13) sg_round, (gf13, gf13) sg_content, (gf13, gf13) sg_result) runtime" where
  "srun_rt D E z = sg_runtime curve13 run_b3 (srun_codec D E z) srun_orc (\<lambda>q. q)"

definition srun_msg :: "string \<Rightarrow> Number \<Rightarrow> Message" where
  "srun_msg p n = \<lparr>SSID = Some (run_unit @ run_unit), From = ''b'', To = '''', Protocol = p,
     RoundNumber = n, Data = Some [], Broadcast = True, BroadcastVerification = Some (run_unit @ run_unit)\<rparr>"

lemma srun_sha: "length (so_sha256 srun_orc x) = 32"
  by (simp add: srun_orc_def run_unit_def)

interpretation srun: frost_sign curve13 run_b3 "srun_codec D E z" srun_orc "\<lambda>q. q" r for D E z r
  by (rule frost_signI[OF curve13_laws refl srun_sha])

section \<open>A signature\<close>

definition srun_round1 :: "(gf13, gf13) sg_round1" where
  "srun_round1 = projr (StartSignCommon curve13 run_b3 False run_config [''a'', ''b''] (Some []) None)"

lemma srun_start: "StartSignCommon curve13 run_b3 False run_config [''a'', ''b''] (Some []) None = Inr srun_round1"
proof -
  have "\<not> isl (StartSignCommon curve13 run_b3 False run_config [''a'', ''b''] (Some []) None)" by code_simp
  then show ?thesis unfolding srun_round1_def by (metis sum.collapse(2))
qed

lemma srun_succeeds:
  "case run_from (srun_rt 1 1 5) (Sg1 srun_round1)
       [srun_msg ''frost/sign-threshold'' 2, srun_msg ''frost/sign-threshold'' 3] of
     Ret h \<Rightarrow> Result h = Inr (SgSignature 4 11) | _ \<Rightarrow> False"
  by code_simp

lemma srun_result:
  obtains h where "reachable (srun_rt 1 1 5) (Live (Sg1 srun_round1)) h" and "Result h = Inr (SgSignature 4 11)"
  using srun_succeeds run_reachable[of "srun_rt 1 1 5" "Sg1 srun_round1"] that by (auto split: outcome.split_asm)

section \<open>Taproot\<close>

definition trun_round1 :: "(gf13, gf13) kg_round1" where
  "trun_round1 = projr (snd (StartKeygenCommon curve13 run_b3 True [''a'', ''b''] 1 ''a'' [] (None, None) None))"

lemma trun_start: "StartKeygenCommon curve13 run_b3 True [''a'', ''b''] 1 ''a'' [] (None, None) None
    = ((Some 0, Some 0), Inr trun_round1)"
proof -
  let ?s = "StartKeygenCommon curve13 run_b3 True [''a'', ''b''] 1 ''a'' [] (None, None) None"
  have "fst ?s = (Some 0, Some 0)" "\<not> isl (snd ?s)" by code_simp+
  then show ?thesis unfolding trun_round1_def by (metis prod.collapse sum.collapse(2))
qed

abbreviation trun_config :: "(gf13, gf13) TaprootConfig" where
  "trun_config \<equiv> \<lparr>tap_ID = ''a'', tap_Threshold = 1, tap_PrivateShare = 5, tap_PublicKey = XBytes curve13 6,
     tap_ChainKey = [], tap_VerificationShares = [(''a'', 5), (''b'', 7)]\<rparr>"

definition trun_msg :: "Number \<Rightarrow> bool \<Rightarrow> Message" where
  "trun_msg n b = (run_msg ''b'' n b)\<lparr>Protocol := ''frost/keygen-threshold-taproot''\<rparr>"

lemma trun_succeeds:
  "case run_from run_rt_good (Kg1 trun_round1) [trun_msg 2 True, trun_msg 3 True, trun_msg 3 False] of
     Ret h \<Rightarrow> Result h = Inr (KgTaproot trun_config) | _ \<Rightarrow> False"
  by code_simp

lemma trun_result:
  obtains h where "reachable run_rt_good (Live (Kg1 trun_round1)) h" and "Result h = Inr (KgTaproot trun_config)"
  using trun_succeeds run_reachable[of run_rt_good "Kg1 trun_round1"] that by (auto split: outcome.split_asm)

text \<open>The group commitment of this signature has an odd y coordinate, so the nonces are negated.\<close>

definition tsrun_round1 :: "(gf13, gf13) sg_round1" where
  "tsrun_round1 = projr (frost_SignTaproot curve13 run_b3 trun_config [''a'', ''b''] (Some []) None)"

lemma tsrun_start: "frost_SignTaproot curve13 run_b3 trun_config [''a'', ''b''] (Some []) None = Inr tsrun_round1"
proof -
  have "\<not> isl (frost_SignTaproot curve13 run_b3 trun_config [''a'', ''b''] (Some []) None)" by code_simp
  then show ?thesis unfolding tsrun_round1_def by (metis sum.collapse(2))
qed

lemma tsrun_succeeds:
  "case run_from (srun_rt 5 1 4) (Sg1 tsrun_round1)
       [srun_msg ''frost/sign-threshold-taproot'' 2, srun_msg ''frost/sign-threshold-taproot'' 3] of
     Ret h \<Rightarrow> Result h = Inr (SgTaproot (XBytes curve13 8 @ Scalar_MarshalBinary curve13 11)) | _ \<Rightarrow> False"
  by code_simp

lemma tsrun_result:
  obtains h where "reachable (srun_rt 5 1 4) (Live (Sg1 tsrun_round1)) h"
    and "Result h = Inr (SgTaproot (XBytes curve13 8 @ Scalar_MarshalBinary curve13 11))"
  using tsrun_succeeds run_reachable[of "srun_rt 5 1 4" "Sg1 tsrun_round1"] that by (auto split: outcome.split_asm)

end
