(* ===== verification/ServiceRun.thy ===== *)
theory ServiceRun
  imports KeygenService SignRun
begin

text \<open>
  The properties of the key generation services, with a complete run of the service over the small
  curve: one call that starts an execution and one that delivers the messages of the other party.
\<close>

section \<open>A run\<close>

text \<open>A codec which knows the share of the run.\<close>

definition vrun_wire :: wire_codec where
  "vrun_wire = \<lparr>wire_Marshal = (\<lambda>w. if w = to_wire curve13 trun_config then Inr [1] else Inl (Err ''cbor'')),
     wire_Unmarshal = (\<lambda>d. Inr (to_wire curve13 trun_config))\<rparr>"

definition vrun_env :: "(gf13, gf13) svc_env" where
  "vrun_env = \<lparr>sv_curve = curve13, sv_blake3 = run_b3, sv_codec = run_codec \<lparr>IsConstant = False, coefficients = [4, 6]\<rparr> 1,
     sv_order = (\<lambda>q. q), sv_msgMarshal = (\<lambda>m. Inr []),
     sv_msgUnmarshal = (\<lambda>d m. Inr (if d = [2] then trun_msg 2 True else if d = [3] then trun_msg 3 True else trun_msg 3 False)),
     sv_wire = vrun_wire\<rparr>"

definition vrun_ctx :: SchnorrKeyGenSessionContext where
  "vrun_ctx = \<lparr>cx_SessionIDBase64 = ''AAAA'', cx_Participants = [''a'', ''b''], cx_Threshold = 1\<rparr>"

definition vrun_json :: schnorr_json where
  "vrun_json = \<lparr>js_request = (\<lambda>s. Inr \<lparr>rq_Phase = (if s = ''init'' then 1 else 2), rq_StateID = ''05'', rq_SelfID = '' a'',
       rq_SessionContext = keyGenSessionContextPrefix @ b64_encode [1],
       rq_InboundMessages = (if s = ''bad'' then [''?''] else map b64_encode [[2], [3], [4]])\<rparr>),
     js_response = (\<lambda>r. Inr (EncodedKeyShare r)),
     js_contextMarshal = (\<lambda>ctx. if ctx = vrun_ctx then Inr [1] else Inl (Err ''json'')),
     js_contextUnmarshal = (\<lambda>d. Inr vrun_ctx)\<rparr>"

definition vrun_rand :: "gf13 svc_rand" where
  "vrun_rand = \<lparr>sr_keygen = run_rand, sr_session = None, sr_state = Some [5]\<rparr>"

definition vrun_call :: "string \<Rightarrow> (gf13, gf13) SchnorrKeyGenServiceImpl
    \<Rightarrow> (SchnorrKeyGenResponse \<times> (gf13, gf13) SchnorrKeyGenServiceImpl) outcome" where
  "vrun_call = handle_request vrun_env vrun_json vrun_rand"

lemma vrun_json_text: "json_text vrun_json"
  by (auto simp: json_text_def vrun_json_def vrun_ctx_def intro: utf8_ascii)

lemma vrun_succeeds:
  "case vrun_call ''init'' \<lparr>executions = []\<rparr> of
     Ret (r1, s1) \<Rightarrow> Status r1 = ''PENDING'' \<and> (case vrun_call ''continue'' s1 of
       Ret (r2, s2) \<Rightarrow> Status r2 = ''DONE'' \<and> EncodedKeyShare r2 = keyShareEnvelopePrefix @ b64_encode [1]
     | _ \<Rightarrow> False)
   | _ \<Rightarrow> False"
  by code_simp

lemma vrun_result:
  obtains s r2 s2 where "in_use vrun_env s" and "vrun_call ''continue'' s = Ret (r2, s2)" and "Status r2 = ''DONE''"
    and "EncodedKeyShare r2 = keyShareEnvelopePrefix @ b64_encode [1]"
proof -
  obtain r1 s1 where 1: "vrun_call ''init'' \<lparr>executions = []\<rparr> = Ret (r1, s1)"
    using vrun_succeeds by (auto split: outcome.split_asm)
  then obtain r2 s2 where 2: "vrun_call ''continue'' s1 = Ret (r2, s2)" "Status r2 = ''DONE''"
    "EncodedKeyShare r2 = keyShareEnvelopePrefix @ b64_encode [1]"
    using vrun_succeeds by (auto split: outcome.split_asm)
  have "KeyGen vrun_env vrun_json vrun_rand ''init'' \<lparr>executions = []\<rparr> = Ret (mustJSON vrun_json r1, s1)"
    using 1 by (simp add: KeyGen_def vrun_call_def)
  from that[OF in_use.schnorr[OF in_use.fresh vrun_json_text this] 2] show ?thesis .
qed

lemma vrun_starts:
  "case vrun_call ''init'' \<lparr>executions = []\<rparr> of
     Ret (r, s) \<Rightarrow> (case getExecution s ''05'' of None \<Rightarrow> False | Some ex \<Rightarrow> True) | _ \<Rightarrow> False"
  by code_simp

lemma vrun_started: obtains s ex where "in_use vrun_env s" and "getExecution s ''05'' = Some ex"
proof -
  obtain r s ex where s: "vrun_call ''init'' \<lparr>executions = []\<rparr> = Ret (r, s)" "getExecution s ''05'' = Some ex"
    using vrun_starts by (auto split: outcome.split_asm option.split_asm)
  have "KeyGen vrun_env vrun_json vrun_rand ''init'' \<lparr>executions = []\<rparr> = Ret (mustJSON vrun_json r, s)"
    using s(1) by (simp add: KeyGen_def vrun_call_def)
  from that[OF in_use.schnorr[OF in_use.fresh vrun_json_text this] s(2)] show ?thesis .
qed

lemma vrun_wire_law: "wire_law vrun_wire"
  by (auto simp: wire_law_def vrun_wire_def same_wire_def to_wire_def mmap_def mwf_def)

lemma vrun_env_simps [simp]:
  "sv_curve vrun_env = curve13" "sv_order vrun_env q = q" "sv_wire vrun_env = vrun_wire"
  by (simp_all add: vrun_env_def)

text \<open>An execution before any message.\<close>

definition vrun_ex :: "(gf13, gf13) keygenExecution" where
  "vrun_ex = (case vrun_call ''init'' \<lparr>executions = []\<rparr> of
     Ret (r, s) \<Rightarrow> the (getExecution s ''05'') | _ \<Rightarrow> the None)"

section \<open>Properties\<close>

text \<open>C4: Whatever requests a service received before, with whatever messages in them, when a call reports
  \<open>DONE\<close> then the key share in the answer is the stored form of a consistent taproot configuration, the
  execution is gone, and \<open>DecodeTaprootKeyShareFromStorage\<close> gives the configuration back (if no
  verification share is the identity).\<close>

theorem done_share_consistent:
  assumes "curve_laws (sv_curve E)" and "\<And>q. set (sv_order E q) = set q" and "wire_law (sv_wire E)"
    and "in_use E s" and "handle_request E js rnd reqStr s = Ret (resp, s')" and "Status resp = ''DONE''"
  shows "\<exists>cfg. tap_config_ok (sv_curve E) cfg \<and> getExecution s' (rs_StateID resp) = None \<and>
    EncodeTaprootKeyShareForStorage (sv_curve E) (sv_wire E) (Some (tap_ptrs cfg)) = Inr (EncodedKeyShare resp) \<and>
    (0 \<notin> set (mvals (tap_VerificationShares cfg)) \<longrightarrow>
      (\<exists>cfg'. DecodeTaprootKeyShareFromStorage (sv_curve E) (sv_wire E) (EncodedKeyShare resp) = Inr cfg' \<and>
        same_tap cfg' cfg \<and> tap_config_ok (sv_curve E) cfg'))"
proof -
  obtain k ms where "continue_execution E (EncodeTaprootKeyShareForStorage (sv_curve E) (sv_wire E)) k ms s = Ret (resp, s')"
    using handle_request_done[OF assms(5,6)] .
  from continue_done[OF assms(1,2) in_use_ok[OF assms(4)] this assms(6)]
  obtain cfg where c: "tap_config_ok (sv_curve E) cfg" "tap_text cfg" "getExecution s' (rs_StateID resp) = None"
    "EncodeTaprootKeyShareForStorage (sv_curve E) (sv_wire E) (Some (tap_ptrs cfg)) = Inr (EncodedKeyShare resp)" by blast
  then show ?thesis
    using key_share_roundtrip[OF assms(1,3) c(2) _ c(4)] tap_config_ok_same by blast
qed

theorem done_share_consistent_witness:
  "\<exists>cfg. tap_config_ok curve13 cfg \<and>
     EncodeTaprootKeyShareForStorage curve13 vrun_wire (Some (tap_ptrs cfg)) = Inr (keyShareEnvelopePrefix @ b64_encode [1])"
proof (rule vrun_result)
  fix s r2 s2
  assume r: "in_use vrun_env s" "vrun_call ''continue'' s = Ret (r2, s2)" "Status r2 = ''DONE''"
    "EncodedKeyShare r2 = keyShareEnvelopePrefix @ b64_encode [1]"
  have "\<exists>cfg. tap_config_ok curve13 cfg \<and> EncodeTaprootKeyShareForStorage curve13 vrun_wire (Some (tap_ptrs cfg)) = Inr (EncodedKeyShare r2)"
    using done_share_consistent[OF _ _ _ r(1) r(2)[unfolded vrun_call_def] r(3)] curve13_laws vrun_wire_law
    by simp blast
  then show ?thesis using r(4) by simp
qed

text \<open>C12: A session context for participants whose identifiers are valid UTF-8 is read back as it was built: the
  trimmed participants, sorted and without duplicates, the threshold, and the trimmed session
  identifier, or the random one if none was given.\<close>

theorem session_context_roundtrip:
  assumes "json_law js" and "raw \<noteq> Some []" and "list_all utf8 participants"
    and "BuildSchnorrKeyGenSessionContext js raw participants t sid = Inr token"
  shows "\<exists>ctx. DecodeSchnorrKeyGenSessionContext js token = Inr ctx \<and>
    cx_Participants ctx = sort (map TrimSpace participants) \<and> distinct (cx_Participants ctx) \<and>
    cx_Threshold ctx = t \<and> 0 \<le> t \<and> t < int (length participants) \<and>
    cx_SessionIDBase64 ctx = (if TrimSpace sid = '''' then b64_encode (the raw) else TrimSpace sid)"
proof -
  obtain ps where ps: "normalizeParticipants participants = Inr ps"
    using assms(4) by (cases "normalizeParticipants participants") (auto simp: BuildSchnorrKeyGenSessionContext_def)
  obtain out where out: "normalizeOrGenerateSessionID raw sid True = Inr out"
    using assms(4) ps by (cases "normalizeOrGenerateSessionID raw sid True")
      (auto simp: BuildSchnorrKeyGenSessionContext_def threshold_err_def split: if_splits)
  define ctx where "ctx = \<lparr>cx_SessionIDBase64 = out, cx_Participants = ps, cx_Threshold = t\<rparr>"
  obtain d where d: "js_contextMarshal js ctx = Inr d" "token = keyGenSessionContextPrefix @ b64_encode d"
    and t: "0 \<le> t" "t < int (length ps)"
    using assms(4) ps out
    by (auto simp: BuildSchnorrKeyGenSessionContext_def threshold_err_def ctx_def split: if_splits sum.splits)
  have p: "ps = sort (map TrimSpace participants)" "distinct ps" using ps by (auto simp: normalizeParticipants_Inr)
  have "list_all utf8 ps" using assms(3) utf8_TrimSpace by (auto simp: p(1) list_all_iff)
  then have "js_contextUnmarshal js d = Inr ctx"
    using assms(1) d(1) session_id_normal(2)[OF out assms(2)] by (simp add: json_law_def ctx_def)
  then have "DecodeSchnorrKeyGenSessionContext js token = Inr ctx"
    using d(2) t normalizeParticipants_again[OF ps] session_id_normal(1)[OF out assms(2)]
    by (simp add: DecodeSchnorrKeyGenSessionContext_def ctx_def)
  moreover have "out = (if TrimSpace sid = '''' then b64_encode (the raw) else TrimSpace sid)"
    using session_id_normal(3,4)[OF out assms(2)] out
    by (cases raw) (auto simp: normalizeOrGenerateSessionID_def Let_def split: if_splits)
  ultimately show ?thesis using p t by (simp add: ctx_def)
qed

theorem session_context_roundtrip_witness:
  "\<exists>ctx. DecodeSchnorrKeyGenSessionContext vrun_json (keyGenSessionContextPrefix @ b64_encode [1]) = Inr ctx \<and>
     cx_Participants ctx = sort (map TrimSpace [''b'', '' a''])"
proof -
  have "json_law vrun_json" by (auto simp: json_law_def vrun_json_def)
  moreover have "utf8 ''b''" "utf8 '' a''" by (rule utf8_ascii, auto)+
  then have "list_all utf8 [''b'', '' a'']" by simp
  moreover have "BuildSchnorrKeyGenSessionContext vrun_json None [''b'', '' a''] 1 ''AAAA'' = Inr (keyGenSessionContextPrefix @ b64_encode [1])"
    by code_simp
  ultimately show ?thesis using session_context_roundtrip[of vrun_json None "[''b'', '' a'']" 1 "''AAAA''"] by blast
qed

text \<open>C13: An inbound message which is not base64 makes the service answer \<open>ERROR\<close>, but the execution is neither
  aborted nor removed: the messages before it have been accepted, those after it are not looked at, and
  what the handler wants to send stays in its channel.\<close>

theorem decode_error_keeps_execution:
  assumes "getExecution s (TrimSpace (rq_StateID req)) = Some ex" and "TrimSpace (rq_StateID req) \<noteq> ''''"
    and "rq_InboundMessages req = good @ bad # rest" and "b64_decode bad = Inl e"
    and "accept_inbound E (ex_rand ex) good 0 (ex_handler ex) = Ret (None, n, h)"
  shows "\<exists>resp s'. handleContinue E req s = Ret (resp, s') \<and> Status resp = ''ERROR'' \<and> OutboundMessages resp = [] \<and>
    getExecution s' (TrimSpace (rq_StateID req)) = Some (ex\<lparr>ex_handler := h\<rparr>)"
proof -
  have "decodeProtocolMessageFromString E bad = Inl (Wrap ''decode protocol message base64'' e)"
    using assms(4) by (simp add: decodeProtocolMessageFromString_def)
  then have "accept_inbound E (ex_rand ex) (good @ bad # rest) 0 (ex_handler ex)
      = Ret (Some (Wrap ''decode protocol message base64'' e), n, h)"
    using accept_inbound_append[OF assms(5)] by simp
  then show ?thesis
    using assms(1-3)
    by (simp add: handleContinue_def continue_execution_def Let_def error_response_def putExecution_def getExecution_def)
qed

theorem decode_error_keeps_execution_witness:
  "\<exists>resp s'. handleContinue vrun_env (projr (js_request vrun_json ''bad'')) \<lparr>executions = [(''05'', vrun_ex)]\<rparr> = Ret (resp, s') \<and>
     Status resp = ''ERROR'' \<and> OutboundMessages resp = [] \<and> getExecution s' ''05'' = Some vrun_ex"
proof -
  let ?req = "projr (js_request vrun_json ''bad'')"
  have k: "TrimSpace (rq_StateID ?req) = ''05''" "rq_InboundMessages ?req = [''?'']" by code_simp+
  have b: "b64_decode ''?'' = Inl (Err ''illegal base64 data'')" by code_simp
  show ?thesis
    using decode_error_keeps_execution[of "\<lparr>executions = [(''05'', vrun_ex)]\<rparr>" ?req vrun_ex "[]" "''?''" "[]" _ vrun_env 0 "ex_handler vrun_ex"] k b
    by (simp add: getExecution_def)
qed

text \<open>C16: The services refine the protocol engine. Whatever requests a service has answered, each execution it
  keeps is an execution of the engine: there are parameters for which a taproot key generation starts, and
  the stored handler is reached from that start by calls of \<open>Accept\<close> and \<open>Listen\<close> only. Every guarantee for
  reachable handlers therefore holds of the executions of a service.\<close>

theorem service_refines_engine:
  assumes "in_use E s" and "getExecution s stateID = Some ex"
  shows "\<exists>participants t self sid captured r.
    StartKeygenCommon (sv_curve E) (sv_blake3 E) True participants t self [] (None, None) sid = (captured, Inr r) \<and>
    reachable (kg_runtime (sv_curve E) (sv_blake3 E) (sv_codec E) (ex_rand ex) (sv_order E)) (Live (Kg1 r)) (ex_handler ex)"
  using in_use_ok[OF assms(1)] assms(2) unfolding service_ok_def execution_ok_def getExecution_def by blast

theorem service_refines_engine_witness:
  "\<exists>s ex. getExecution s ''05'' = Some ex \<and> (\<exists>participants t self sid captured r.
    StartKeygenCommon curve13 run_b3 True participants t self [] (None, None) sid = (captured, Inr r) \<and>
    reachable (kg_runtime curve13 run_b3 (sv_codec vrun_env) (ex_rand ex) (\<lambda>q. q)) (Live (Kg1 r)) (ex_handler ex))"
proof -
  obtain s ex where s: "in_use vrun_env s" "getExecution s ''05'' = Some ex" by (rule vrun_started)
  have e: "sv_curve vrun_env = curve13" "sv_blake3 vrun_env = run_b3" "sv_order vrun_env = (\<lambda>q. q)"
    by (simp_all add: vrun_env_def)
  show ?thesis using s(2) service_refines_engine[OF s, unfolded e] by blast
qed


end
