(* ===== verification/GroupProofs.thy ===== *)
theory GroupProofs
  imports Schnorr
begin

text \<open>
  ElGamal encryption in the exponent (\<open>internal/elgamal\<close>) and the two zero-knowledge proofs about
  discrete logarithms built on it: \<open>pkg/zk/log\<close> (two points have the same logarithm) and \<open>pkg/zk/elog\<close>
  (a ciphertext and a point hold the same exponent).

  Randomness is an argument. The fields of a proof are allocated by \<open>Empty\<close> before decoding, so they are
  never nil; the proof itself may be.
\<close>

section \<open>ElGamal\<close>

record 'p Ciphertext =
  ct_L :: 'p
  ct_M :: 'p

definition elgamal_Encrypt :: "('s, 'p::ab_group_add) curve \<Rightarrow> 's \<Rightarrow> 'p \<Rightarrow> 's \<Rightarrow> 'p Ciphertext \<times> 's" where
  "elgamal_Encrypt C nonce public message =
     (\<lparr>ct_L = ActOnBase C nonce, ct_M = ActOnBase C message + Act C nonce public\<rparr>, nonce)"

definition Ciphertext_Valid :: "'p::ab_group_add Ciphertext option \<Rightarrow> bool" where
  "Ciphertext_Valid c = (case c of None \<Rightarrow> False
     | Some ct \<Rightarrow> if ct_L ct = 0 \<or> ct_M ct = 0 then False else True)"

definition Ciphertext_WriteTo :: "('s, 'p) curve \<Rightarrow> 'p Ciphertext \<Rightarrow> go_error + bytes" where
  "Ciphertext_WriteTo C c = Inr (Point_MarshalBinary C (ct_L c) @ Point_MarshalBinary C (ct_M c))"

definition Ciphertext_Domain :: string where
  "Ciphertext_Domain = ''ElGamal Ciphertext''"

definition any_Ciphertext :: "('s, 'p) curve \<Rightarrow> 'p Ciphertext \<Rightarrow> any" where
  "any_Ciphertext C c = AnyWriterTo Ciphertext_Domain (Ciphertext_WriteTo C c)"

section \<open>Equality of logarithms\<close>

record 'p zklog_Public =
  log_H :: 'p
  log_X :: 'p
  log_Y :: 'p

record 's zklog_Private =
  log_a :: 's
  log_b :: 's

record 'p zklog_Commitment =
  log_A :: 'p
  log_B :: 'p
  log_C :: 'p

record ('s, 'p) zklog_Proof =
  log_Commitment :: "'p zklog_Commitment"
  log_Z1 :: 's
  log_Z2 :: 's

definition zklog_challenge :: "('s::field, 'p) curve \<Rightarrow> xof \<Rightarrow> hash \<Rightarrow> 'p zklog_Public \<Rightarrow> 'p zklog_Commitment
    \<Rightarrow> 's \<times> go_error option" where
  "zklog_challenge C blake3 h public commitment =
     (let (h', err) = WriteAny h [any_Point C (log_H public), any_Point C (log_X public), any_Point C (log_Y public),
            any_Point C (log_A commitment), any_Point C (log_B commitment), any_Point C (log_C commitment)]
      in (fst (sample_Scalar C (hash_Digest blake3 h')), err))"

definition zklog_NewProof :: "('s::field, 'p) curve \<Rightarrow> xof \<Rightarrow> 's \<times> 's \<Rightarrow> hash \<Rightarrow> 'p zklog_Public \<Rightarrow> 's zklog_Private
    \<Rightarrow> ('s, 'p) zklog_Proof" where
  "zklog_NewProof C blake3 rnd h public private =
     (let (alpha, beta) = rnd;
          commitment = \<lparr>log_A = ActOnBase C alpha, log_B = Act C alpha (log_H public), log_C = ActOnBase C beta\<rparr>;
          e = fst (zklog_challenge C blake3 h public commitment)
      in \<lparr>log_Commitment = commitment, log_Z1 = e * log_a private + alpha, log_Z2 = e * log_b private + beta\<rparr>)"

definition zklog_IsValid :: "('s::field, 'p::ab_group_add) zklog_Proof option \<Rightarrow> bool" where
  "zklog_IsValid p = (case p of None \<Rightarrow> False
     | Some pf \<Rightarrow> let c = log_Commitment pf in
         if log_A c = 0 \<or> log_B c = 0 \<or> log_C c = 0 then False
         else if log_Z1 pf = 0 \<or> log_Z2 pf = 0 then False else True)"

definition zklog_Verify :: "('s::field, 'p::ab_group_add) curve \<Rightarrow> xof \<Rightarrow> hash \<Rightarrow> 'p zklog_Public
    \<Rightarrow> ('s, 'p) zklog_Proof option \<Rightarrow> bool" where
  "zklog_Verify C blake3 h public p =
     (if \<not> zklog_IsValid p then False
      else case p of None \<Rightarrow> False
        | Some pf \<Rightarrow> let c = log_Commitment pf in case zklog_challenge C blake3 h public c of
            (e, Some err) \<Rightarrow> False
          | (e, None) \<Rightarrow>
              if ActOnBase C (log_Z1 pf) \<noteq> Act C e (log_X public) + log_A c then False
              else if Act C (log_Z1 pf) (log_H public) \<noteq> Act C e (log_Y public) + log_B c then False
              else if ActOnBase C (log_Z2 pf) \<noteq> Act C e (log_H public) + log_C c then False
              else True)"

section \<open>Logarithm of an ElGamal ciphertext\<close>

record 'p zkelog_Public =
  elog_E :: "'p Ciphertext"
  elog_ElGamalPublic :: 'p
  elog_Base :: 'p
  elog_Y :: 'p

record 's zkelog_Private =
  elog_y :: 's
  elog_Lambda :: 's

record 'p zkelog_Commitment =
  elog_A :: 'p
  elog_N :: 'p
  elog_B :: 'p

record ('s, 'p) zkelog_Proof =
  elog_Commitment :: "'p zkelog_Commitment"
  elog_Z :: 's
  elog_U :: 's

definition zkelog_challenge :: "('s::field, 'p) curve \<Rightarrow> xof \<Rightarrow> hash \<Rightarrow> 'p zkelog_Public \<Rightarrow> 'p zkelog_Commitment
    \<Rightarrow> 's \<times> go_error option" where
  "zkelog_challenge C blake3 h public commitment =
     (let (h', err) = WriteAny h [any_Ciphertext C (elog_E public), any_Point C (elog_ElGamalPublic public),
            any_Point C (elog_Y public), any_Point C (elog_Base public),
            any_Point C (elog_A commitment), any_Point C (elog_N commitment), any_Point C (elog_B commitment)]
      in (fst (sample_Scalar C (hash_Digest blake3 h')), err))"

definition zkelog_NewProof :: "('s::field, 'p::ab_group_add) curve \<Rightarrow> xof \<Rightarrow> 's \<times> 's \<Rightarrow> hash \<Rightarrow> 'p zkelog_Public
    \<Rightarrow> 's zkelog_Private \<Rightarrow> ('s, 'p) zkelog_Proof" where
  "zkelog_NewProof C blake3 rnd h public private =
     (let (alpha, m) = rnd;
          commitment = \<lparr>elog_A = ActOnBase C alpha,
            elog_N = ActOnBase C m + Act C alpha (elog_ElGamalPublic public), elog_B = Act C m (elog_Base public)\<rparr>;
          e = fst (zkelog_challenge C blake3 h public commitment)
      in \<lparr>elog_Commitment = commitment, elog_Z = e * elog_Lambda private + alpha, elog_U = e * elog_y private + m\<rparr>)"

definition zkelog_IsValid :: "('s::field, 'p::ab_group_add) zkelog_Proof option \<Rightarrow> bool" where
  "zkelog_IsValid p = (case p of None \<Rightarrow> False
     | Some pf \<Rightarrow> let c = elog_Commitment pf in
         if elog_A c = 0 \<or> elog_N c = 0 \<or> elog_B c = 0 then False
         else if elog_Z pf = 0 \<or> elog_U pf = 0 then False else True)"

definition zkelog_Verify :: "('s::field, 'p::ab_group_add) curve \<Rightarrow> xof \<Rightarrow> hash \<Rightarrow> 'p zkelog_Public
    \<Rightarrow> ('s, 'p) zkelog_Proof option \<Rightarrow> bool" where
  "zkelog_Verify C blake3 h public p =
     (if \<not> zkelog_IsValid p then False
      else case p of None \<Rightarrow> False
        | Some pf \<Rightarrow> let c = elog_Commitment pf in case zkelog_challenge C blake3 h public c of
            (e, Some err) \<Rightarrow> False
          | (e, None) \<Rightarrow>
              if ActOnBase C (elog_Z pf) \<noteq> Act C e (ct_L (elog_E public)) + elog_A c then False
              else if ActOnBase C (elog_U pf) + Act C (elog_Z pf) (elog_ElGamalPublic public)
                   \<noteq> Act C e (ct_M (elog_E public)) + elog_N c then False
              else if Act C (elog_U pf) (elog_Base public) \<noteq> Act C e (elog_Y public) + elog_B c then False
              else True)"

section \<open>What the proofs show\<close>

lemma toBeWritten_Ciphertext [simp]: "toBeWritten (any_Ciphertext C c)
    = Inr (Ciphertext_Domain, Point_MarshalBinary C (ct_L c) @ Point_MarshalBinary C (ct_M c))"
  by (simp add: any_Ciphertext_def Ciphertext_WriteTo_def)

lemma zklog_challenge_cases: obtains e where "zklog_challenge C b3 h public c = (e, None)"
  by (simp add: zklog_challenge_def)

lemma zkelog_challenge_cases: obtains e where "zkelog_challenge C b3 h public c = (e, None)"
  by (simp add: zkelog_challenge_def)

lemma zklog_Verify_equations:
  "zklog_challenge C b3 h public (log_Commitment pf) = (e, None) \<Longrightarrow> zklog_Verify C b3 h public (Some pf) \<longleftrightarrow>
     zklog_IsValid (Some pf) \<and> ActOnBase C (log_Z1 pf) = Act C e (log_X public) + log_A (log_Commitment pf) \<and>
     Act C (log_Z1 pf) (log_H public) = Act C e (log_Y public) + log_B (log_Commitment pf) \<and>
     ActOnBase C (log_Z2 pf) = Act C e (log_H public) + log_C (log_Commitment pf)"
  by (auto simp: zklog_Verify_def Let_def)

lemma zkelog_Verify_equations:
  "zkelog_challenge C b3 h public (elog_Commitment pf) = (e, None) \<Longrightarrow> zkelog_Verify C b3 h public (Some pf) \<longleftrightarrow>
     zkelog_IsValid (Some pf) \<and> ActOnBase C (elog_Z pf) = Act C e (ct_L (elog_E public)) + elog_A (elog_Commitment pf) \<and>
     ActOnBase C (elog_U pf) + Act C (elog_Z pf) (elog_ElGamalPublic public)
       = Act C e (ct_M (elog_E public)) + elog_N (elog_Commitment pf) \<and>
     Act C (elog_U pf) (elog_Base public) = Act C e (elog_Y public) + elog_B (elog_Commitment pf)"
  by (auto simp: zkelog_Verify_def Let_def)

context curve_laws
begin

text \<open>The owner of the secret key recovers the message in the exponent.\<close>

lemma elgamal_decrypts:
  "ct_M (fst (elgamal_Encrypt C k (ActOnBase C x) m)) - Act C x (ct_L (fst (elgamal_Encrypt C k (ActOnBase C x) m)))
     = ActOnBase C m"
  by (simp add: elgamal_Encrypt_def ActOnBase_def act_act mult.commute)

lemma Ciphertext_WriteTo_inject:
  assumes "Ciphertext_Valid (Some c)" and "Ciphertext_Valid (Some d)"
    and "Ciphertext_WriteTo C c = Ciphertext_WriteTo C d"
  shows "c = d"
proof -
  have len: "length (Point_MarshalBinary C P) = 33" for P by (simp add: Point_MarshalBinary_def XBytes_def)
  have "Point_MarshalBinary C (ct_L c) @ Point_MarshalBinary C (ct_M c)
      = Point_MarshalBinary C (ct_L d) @ Point_MarshalBinary C (ct_M d)"
    using assms(3) unfolding Ciphertext_WriteTo_def by simp
  then have eq: "Point_MarshalBinary C (ct_L c) = Point_MarshalBinary C (ct_L d)"
    "Point_MarshalBinary C (ct_M c) = Point_MarshalBinary C (ct_M d)"
    by (simp_all add: append_eq_append_conv len)
  have inj: "P = Q" if "Point_MarshalBinary C P = Point_MarshalBinary C Q" "P \<noteq> 0" "Q \<noteq> 0" for P Q
    using point_marshal_roundtrip[OF that(2)] point_marshal_roundtrip[OF that(3)] unfolding that(1) by simp
  have "ct_L c \<noteq> 0" "ct_M c \<noteq> 0" "ct_L d \<noteq> 0" "ct_M d \<noteq> 0"
    using assms(1,2) by (simp_all add: Ciphertext_Valid_def split: if_splits)
  then have "ct_L c = ct_L d" "ct_M c = ct_M d" using inj[OF eq(1)] inj[OF eq(2)] by blast+
  then show ?thesis by simp
qed

lemma zklog_complete:
  assumes "log_H public = ActOnBase C (log_b private)" and "log_X public = ActOnBase C (log_a private)"
    and "log_Y public = Act C (log_a private) (log_H public)"
  shows "zklog_Verify C b3 h public (Some (zklog_NewProof C b3 rnd h public private))
    \<longleftrightarrow> zklog_IsValid (Some (zklog_NewProof C b3 rnd h public private))"
proof -
  obtain e where e: "zklog_challenge C b3 h public (log_Commitment (zklog_NewProof C b3 rnd h public private)) = (e, None)"
    by (rule zklog_challenge_cases)
  show ?thesis unfolding zklog_Verify_equations[OF e] using e assms
    by (cases rnd) (simp add: zklog_NewProof_def Let_def ActOnBase_def act_scalar_add act_act algebra_simps)
qed

text \<open>Two accepted proofs with one commitment and two challenges give the common logarithm of \<open>X\<close> and \<open>Y\<close>.\<close>

lemma zklog_sound:
  assumes "zklog_Verify C b3 h public (Some pf)" and "zklog_Verify C b3' h public (Some pf')"
    and "log_Commitment pf' = log_Commitment pf"
    and "fst (zklog_challenge C b3 h public (log_Commitment pf)) \<noteq> fst (zklog_challenge C b3' h public (log_Commitment pf))"
  shows "\<exists>a b. log_X public = ActOnBase C a \<and> log_Y public = Act C a (log_H public) \<and> log_H public = ActOnBase C b"
proof -
  obtain e where e: "zklog_challenge C b3 h public (log_Commitment pf) = (e, None)" by (rule zklog_challenge_cases)
  obtain e' where e': "zklog_challenge C b3' h public (log_Commitment pf') = (e', None)" by (rule zklog_challenge_cases)
  have ne: "e \<noteq> e'" using assms(3,4) e e' by simp
  have q: "ActOnBase C (log_Z1 pf) = Act C e (log_X public) + log_A (log_Commitment pf)"
      "Act C (log_Z1 pf) (log_H public) = Act C e (log_Y public) + log_B (log_Commitment pf)"
      "ActOnBase C (log_Z2 pf) = Act C e (log_H public) + log_C (log_Commitment pf)"
    using assms(1) by (simp_all add: zklog_Verify_equations[OF e])
  have q': "ActOnBase C (log_Z1 pf') = Act C e' (log_X public) + log_A (log_Commitment pf)"
      "Act C (log_Z1 pf') (log_H public) = Act C e' (log_Y public) + log_B (log_Commitment pf)"
      "ActOnBase C (log_Z2 pf') = Act C e' (log_H public) + log_C (log_Commitment pf)"
    using assms(2) by (simp_all add: zklog_Verify_equations[OF e'] assms(3))
  show ?thesis
    using sch_extract[OF q(1)[unfolded ActOnBase_def] q'(1)[unfolded ActOnBase_def] ne] sch_extract[OF q(2) q'(2) ne]
      sch_extract[OF q(3)[unfolded ActOnBase_def] q'(3)[unfolded ActOnBase_def] ne]
    unfolding ActOnBase_def by blast
qed

lemma zkelog_complete:
  assumes "elog_E public = fst (elgamal_Encrypt C (elog_Lambda private) (elog_ElGamalPublic public) (elog_y private))"
    and "elog_Y public = Act C (elog_y private) (elog_Base public)"
  shows "zkelog_Verify C b3 h public (Some (zkelog_NewProof C b3 rnd h public private))
    \<longleftrightarrow> zkelog_IsValid (Some (zkelog_NewProof C b3 rnd h public private))"
proof -
  obtain e where e: "zkelog_challenge C b3 h public (elog_Commitment (zkelog_NewProof C b3 rnd h public private)) = (e, None)"
    by (rule zkelog_challenge_cases)
  show ?thesis unfolding zkelog_Verify_equations[OF e] using e assms
    by (cases rnd) (simp add: zkelog_NewProof_def elgamal_Encrypt_def Let_def ActOnBase_def act_scalar_add act_act
        act_point_add mult.assoc algebra_simps)
qed

text \<open>Two accepted proofs with one commitment and two challenges give nonce and message of the ciphertext,
  and the message is the logarithm of \<open>Y\<close>.\<close>

lemma zkelog_sound:
  assumes "zkelog_Verify C b3 h public (Some pf)" and "zkelog_Verify C b3' h public (Some pf')"
    and "elog_Commitment pf' = elog_Commitment pf"
    and "fst (zkelog_challenge C b3 h public (elog_Commitment pf)) \<noteq> fst (zkelog_challenge C b3' h public (elog_Commitment pf))"
  shows "\<exists>y k. elog_E public = fst (elgamal_Encrypt C k (elog_ElGamalPublic public) y) \<and>
    elog_Y public = Act C y (elog_Base public)"
proof -
  obtain e where e: "zkelog_challenge C b3 h public (elog_Commitment pf) = (e, None)" by (rule zkelog_challenge_cases)
  obtain e' where e': "zkelog_challenge C b3' h public (elog_Commitment pf') = (e', None)" by (rule zkelog_challenge_cases)
  have ne: "e \<noteq> e'" using assms(3,4) e e' by simp
  have q: "ActOnBase C (elog_Z pf) = Act C e (ct_L (elog_E public)) + elog_A (elog_Commitment pf)"
      "ActOnBase C (elog_U pf) + Act C (elog_Z pf) (elog_ElGamalPublic public)
         = Act C e (ct_M (elog_E public)) + elog_N (elog_Commitment pf)"
      "Act C (elog_U pf) (elog_Base public) = Act C e (elog_Y public) + elog_B (elog_Commitment pf)"
    using assms(1) by (simp_all add: zkelog_Verify_equations[OF e])
  have q': "ActOnBase C (elog_Z pf') = Act C e' (ct_L (elog_E public)) + elog_A (elog_Commitment pf)"
      "ActOnBase C (elog_U pf') + Act C (elog_Z pf') (elog_ElGamalPublic public)
         = Act C e' (ct_M (elog_E public)) + elog_N (elog_Commitment pf)"
      "Act C (elog_U pf') (elog_Base public) = Act C e' (elog_Y public) + elog_B (elog_Commitment pf)"
    using assms(2) by (simp_all add: zkelog_Verify_equations[OF e'] assms(3))
  let ?d = "inverse (e - e')" and ?X = "elog_ElGamalPublic public" and ?M = "ct_M (elog_E public)"
  let ?k = "(elog_Z pf - elog_Z pf') / (e - e')" and ?y = "(elog_U pf - elog_U pf') / (e - e')"
  have L: "ct_L (elog_E public) = ActOnBase C ?k" and Y: "elog_Y public = Act C ?y (elog_Base public)"
    using sch_extract[OF q(1)[unfolded ActOnBase_def] q'(1)[unfolded ActOnBase_def] ne] sch_extract[OF q(3) q'(3) ne]
    unfolding ActOnBase_def .
  have "Act C e ?M = ActOnBase C (elog_U pf) + Act C (elog_Z pf) ?X - elog_N (elog_Commitment pf)"
    "Act C e' ?M = ActOnBase C (elog_U pf') + Act C (elog_Z pf') ?X - elog_N (elog_Commitment pf)"
    using q(2) q'(2) by (simp_all add: eq_diff_eq)
  then have "Act C (e - e') ?M = ActOnBase C (elog_U pf - elog_U pf') + Act C (elog_Z pf - elog_Z pf') ?X"
    by (simp add: ActOnBase_def act_scalar_diff)
  then have "Act C ?d (Act C (e - e') ?M) = ActOnBase C ?y + Act C ?k ?X"
    by (simp add: ActOnBase_def act_point_add act_act divide_inverse mult.commute)
  then have "?M = ActOnBase C ?y + Act C ?k ?X" using ne by (simp add: act_act act_one)
  then show ?thesis using L Y by (intro exI[of _ ?y] exI[of _ ?k]) (simp add: elgamal_Encrypt_def)
qed

end

end
