(* ===== verification/Ecdsa.thy ===== *)
theory Ecdsa
  imports Schnorr
begin

text \<open>
  ECDSA signatures and presignatures: \<open>pkg/ecdsa/signature.go\<close> and \<open>pkg/ecdsa/presignature.go\<close>.

  The order in which Go ranges over a map is the order of the association list; the sum of the shares
  and the set of culprits do not depend on it.
\<close>

section \<open>Signatures\<close>

record ('s, 'p) EcdsaSignature =
  es_R :: 'p
  es_S :: 's

definition ecdsa_Verify :: "('s::field, 'p::ab_group_add) curve \<Rightarrow> ('s, 'p) EcdsaSignature \<Rightarrow> 'p \<Rightarrow> bytes \<Rightarrow> bool" where
  "ecdsa_Verify C sig X hash =
     (let r = XScalar C (es_R sig)
      in if r = 0 \<or> es_S sig = 0 then False
         else let m = FromHash C hash;
                  sInv = inverse (es_S sig);
                  R2 = Act C sInv (ActOnBase C m + Act C r X)
              in R2 = es_R sig)"

text \<open>
  \<open>SigEthereum\<close> changes the signature it is called on: \<open>S\<close> is negated in place if it is over half the
  order, and \<open>R\<close> is decoded again from the bytes with the parity it then has. The second component is
  the signature afterwards.
\<close>

definition SigEthereum :: "('s::field, 'p::ab_group_add) curve \<Rightarrow> ('s, 'p) EcdsaSignature
    \<Rightarrow> (go_error + bytes) \<times> ('s, 'p) EcdsaSignature" where
  "SigEthereum C sig =
     (let over = IsOverHalfOrder C (es_S sig);
          sig1 = (if over then sig\<lparr>es_S := - es_S sig\<rparr> else sig);
          r = Point_MarshalBinary C (es_R sig1);
          s = Scalar_MarshalBinary C (es_S sig1);
          rs0 = r @ s;
          v = rs0 ! 0 - 2;
          rs1 = drop 1 rs0 @ drop 64 rs0;
          rs = (if over then rs1[64 := xor v 1] else rs1[64 := v])
      in case Point_UnmarshalBinary C (r[0 := rs ! 64 + 2]) of
           Inl e \<Rightarrow> (Inl e, sig1)
         | Inr R \<Rightarrow> (Inr rs, sig1\<lparr>es_R := R\<rparr>))"

section \<open>Presignatures\<close>

record ('s, 'p) PreSignature =
  ps_ID :: RID
  ps_R :: 'p
  ps_RBar :: "(ID, 'p) gomap"
  ps_S :: "(ID, 'p) gomap"
  ps_KShare :: 's
  ps_ChiShare :: 's

definition SignatureShare :: "('s::field, 'p) curve \<Rightarrow> ('s, 'p) PreSignature \<Rightarrow> bytes \<Rightarrow> 's" where
  "SignatureShare C sig hash =
     (let m = FromHash C hash; r = XScalar C (ps_R sig);
          mk = m * ps_KShare sig; rx = r * ps_ChiShare sig
      in mk + rx)"

definition PreSignature_Signature :: "('s::field, 'p) PreSignature \<Rightarrow> (ID, 's) gomap \<Rightarrow> ('s, 'p) EcdsaSignature" where
  "PreSignature_Signature sig shares = \<lparr>es_R = ps_R sig, es_S = foldl (\<lambda>s (j, sigma). s + sigma) 0 shares\<rparr>"

definition VerifySignatureShares :: "('s::field, 'p::ab_group_add) curve \<Rightarrow> ('s, 'p) PreSignature \<Rightarrow> (ID, 's) gomap
    \<Rightarrow> bytes \<Rightarrow> ID list" where
  "VerifySignatureShares C sig shares hash =
     (let r = XScalar C (ps_R sig); m = FromHash C hash
      in foldl (\<lambda>culprits (j, share).
           case (mget (ps_RBar sig) j, mget (ps_S sig) j) of
             (Some Rj, Some Sj) \<Rightarrow>
               if Act C share (ps_R sig) \<noteq> Act C m Rj + Act C r Sj then culprits @ [j] else culprits
           | _ \<Rightarrow> culprits @ [j]) [] shares)"

fun Validate_points :: "(ID, 'p::ab_group_add) gomap \<Rightarrow> (ID, 'p) gomap \<Rightarrow> go_error option" where
  "Validate_points S [] = None"
| "Validate_points S ((j, R) # Rs) = (case mget S j of
       None \<Rightarrow> Some (Err ''presignature: S invalid'')
     | Some Sj \<Rightarrow> if Sj = 0 then Some (Err ''presignature: S invalid'')
         else if R = 0 then Some (Err ''presignature: RBar invalid'')
         else Validate_points S Rs)"

definition PreSignature_Validate :: "('s::field, 'p::ab_group_add) PreSignature \<Rightarrow> go_error option" where
  "PreSignature_Validate sig =
     (if length (ps_RBar sig) \<noteq> length (ps_S sig) then Some (Err ''presignature: different number of R,S shares'')
      else case Validate_points (ps_S sig) (ps_RBar sig) of
        Some e \<Rightarrow> Some e
      | None \<Rightarrow>
          if ps_R sig = 0 then Some (Err ''presignature: R is identity'')
          else case RID_Validate (ps_ID sig) of
            Some e \<Rightarrow> Some (Wrap ''presignature'' e)
          | None \<Rightarrow> if ps_ChiShare sig = 0 \<or> ps_KShare sig = 0 then Some (Err ''ChiShare or KShare is invalid'')
              else None)"

definition SignerIDs :: "('s, 'p) PreSignature \<Rightarrow> IDSlice" where
  "SignerIDs sig = NewIDSlice (mkeys (ps_RBar sig))"

section \<open>Shares and culprits\<close>

lemma Signature_sum: "es_S (PreSignature_Signature sig shares) = sum_list (mvals shares)"
proof -
  have "foldl (\<lambda>s (j, sigma). s + sigma) a xs = a + sum_list (mvals xs)" for a :: 'a and xs :: "(ID, 'a) gomap"
    by (induction xs arbitrary: a) (auto simp: mvals_def add.assoc)
  then show ?thesis by (simp add: PreSignature_Signature_def)
qed

text \<open>The share of party \<open>j\<close> passes the check against its commitments.\<close>

definition share_accepted :: "('s::field, 'p::ab_group_add) curve \<Rightarrow> ('s, 'p) PreSignature \<Rightarrow> bytes \<Rightarrow> ID \<times> 's \<Rightarrow> bool" where
  "share_accepted C sig hash = (\<lambda>(j, share). \<exists>Rj Sj. mget (ps_RBar sig) j = Some Rj \<and> mget (ps_S sig) j = Some Sj \<and>
     Act C share (ps_R sig) = Act C (FromHash C hash) Rj + Act C (XScalar C (ps_R sig)) Sj)"

lemma VerifySignatureShares_filter:
  "VerifySignatureShares C sig shares hash = map fst (filter (\<lambda>x. \<not> share_accepted C sig hash x) shares)"
proof -
  let ?f = "\<lambda>culprits (j, share). case (mget (ps_RBar sig) j, mget (ps_S sig) j) of
      (Some Rj, Some Sj) \<Rightarrow>
        if Act C share (ps_R sig) \<noteq> Act C (FromHash C hash) Rj + Act C (XScalar C (ps_R sig)) Sj then culprits @ [j] else culprits
    | _ \<Rightarrow> culprits @ [j]"
  have "foldl ?f acc xs = acc @ map fst (filter (\<lambda>x. \<not> share_accepted C sig hash x) xs)" for acc xs
    by (induction xs arbitrary: acc) (auto simp: share_accepted_def split: option.splits)
  then show ?thesis by (simp add: VerifySignatureShares_def Let_def)
qed

lemma Validate_points_None:
  "Validate_points S Rs = None \<longleftrightarrow> (\<forall>(j, R)\<in>set Rs. R \<noteq> 0 \<and> (\<exists>Sj. mget S j = Some Sj \<and> Sj \<noteq> 0))"
  by (induction S Rs rule: Validate_points.induct) (auto split: option.splits)

lemma ethereum_bytes:
  assumes "length x = 32" and "length s = 32"
  shows "(drop (Suc 0) ((p # x) @ s) @ drop 64 ((p # x) @ s))[64 := v] = x @ s @ [v]"
    and "((p # x) @ s) ! 0 = p" and "(x @ s @ [v]) ! 64 = v"
proof -
  obtain y where "drop 64 ((p # x) @ s) = [y]" using assms by (auto simp: length_Suc_conv numeral_eq_Suc)
  then show "(drop (Suc 0) ((p # x) @ s) @ drop 64 ((p # x) @ s))[64 := v] = x @ s @ [v]"
    using assms by (simp add: list_update_append)
qed (use assms in \<open>simp_all add: nth_append\<close>)

lemma flip_parity: "xor (of_bool b) 1 = (of_bool (\<not> b) :: byte)"
  by (cases b) simp_all

context curve_laws
begin

lemma Verify_iff:
  assumes "XScalar C (es_R sig) \<noteq> 0" and "es_S sig \<noteq> 0"
  shows "ecdsa_Verify C sig X hash \<longleftrightarrow>
    Act C (es_S sig) (es_R sig) = ActOnBase C (FromHash C hash) + Act C (XScalar C (es_R sig)) X"
proof -
  have "Act C (inverse (es_S sig)) Q = es_R sig \<longleftrightarrow> Act C (es_S sig) (es_R sig) = Q" for Q
    using assms(2) by (metis act_act act_one left_inverse right_inverse)
  then show ?thesis using assms by (simp add: ecdsa_Verify_def Let_def)
qed

text \<open>Shares that all pass the check add up to a valid signature.\<close>

lemma accepted_shares_sign:
  assumes "\<forall>x\<in>set shares. share_accepted C sig hash x"
    and "(\<Sum>(j, s)\<leftarrow>shares. the (mget (ps_RBar sig) j)) = NewBasePoint C"
    and "(\<Sum>(j, s)\<leftarrow>shares. the (mget (ps_S sig) j)) = X"
  shows "Act C (sum_list (mvals shares)) (ps_R sig) =
    ActOnBase C (FromHash C hash) + Act C (XScalar C (ps_R sig)) X"
proof -
  let ?m = "FromHash C hash" and ?r = "XScalar C (ps_R sig)"
  have "Act C (sum_list (mvals xs)) (ps_R sig) =
      Act C ?m (\<Sum>(j, s)\<leftarrow>xs. the (mget (ps_RBar sig) j)) + Act C ?r (\<Sum>(j, s)\<leftarrow>xs. the (mget (ps_S sig) j))"
    if "\<forall>x\<in>set xs. share_accepted C sig hash x" for xs
    using that by (induction xs) (auto simp: share_accepted_def mvals_def act_scalar_add act_point_add add_ac)
  from this[OF assms(1)] show ?thesis unfolding assms(2,3) ActOnBase_def .
qed

lemma honest_share_accepted:
  assumes "ps_R sig \<noteq> 0" and "mget (ps_RBar sig) j = Some (Act C k (ps_R sig))"
    and "mget (ps_S sig) j = Some (Act C chi (ps_R sig))"
  shows "share_accepted C sig hash (j, s) \<longleftrightarrow> s = FromHash C hash * k + XScalar C (ps_R sig) * chi"
  using assms act_cancel[OF _ assms(1)] by (auto simp: share_accepted_def act_act act_scalar_add)

lemma IsOverHalfOrder_neg: "IsOverHalfOrder C s \<Longrightarrow> \<not> IsOverHalfOrder C (- s)"
proof -
  assume o: "IsOverHalfOrder C s"
  then have "s \<noteq> 0" by (auto simp: IsOverHalfOrder_def)
  then show ?thesis using o sNat_minus[of s] by (auto simp: IsOverHalfOrder_def)
qed

lemma unmarshal_parity:
  assumes "P \<noteq> 0"
  shows "Point_UnmarshalBinary C ((of_bool b + 2) # XBytes C P) = Inr (if pYOdd C P = b then P else - P)"
proof -
  have "be_nat (XBytes C P) = pX C P" "length (XBytes C P) = 32"
    using be_nat_XBytes[OF assms] by (simp_all add: XBytes_def)
  moreover have "((of_bool b + 2 :: byte) = 3) = b" by simp
  ultimately show ?thesis
    using decompress[OF assms] pX_bound[OF assms] by (simp add: Point_UnmarshalBinary_def Let_def)
qed

text \<open>What \<open>SigEthereum\<close> returns and leaves behind.\<close>

lemma SigEthereum_eq:
  assumes "es_R sig \<noteq> 0"
  shows "SigEthereum C sig = (let over = IsOverHalfOrder C (es_S sig);
      s = (if over then - es_S sig else es_S sig); R = (if over then - es_R sig else es_R sig)
    in (Inr (XBytes C R @ Scalar_MarshalBinary C s @ [of_bool (pYOdd C R)]), \<lparr>es_R = R, es_S = s\<rparr>))"
proof -
  let ?R = "es_R sig" and ?over = "IsOverHalfOrder C (es_S sig)"
  let ?s = "if ?over then - es_S sig else es_S sig" and ?b = "pYOdd C (es_R sig) \<noteq> ?over"
  have r: "length (XBytes C ?R) = 32" "length (Scalar_MarshalBinary C ?s) = 32"
    by (simp_all add: XBytes_def Scalar_MarshalBinary_def)
  have "SigEthereum C sig = (case Point_UnmarshalBinary C ((of_bool ?b + 2) # XBytes C ?R) of
      Inl e \<Rightarrow> (Inl e, sig\<lparr>es_S := ?s\<rparr>)
    | Inr R \<Rightarrow> (Inr (XBytes C ?R @ Scalar_MarshalBinary C ?s @ [of_bool ?b]), sig\<lparr>es_S := ?s, es_R := R\<rparr>))"
    using r by (cases ?over) (simp_all add: SigEthereum_def Let_def Point_MarshalBinary_def ethereum_bytes flip_parity
        del: append_Cons drop_append split: sum.split)
  then show ?thesis
    using pYOdd_neg[OF assms] unfolding unmarshal_parity[OF assms]
    by (cases sig; cases ?over; cases "pYOdd C ?R") (simp_all add: Let_def XBytes_neg)
qed

end

section \<open>Properties\<close>

definition sample_presig :: "(gf13, gf13) PreSignature" where
  "sample_presig = \<lparr>ps_ID = [], ps_R = 7, ps_RBar = [(''a'', 7), (''b'', 7)], ps_S = [(''a'', 1), (''b'', 2)],
     ps_KShare = 1, ps_ChiShare = 2\<rparr>"

text \<open>C17: The shares of a presignature. If the commitments \<open>RBar\<close> and \<open>S\<close> of the signers sum up to the base
  point and to the public key, then shares of all signers for which \<open>VerifySignatureShares\<close> names no
  culprit combine to a signature that verifies (unless one of its parts is zero). And a signer whose
  commitments are \<open>k\<close> and \<open>\<chi>\<close> times \<open>R\<close> is named exactly if it did not send the share
  \<open>SignatureShare\<close> computes from \<open>k\<close> and \<open>\<chi>\<close>.\<close>

theorem presignature_shares_blame:
  assumes "curve_laws C" and "ps_R sig \<noteq> 0" and "distinct (mkeys shares)"
    and "(\<Sum>(j, s)\<leftarrow>shares. the (mget (ps_RBar sig) j)) = NewBasePoint C"
    and "(\<Sum>(j, s)\<leftarrow>shares. the (mget (ps_S sig) j)) = X"
  shows "(VerifySignatureShares C sig shares hash = [] \<and> XScalar C (ps_R sig) \<noteq> 0 \<and>
      es_S (PreSignature_Signature sig shares) \<noteq> 0 \<longrightarrow> ecdsa_Verify C (PreSignature_Signature sig shares) X hash) \<and>
    (\<forall>j s k chi. (j, s) \<in> set shares \<and> mget (ps_RBar sig) j = Some (Act C k (ps_R sig)) \<and>
      mget (ps_S sig) j = Some (Act C chi (ps_R sig)) \<longrightarrow>
      (j \<in> set (VerifySignatureShares C sig shares hash) \<longleftrightarrow>
        s \<noteq> SignatureShare C (sig\<lparr>ps_KShare := k, ps_ChiShare := chi\<rparr>) hash))"
proof -
  have "es_R (PreSignature_Signature sig shares) = ps_R sig" by (simp add: PreSignature_Signature_def)
  then have "ecdsa_Verify C (PreSignature_Signature sig shares) X hash"
    if "VerifySignatureShares C sig shares hash = []" "XScalar C (ps_R sig) \<noteq> 0" "es_S (PreSignature_Signature sig shares) \<noteq> 0"
    using curve_laws.accepted_shares_sign[OF assms(1) _ assms(4,5), of hash] that
    by (simp add: curve_laws.Verify_iff[OF assms(1)] Signature_sum VerifySignatureShares_filter filter_empty_conv)
  moreover have "j \<in> set (VerifySignatureShares C sig shares hash) \<longleftrightarrow> \<not> share_accepted C sig hash (j, s)"
    if "(j, s) \<in> set shares" for j s
  proof -
    have "s' = s" if "(j, s') \<in> set shares" for s'
      using eq_key_imp_eq_value[OF assms(3)[unfolded mkeys_def]] that \<open>(j, s) \<in> set shares\<close> by blast
    moreover have "j \<in> set (VerifySignatureShares C sig shares hash) \<longleftrightarrow>
        (\<exists>s'. (j, s') \<in> set shares \<and> \<not> share_accepted C sig hash (j, s'))"
      unfolding VerifySignatureShares_filter set_map set_filter by force
    ultimately show ?thesis using that by blast
  qed
  moreover have "share_accepted C sig hash (j, s) \<longleftrightarrow> s = SignatureShare C (sig\<lparr>ps_KShare := k, ps_ChiShare := chi\<rparr>) hash"
    if "mget (ps_RBar sig) j = Some (Act C k (ps_R sig))" "mget (ps_S sig) j = Some (Act C chi (ps_R sig))" for j s k chi
    unfolding curve_laws.honest_share_accepted[OF assms(1,2) that] by (simp add: SignatureShare_def Let_def)
  ultimately show ?thesis by blast
qed

theorem presignature_shares_blame_witness:
  "ecdsa_Verify curve13 (PreSignature_Signature sample_presig [(''a'', 0), (''b'', 12)]) 3 [16]"
proof -
  let ?sh = "[(''a'', 0), (''b'', 12)] :: (ID, gf13) gomap"
  have h: "ps_R sample_presig \<noteq> 0" "distinct (mkeys ?sh)"
    "(\<Sum>(j, s)\<leftarrow>?sh. the (mget (ps_RBar sample_presig) j)) = NewBasePoint curve13"
    "(\<Sum>(j, s)\<leftarrow>?sh. the (mget (ps_S sample_presig) j)) = 3"
    by code_simp+
  have "VerifySignatureShares curve13 sample_presig ?sh [16] = []" "XScalar curve13 (ps_R sample_presig) \<noteq> 0"
    "es_S (PreSignature_Signature sample_presig ?sh) \<noteq> 0"
    by code_simp+
  then show ?thesis using presignature_shares_blame[OF curve13_laws h, of "[16]"] by blast
qed

text \<open>C18: A valid signature is turned into the form Ethereum uses: the x coordinate of \<open>R\<close>, an \<open>S\<close> not over
  half of the order and the parity of \<open>R\<close>. The signature object is changed by the call, to a signature
  that still verifies for the same key and message.\<close>

theorem sig_ethereum_low_s:
  assumes "curve_laws C" and "es_R sig \<noteq> 0" and "ecdsa_Verify C sig X hash"
  shows "case SigEthereum C sig of
      (Inl e, sig') \<Rightarrow> False
    | (Inr rs, sig') \<Rightarrow> ecdsa_Verify C sig' X hash \<and> \<not> IsOverHalfOrder C (es_S sig') \<and>
        rs = XBytes C (es_R sig) @ Scalar_MarshalBinary C (es_S sig') @ [of_bool (pYOdd C (es_R sig'))]"
proof -
  have nz: "XScalar C (es_R sig) \<noteq> 0" "es_S sig \<noteq> 0" using assms(3) by (auto simp: ecdsa_Verify_def Let_def split: if_splits)
  have neg: "ecdsa_Verify C \<lparr>es_R = - es_R sig, es_S = - es_S sig\<rparr> X hash"
    using assms(3) nz
    by (simp add: curve_laws.Verify_iff[OF assms(1)] XScalar_def curve_laws.XBytes_neg[OF assms(1)]
        curve_laws.act_minus_left[OF assms(1)] curve_laws.act_minus_right[OF assms(1)])
  have same: "\<lparr>es_R = es_R sig, es_S = es_S sig\<rparr> = sig" by simp
  show ?thesis
    using neg assms(3) curve_laws.IsOverHalfOrder_neg[OF assms(1), of "es_S sig"]
    by (simp add: curve_laws.SigEthereum_eq[OF assms(1,2)] Let_def same curve_laws.XBytes_neg[OF assms(1)])
qed

theorem sig_ethereum_low_s_witness:
  "ecdsa_Verify curve13 (snd (SigEthereum curve13 \<lparr>es_R = 7, es_S = 12\<rparr>)) 3 [16] \<and>
   \<not> IsOverHalfOrder curve13 (es_S (snd (SigEthereum curve13 \<lparr>es_R = 7, es_S = 12\<rparr>)))"
proof -
  have "es_R \<lparr>es_R = 7 :: gf13, es_S = 12 :: gf13\<rparr> \<noteq> 0" "ecdsa_Verify curve13 \<lparr>es_R = 7, es_S = 12\<rparr> 3 [16]"
    by code_simp+
  from sig_ethereum_low_s[OF curve13_laws this] show ?thesis
    by (auto split: prod.split_asm sum.split_asm)
qed

end
