(* ===== verification/TwoParty.thy ===== *)
theory TwoParty
  imports HandlerInv
begin

text \<open>
  The handler for protocols of two parties: \<open>pkg/protocol/twoparty.go\<close>. It keeps one message for each
  round, verifies it when the round is finalized and sends on a channel of capacity two.

  The loop of \<open>advance\<close> runs as long as the current round expects no message or has one. It ends when the
  rounds of the protocol have increasing numbers, which the code does not check; the model gives \<open>None\<close> for
  a loop that does not end.
\<close>

section \<open>The handler\<close>

record ('r, 'res) TwoPartyHandler =
  tp_round :: "('r, 'res) session"
  tp_leader :: bool
  tp_err :: "go_error option"
  tp_result :: "'res option"
  tp_messages :: "(Number, Message) gomap"
  tp_out :: "Message list"
  tp_outclosed :: bool

definition tp_Result :: "('r, 'res) TwoPartyHandler \<Rightarrow> go_error + 'res" where
  "tp_Result h = (case tp_result h of Some r \<Rightarrow> Inr r | None \<Rightarrow>
     (case tp_err h of Some e \<Rightarrow> Inl e | None \<Rightarrow> Inl (Err ''protocol: not finished'')))"

definition tp_Listen_recv :: "('r, 'res) TwoPartyHandler \<Rightarrow> Message option \<times> ('r, 'res) TwoPartyHandler" where
  "tp_Listen_recv h = (case tp_out h of [] \<Rightarrow> (None, h) | m # ms \<Rightarrow> (Some m, h\<lparr>tp_out := ms\<rparr>))"

definition tp_abort_message :: "('r, 'c, 'res) round_ops \<Rightarrow> ('r, 'res) TwoPartyHandler \<Rightarrow> go_error \<Rightarrow> Message" where
  "tp_abort_message os h e = (let hp = s_helper os (tp_round h) in
     \<lparr>SSID = Some (ssid hp), From = SelfID (info hp), To = '''', Protocol = ProtocolID (info hp),
      RoundNumber = 0, Data = Some (str_bytes (error_text e)), Broadcast = False, BroadcastVerification = None\<rparr>)"

definition tp_close :: "('r, 'res) TwoPartyHandler \<Rightarrow> ('r, 'res) TwoPartyHandler outcome" where
  "tp_close h = (if tp_outclosed h then Panic else Ret (h\<lparr>tp_outclosed := True\<rparr>))"

definition tp_abort :: "('r, 'c, 'res) round_ops \<Rightarrow> go_error option \<Rightarrow> ('r, 'res) TwoPartyHandler
    \<Rightarrow> ('r, 'res) TwoPartyHandler outcome" where
  "tp_abort os err h = (case err of
       None \<Rightarrow> tp_close h
     | Some e \<Rightarrow> let h1 = h\<lparr>tp_err := Some e\<rparr> in
         if tp_outclosed h1 then Panic
         else if length (tp_out h1) < 2 then tp_close (h1\<lparr>tp_out := tp_out h1 @ [tp_abort_message os h1 e]\<rparr>)
         else tp_close h1)"

definition tp_Stop :: "('r, 'c, 'res) round_ops \<Rightarrow> ('r, 'res) TwoPartyHandler \<Rightarrow> ('r, 'res) TwoPartyHandler outcome" where
  "tp_Stop os h = (if tp_err h \<noteq> None \<or> tp_result h \<noteq> None then tp_abort os (Some (Err ''aborted by user'')) h else Ret h)"

definition canAdvance :: "('r, 'c, 'res) round_ops \<Rightarrow> ('r, 'res) TwoPartyHandler \<Rightarrow> bool" where
  "canAdvance os h = (if \<not> s_hasContent os (tp_round h) then True
     else if mget (tp_messages h) (s_number os (tp_round h)) \<noteq> None then True else False)"

text \<open>A round without content unmarshals into nil, which the decoder refuses.\<close>

definition extractRoundMessage :: "('r, 'c, 'res) round_ops \<Rightarrow> ('r, 'res) session \<Rightarrow> Message \<Rightarrow> go_error + 'c RoundMessage" where
  "extractRoundMessage os s m =
     (case (case s of Live r \<Rightarrow> if r_hasContent os r then r_unmarshal os r (case Data m of None \<Rightarrow> [] | Some b \<Rightarrow> b) else None
            | _ \<Rightarrow> None) of
        None \<Rightarrow> Inl (Wrap ''failed to unmarshal message'' (Err ''cbor''))
      | Some c \<Rightarrow> Inr \<lparr>rm_From = From m, rm_To = To m, rm_Broadcast = Broadcast m, rm_Content = c\<rparr>)"

definition tp_verifyMessage :: "('r, 'c, 'res) round_ops \<Rightarrow> Message option \<Rightarrow> ('r, 'res) TwoPartyHandler
    \<Rightarrow> (go_error option \<times> ('r, 'res) TwoPartyHandler) outcome" where
  "tp_verifyMessage os msg h = (case msg of None \<Rightarrow> Ret (None, h)
     | Some m \<Rightarrow> (let r = tp_round h in case extractRoundMessage os r m of
         Inl e \<Rightarrow> Ret (Some e, h)
       | Inr rm \<Rightarrow> obind (s_verify os r rm) (\<lambda>v. case v of
             Some e \<Rightarrow> Ret (Some (round_err os r e), h)
           | None \<Rightarrow> obind (s_store os r rm) (\<lambda>st. case st of
                 Inl e \<Rightarrow> Ret (Some (round_err os r e), h)
               | Inr r' \<Rightarrow> Ret (None, h\<lparr>tp_round := r'\<rparr>)))))"

fun tp_forward :: "('r, 'c, 'res) round_ops \<Rightarrow> ('r, 'res) session \<Rightarrow> 'c RoundMessage list
    \<Rightarrow> ('r, 'res) TwoPartyHandler \<Rightarrow> ('r, 'res) TwoPartyHandler outcome" where
  "tp_forward os newRound [] h = Ret h"
| "tp_forward os newRound (rm # rms) h = (case r_marshal os (rm_Content rm) of
       None \<Rightarrow> Panic
     | Some bs \<Rightarrow> (let hp = s_helper os newRound;
           m = \<lparr>SSID = Some (ssid hp), From = SelfID (info hp), To = rm_To rm, Protocol = ProtocolID (info hp),
             RoundNumber = r_contentRound os (rm_Content rm), Data = Some bs, Broadcast = rm_Broadcast rm,
             BroadcastVerification = None\<rparr>
         in if tp_outclosed h then Panic
            else if length (tp_out h) < 2 then tp_forward os newRound rms (h\<lparr>tp_out := tp_out h @ [m]\<rparr>)
            else Blocked))"

text \<open>The body of the loop of \<open>advance\<close>; the flag tells whether the loop goes on.\<close>

definition advance_step :: "('r, 'c, 'res) round_ops \<Rightarrow> ('r, 'res) TwoPartyHandler
    \<Rightarrow> (bool \<times> ('r, 'res) TwoPartyHandler) outcome" where
  "advance_step os h =
     obind (tp_verifyMessage os (mget (tp_messages h) (s_number os (tp_round h))) h) (\<lambda>(err, h1). case err of
         Some e \<Rightarrow> obind (tp_abort os (Some e) h1) (\<lambda>h2. Ret (False, h2))
       | None \<Rightarrow> obind (s_finalize os (tp_round h1) 1) (\<lambda>res. case res of
             Inl e \<Rightarrow> obind (tp_abort os (Some e) h1) (\<lambda>h2. Ret (False, h2))
           | Inr (None, out) \<Rightarrow> obind (tp_abort os None h1) (\<lambda>h2. Ret (False, h2))
           | Inr (Some newRound, out) \<Rightarrow>
               obind (tp_forward os newRound out h1) (\<lambda>h2. let h3 = h2\<lparr>tp_round := newRound\<rparr> in case newRound of
                   AbortRound hp e cs \<Rightarrow> obind (tp_abort os (Some e) h3) (\<lambda>h4. Ret (False, h4))
                 | OutputRound hp r \<Rightarrow> obind (tp_abort os None (h3\<lparr>tp_result := Some r\<rparr>)) (\<lambda>h4. Ret (False, h4))
                 | Live r \<Rightarrow> Ret (True, h3))))"

partial_function (option) advance :: "('r, 'c, 'res) round_ops \<Rightarrow> ('r, 'res) TwoPartyHandler
    \<Rightarrow> ('r, 'res) TwoPartyHandler outcome option" where
  "advance os h = (if \<not> canAdvance os h then Some (Ret h)
     else case advance_step os h of
       Ret x \<Rightarrow> (if fst x then advance os (snd x) else Some (Ret (snd x)))
     | Panic \<Rightarrow> Some Panic
     | Blocked \<Rightarrow> Some Blocked)"

declare advance.simps [code]

definition NewTwoPartyHandler :: "('r, 'c, 'res) round_ops \<Rightarrow> (bytes option \<Rightarrow> go_error + ('r, 'res) session) \<Rightarrow> bytes option
    \<Rightarrow> bool \<Rightarrow> (go_error + ('r, 'res) TwoPartyHandler) outcome option" where
  "NewTwoPartyHandler os create sessionID leader = (case create sessionID of
       Inl e \<Rightarrow> Some (Ret (Inl (Wrap ''protocol: failed to create round'' e)))
     | Inr r \<Rightarrow> (let h = \<lparr>tp_round = r, tp_leader = leader, tp_err = None, tp_result = None, tp_messages = [],
           tp_out = [], tp_outclosed = False\<rparr>
         in if leader then map_option (\<lambda>x. obind x (\<lambda>h'. Ret (Inr h'))) (advance os h) else Some (Ret (Inr h))))"

definition tp_CanAccept :: "('r, 'c, 'res) round_ops \<Rightarrow> ('r, 'res) TwoPartyHandler \<Rightarrow> Message option \<Rightarrow> bool" where
  "tp_CanAccept os h msg = (case msg of None \<Rightarrow> False | Some m \<Rightarrow>
     (let hp = s_helper os (tp_round h)
      in if \<not> IsFor m (SelfID (info hp)) then False
         else if Protocol m \<noteq> ProtocolID (info hp) then False
         else if \<not> bytes_Equal (SSID m) (ssid hp) then False
         else if \<not> Contains (partyIDs hp) [From m] then False
         else if Data m = None then False
         else if RoundNumber m > FinalRoundNumber (info hp) then False
         else True))"

definition tp_Accept :: "('r, 'c, 'res) round_ops \<Rightarrow> Message option \<Rightarrow> ('r, 'res) TwoPartyHandler
    \<Rightarrow> ('r, 'res) TwoPartyHandler outcome option" where
  "tp_Accept os msg h =
     (if \<not> tp_CanAccept os h msg \<or> tp_err h \<noteq> None \<or> tp_result h \<noteq> None then Some (Ret h)
      else case msg of None \<Rightarrow> Some (Ret h)
        | Some m \<Rightarrow>
            if RoundNumber m = 0
            then Some (tp_abort os (Some (Err (aborted_text (Data m)))) h)
            else advance os (h\<lparr>tp_messages := mput (RoundNumber m) m (tp_messages h)\<rparr>))"

section \<open>Handlers in use\<close>

inductive tp_reachable :: "('r, 'c, 'res) round_ops \<Rightarrow> ('r, 'res) session \<Rightarrow> ('r, 'res) TwoPartyHandler \<Rightarrow> bool"
  for os r where
  start: "create sid = Inr r \<Longrightarrow> NewTwoPartyHandler os create sid leader = Some (Ret (Inr h)) \<Longrightarrow> tp_reachable os r h"
| accept: "tp_reachable os r h \<Longrightarrow> tp_Accept os msg h = Some (Ret h') \<Longrightarrow> tp_reachable os r h'"
| listen: "tp_reachable os r h \<Longrightarrow> tp_Listen_recv h = (m, h') \<Longrightarrow> tp_reachable os r h'"
| stop: "tp_reachable os r h \<Longrightarrow> tp_Stop os h = Ret h' \<Longrightarrow> tp_reachable os r h'"

text \<open>Running with an open channel, or ended with a closed one and exactly one of result and error.\<close>

definition tp_running :: "('r, 'res) TwoPartyHandler \<Rightarrow> bool" where
  "tp_running h \<longleftrightarrow> tp_err h = None \<and> tp_result h = None \<and> \<not> tp_outclosed h"

definition tp_ended :: "('r, 'res) TwoPartyHandler \<Rightarrow> bool" where
  "tp_ended h \<longleftrightarrow> (tp_err h = None) \<noteq> (tp_result h = None) \<and> tp_outclosed h"

text \<open>Rounds which always give a next one.\<close>

definition rounds_follow :: "('r, 'c, 'res) round_ops \<Rightarrow> bool" where
  "rounds_follow os \<longleftrightarrow> (\<forall>r cap out. r_finalize os r cap \<noteq> Ret (Inr (None, out)))"

lemma tp_abort_error: "tp_running h \<Longrightarrow> tp_abort os (Some e) h = Ret h' \<Longrightarrow> tp_ended h'"
  by (auto simp: tp_running_def tp_ended_def tp_abort_def tp_close_def Let_def split: if_splits)

lemma tp_abort_running: "tp_running h \<Longrightarrow> tp_abort os e h \<noteq> Panic \<and> tp_abort os e h \<noteq> Blocked"
  by (auto simp: tp_running_def tp_abort_def tp_close_def Let_def split: option.splits)

lemma tp_verifyMessage_frame: "tp_verifyMessage os msg h = Ret (e, h') \<Longrightarrow> tp_running h' = tp_running h"
  by (auto simp: tp_verifyMessage_def tp_running_def Let_def elim!: obind_RetE split: option.split_asm sum.split_asm)

lemma tp_forward_frame: "tp_forward os s rms h = Ret h' \<Longrightarrow> tp_running h' = tp_running h"
  by (induction os s rms h rule: tp_forward.induct)
    (auto simp: tp_running_def Let_def split: option.split_asm if_split_asm)

lemma rounds_followD: "rounds_follow os \<Longrightarrow> s_finalize os s cap = Ret (Inr (x, out)) \<Longrightarrow> \<exists>n. x = Some n"
  by (cases s; cases x) (simp_all add: rounds_follow_def)

lemma advance_step_running:
  assumes "tp_running h" and "rounds_follow os" and s: "advance_step os h = Ret (again, h')"
  shows "if again then tp_running h' \<and> (\<exists>r. tp_round h' = Live r) else tp_ended h'"
proof -
  obtain e h1 where v: "tp_verifyMessage os (mget (tp_messages h) (s_number os (tp_round h))) h = Ret (e, h1)"
    using s by (auto simp: advance_step_def elim!: obind_RetE)
  have r1: "tp_running h1" using tp_verifyMessage_frame[OF v] assms(1) by simp
  show ?thesis
  proof (cases e)
    case (Some e')
    then show ?thesis using s v tp_abort_error[OF r1] by (auto simp: advance_step_def elim!: obind_RetE)
  next
    case None
    obtain res where f: "s_finalize os (tp_round h1) 1 = Ret res" using s v None by (auto simp: advance_step_def elim!: obind_RetE)
    show ?thesis
    proof (cases res)
      case (Inl e')
      then show ?thesis using s v None f tp_abort_error[OF r1] by (auto simp: advance_step_def elim!: obind_RetE)
    next
      case (Inr x)
      obtain sn out where x: "x = (sn, out)" by (cases x)
      obtain n where n: "sn = Some n" using rounds_followD[OF assms(2)] f Inr x by blast
      obtain h2 where h2: "tp_forward os n out h1 = Ret h2" using s v None f Inr x n by (auto simp: advance_step_def elim!: obind_RetE)
      have r3: "tp_running (h2\<lparr>tp_round := n\<rparr>)" using tp_forward_frame[OF h2] r1 by (simp add: tp_running_def)
      show ?thesis
        using s v None f Inr x n h2 r3 tp_abort_error[OF r3]
        by (auto simp: advance_step_def tp_running_def tp_ended_def tp_abort_def[of os None] tp_close_def Let_def
            elim!: obind_RetE split: session.split_asm if_split_asm)
    qed
  qed
qed

lemma advance_running:
  "advance os h = Some y \<Longrightarrow> rounds_follow os \<longrightarrow> tp_running h \<longrightarrow> (\<forall>h'. y = Ret h' \<longrightarrow> tp_running h' \<or> tp_ended h')"
proof (induction rule: advance.raw_induct[rotated, consumes 1, case_names step])
  case (step f os h y)
  show ?case
  proof (intro impI allI)
    fix h' assume a: "rounds_follow os" "tp_running h" "y = Ret h'"
    show "tp_running h' \<or> tp_ended h'"
    proof (cases "canAdvance os h")
      case True
      then obtain x where x: "advance_step os h = Ret x" "(if fst x then f os (snd x) else Some (Ret (snd x))) = Some (Ret h')"
        using step(2) a(3) by (simp split: outcome.split_asm)
      have "advance_step os h = Ret (fst x, snd x)" using x(1) by simp
      from advance_step_running[OF a(2,1) this] show ?thesis
        using step(1)[of os "snd x" "Ret h'"] a(1) x(2) by (simp split: if_split_asm)
    qed (use step(2) a in auto)
  qed
qed

lemma tp_Accept_ended: "tp_ended h \<Longrightarrow> tp_Accept os msg h = Some (Ret h)"
  by (auto simp: tp_Accept_def tp_ended_def)

lemma tp_Accept_running:
  assumes "tp_Accept os msg h = Some (Ret h')" and "tp_running h" and "rounds_follow os"
  shows "tp_running h' \<or> tp_ended h'"
proof -
  show ?thesis
  proof (cases "tp_CanAccept os h msg")
    case True
    then obtain m where m: "msg = Some m" by (cases msg) (auto simp: tp_CanAccept_def)
    have acc: "tp_Accept os msg h = (if RoundNumber m = 0 then Some (tp_abort os (Some (Err (aborted_text (Data m)))) h)
        else advance os (h\<lparr>tp_messages := mput (RoundNumber m) m (tp_messages h)\<rparr>))"
      using True assms(2) by (simp add: tp_Accept_def tp_running_def m)
    have "tp_running (h\<lparr>tp_messages := mput (RoundNumber m) m (tp_messages h)\<rparr>)" using assms(2) by (simp add: tp_running_def)
    then show ?thesis
      using assms(1,3) tp_abort_error[OF assms(2)] advance_running unfolding acc by (metis option.inject)
  next
    case False
    then show ?thesis using assms(1,2) by (simp add: tp_Accept_def)
  qed
qed

text \<open>\<open>Stop\<close> has its guard the wrong way round, as in the other handler: it does nothing while the protocol
  runs, and closes the closed channel again afterwards.\<close>

lemma tp_Stop_guard: "tp_running h \<Longrightarrow> tp_Stop os h = Ret h" "tp_ended h \<Longrightarrow> tp_Stop os h = Panic"
  by (auto simp: tp_running_def tp_ended_def tp_Stop_def tp_abort_def Let_def)

lemma two_party_lifecycle:
  assumes "tp_reachable os r h" and "rounds_follow os"
  shows "tp_running h \<or> tp_ended h"
  using assms(1)
proof (induction rule: tp_reachable.induct)
  case (start create sid leader h)
  let ?h = "\<lparr>tp_round = r, tp_leader = leader, tp_err = None, tp_result = None, tp_messages = [],
    tp_out = [], tp_outclosed = False\<rparr>"
  have "tp_running ?h" by (simp add: tp_running_def)
  moreover have "advance os ?h = Some (Ret h) \<or> h = ?h"
    using start by (auto simp: NewTwoPartyHandler_def Let_def elim!: obind_RetE split: if_split_asm)
  ultimately show ?case using advance_running assms(2) by blast
next
  case (accept h msg h')
  from accept(3) show ?case
  proof
    assume "tp_running h"
    then show ?thesis by (rule tp_Accept_running[OF accept(2) _ assms(2)])
  next
    assume e: "tp_ended h"
    then show ?thesis using accept(2) tp_Accept_ended[OF e, of os msg] by simp
  qed
next
  case (listen h m h')
  then show ?case by (auto simp: tp_Listen_recv_def tp_running_def tp_ended_def split: list.split_asm)
next
  case (stop h h')
  then show ?case using tp_Stop_guard[of h os] by auto
qed

section \<open>The loop ends\<close>

text \<open>The numbers of the rounds increase up to the last one.\<close>

definition rounds_increase :: "('r, 'c, 'res) round_ops \<Rightarrow> nat \<Rightarrow> bool" where
  "rounds_increase os F \<longleftrightarrow> (\<forall>r m r'. r_store os r m = Ret (Inr r') \<longrightarrow> r_number os r' = r_number os r) \<and>
     (\<forall>r cap r' out. r_finalize os r cap = Ret (Inr (Some (Live r'), out)) \<longrightarrow>
        unat (r_number os r) < unat (r_number os r') \<and> unat (r_number os r') \<le> F)"

lemma rounds_increaseD:
  "rounds_increase os F \<Longrightarrow> r_finalize os r cap = Ret (Inr (Some (Live r'), out)) \<Longrightarrow>
     unat (r_number os r) < unat (r_number os r') \<and> unat (r_number os r') \<le> F"
  unfolding rounds_increase_def by blast

lemma tp_verifyMessage_number:
  assumes "rounds_increase os F" and "tp_verifyMessage os msg h = Ret (e, h')"
  shows "s_number os (tp_round h') = s_number os (tp_round h)"
proof -
  have "s_number os s' = s_number os s" if "s_store os s rm = Ret (Inr s')" for s s' rm
    using assms(1) that by (cases s) (auto simp: rounds_increase_def elim!: obind_RetE map_sum_InrE)
  then show ?thesis
    using assms(2) by (auto simp: tp_verifyMessage_def Let_def elim!: obind_RetE split: option.split_asm sum.split_asm)
qed

lemma advance_step_number:
  assumes i: "rounds_increase os F" and s: "advance_step os h = Ret (True, h')"
  shows "unat (s_number os (tp_round h)) < unat (s_number os (tp_round h')) \<and> unat (s_number os (tp_round h')) \<le> F"
proof -
  obtain h1 n out where v: "tp_verifyMessage os (mget (tp_messages h) (s_number os (tp_round h))) h = Ret (None, h1)"
    and f: "s_finalize os (tp_round h1) 1 = Ret (Inr (Some (Live n), out))" and r: "tp_round h' = Live n"
    using s by (auto simp: advance_step_def Let_def elim!: obind_RetE
        split: option.split_asm sum.split_asm prod.split_asm session.split_asm)
  obtain x where x: "tp_round h1 = Live x" using f by (cases "tp_round h1") auto
  then show ?thesis using rounds_increaseD[OF i, of x 1 n out] f tp_verifyMessage_number[OF i v] r by simp
qed

lemma advance_returns:
  assumes "rounds_increase os F"
  shows "\<exists>y. advance os h = Some y"
proof (induction "F - unat (s_number os (tp_round h))" arbitrary: h rule: less_induct)
  case less
  show ?case
  proof (cases "canAdvance os h \<and> (\<exists>h'. advance_step os h = Ret (True, h'))")
    case True
    then obtain h' where h': "advance_step os h = Ret (True, h')" by blast
    have "F - unat (s_number os (tp_round h')) < F - unat (s_number os (tp_round h))"
      using advance_step_number[OF assms h'] by linarith
    from less[OF this] show ?thesis using True h' by (subst advance.simps) simp
  next
    case False
    then show ?thesis by (subst advance.simps) (auto split: outcome.split)
  qed
qed

theorem accept_returns: "rounds_increase os F \<Longrightarrow> \<exists>y. tp_Accept os msg h = Some y"
  using advance_returns[of os F] by (auto simp: tp_Accept_def split: option.split)

end
