(* ===== verification/Spec2Isabelle.thy ===== *)
theory Spec2Isabelle
  imports Echo Blame FrostLive ServiceRun GroupProofs Ecdsa TwoParty
begin

text \<open>
  Verification of the threshold-signature library: the FROST protocols, the protocol engine that runs
  them and the cryptographic components below them.

  Parts of the program and where they are modelled (paths under \<open>src/\<close>):

  \<^item> \<open>Prelude\<close>: bytes, Go maps as association lists, \<open>outcome\<close> (a call returns, panics or blocks) and
    errors as values.
  \<^item> \<open>Party\<close>: \<open>pkg/party\<close>. Identifiers and sorted slices of them.
  \<^item> \<open>Curve\<close>, \<open>CurveInstance\<close>: \<open>pkg/math/curve\<close>. The arithmetic of the imported libraries is the
    record \<open>curve\<close>, its documented laws the locale \<open>curve_laws\<close>; encodings, \<open>LiftX\<close>, \<open>FromHash\<close> are
    defined on top. \<open>CurveInstance\<close> fulfils the laws with a group of thirteen elements.
  \<^item> \<open>Hash\<close>: \<open>pkg/hash\<close>, \<open>internal/types\<close>. A hash state is the string of bytes absorbed; blake3 is an
    argument of type \<open>xof\<close>.
  \<^item> \<open>Interpolation\<close>, \<open>Polynomial\<close>: \<open>pkg/math/polynomial\<close>, over an interpolation theorem by divided
    differences.
  \<^item> \<open>Schnorr\<close>, \<open>Taproot\<close>: \<open>pkg/zk/sch\<close>, \<open>pkg/math/sample\<close>, \<open>pkg/taproot\<close>.
  \<^item> \<open>Round\<close>: \<open>internal/round\<close>. Sessions and the interface of a round as a record of operations.
  \<^item> \<open>Handler\<close>, \<open>HandlerInv\<close>, \<open>Echo\<close>, \<open>Blame\<close>: \<open>pkg/protocol\<close>. The handler is a record, each method a function
    on it; \<open>reachable\<close> are the handlers after any sequence of calls. \<open>finalize\<close> recurses as in the
    code; it ends because every recursion enters a round not visited before. The locale
    \<open>round_protocol\<close> is the contract a protocol's rounds fulfil, from which the handler invariant and
    the echo-broadcast guarantee follow. \<open>Blame\<close> shows for every protocol which errors name no culprit.
  \<^item> \<open>FrostKeygen\<close>: \<open>protocols/frost/keygen\<close>. Shown to fulfil \<open>round_protocol\<close> by a \<open>sublocale\<close>, so that
    every result of key generation or refresh, against arbitrary messages of the other parties, is a
    consistent configuration. \<open>KeygenDegree\<close> shows what a commitment of the wrong degree does; \<open>KeygenRun\<close>
    evaluates complete executions.
  \<^item> \<open>FrostSign\<close>: \<open>protocols/frost/sign\<close> and \<open>protocols/frost/frost.go\<close>. Signing fulfils the same contract:
    with a consistent configuration the responses that pass the check add up to a signature that
    verifies. \<open>SignRun\<close> evaluates complete executions.
  \<^item> \<open>Liveness\<close>, \<open>FrostLive\<close>: progress of the engine. The locale \<open>live_protocol\<close> adds to the contract how many
    messages a round may still send; key generation and signing fulfil it, hence no call blocks on the
    output channel and a handler at rest waits for a message of another party.
  \<^item> \<open>TwoParty\<close>: the handler for two parties. Its loop is a partial function, shown to return when the
    numbers of the rounds increase; a handler in use is running or has ended with a closed channel.
  \<^item> \<open>Ecdsa\<close>: \<open>pkg/ecdsa\<close>. Shares of a presignature that pass the check combine to a valid signature, and
    the check names exactly the signers with a wrong share; \<open>SigEthereum\<close> changes the signature to an
    equivalent one with a low \<open>S\<close>.
  \<^item> \<open>GroupProofs\<close>: \<open>internal/elgamal\<close>, \<open>pkg/zk/log\<close>, \<open>pkg/zk/elog\<close>. Both proofs are complete and specially sound.
  \<^item> \<open>Encoding\<close>, \<open>Utf8\<close>, \<open>KeygenConfig\<close>: base 64, trimming and valid text of Go's library;
    \<open>protocols/frost/keygen/config.go\<close>, \<open>taproot_codec.go\<close>, \<open>internal/bip32\<close>. Derived keys are consistent, stored
    shares are read back. The CBOR codec is assumed to keep valid UTF-8 text only.
  \<^item> \<open>KeygenService\<close>, \<open>ServiceRun\<close>: \<open>schnorrimpl\<close> and \<open>protocols/frost/keygen/service.go\<close>, the services which
    run key generation call by call. Every execution of a service in use has a handler reachable by
    calls of the engine, which carries the guarantees of \<open>FrostKeygen\<close> over to the shares they report.

  Mutable Go objects are values here: the rounds are records which extend one another as the Go structs
  embed one another, and a method returns the updated record. Randomness, the order of iteration over Go
  maps, CBOR encodings, blake3 and sha256 are arguments. Two aliases of the code are therefore not seen:
  the private share handed to a refresh is changed in place by the last round, and the hash passed to a
  Schnorr proof has absorbed its statement afterwards; no caller modelled here uses either again.

  This theory holds the properties that span components.

  Not modelled: the CMP and Doerner protocols and what only they use (Paillier, Pedersen parameters,
  oblivious transfer, the zero-knowledge proofs about Paillier ciphertexts), the thread pool, the example program and test
  helpers; timing, goroutine scheduling and locks.
\<close>

section \<open>Key generation\<close>

text \<open>C2: Whatever the other parties send, in whatever order, when a handler started for a fresh FROST key
  generation gives a result, then the configuration is of the kind asked for, names this party and the
  threshold, has a verification share for exactly the participants, its private share matches its own
  verification share, and public key and verification shares lie on one polynomial of degree
  \<open>threshold\<close> in the exponent.\<close>

theorem keygen_result_consistent:
  assumes "curve_laws C" and "\<And>q. set (order q) = set q"
    and "StartKeygenCommon C b3 taproot participants t self [] (None, None) sid = (captured, Inr r)"
    and "reachable (kg_runtime C b3 codec rnd order) (Live (Kg1 r)) h" and "Result h = Inr res"
  shows "case res of
      KgConfig cfg \<Rightarrow> \<not> taproot \<and> config_ok C cfg \<and> cfg_ID cfg = self \<and> cfg_Threshold cfg = t \<and>
        set (mkeys (cfg_VerificationShares cfg)) = set participants
    | KgTaproot cfg \<Rightarrow> taproot \<and> tap_config_ok C cfg \<and> tap_ID cfg = self \<and> tap_Threshold cfg = t \<and>
        set (mkeys (tap_VerificationShares cfg)) = set participants"
proof -
  note s = curve_laws.StartKeygen_fresh[OF assms(1,3)]
  have "kg_result_ok C r res"
    by (rule frost_keygen.keygen_result[OF frost_keygenI[OF assms(1,2)] assms(4) _ assms(5)]) (simp add: s)
  then show ?thesis using s by (cases res) auto
qed

theorem keygen_result_consistent_witness: "config_ok curve13 run_config"
proof (rule run_result)
  fix h assume h: "reachable run_rt_good (Live (Kg1 (run_round1 ''a''))) h" "Result h = Inr (KgConfig run_config)"
  show ?thesis
    using keygen_result_consistent[OF curve13_laws refl run_start_a h(1)[unfolded run_rt_def] h(2)] by simp
qed

text \<open>C3: After key generation any set of participants larger than the threshold, with distinct non-zero
  scalars, reconstructs the public key: \<open>polynomial.Lagrange\<close> succeeds on it, and the verification shares
  weighted by the coefficients sum up to the public key.\<close>

theorem keygen_shares_reconstruct_key:
  assumes "curve_laws C" and "\<And>q. set (order q) = set q"
    and "StartKeygenCommon C b3 False participants t self [] (None, None) sid = (captured, Inr r)"
    and "reachable (kg_runtime C b3 codec rnd order) (Live (Kg1 r)) h" and "Result h = Inr (KgConfig cfg)"
    and "good_ids C ids" and "set ids \<subseteq> set participants" and "t < int (length ids)"
  shows "\<exists>ls. Lagrange ids = Ret ls \<and>
    (\<Sum>j\<leftarrow>ids. Act C (the (mget ls j)) (the (mget (cfg_VerificationShares cfg) j))) = cfg_PublicKey cfg"
proof -
  note s = curve_laws.StartKeygen_fresh[OF assms(1,3)]
  have ok: "kg_result_ok C r (KgConfig cfg)"
    by (rule frost_keygen.keygen_result[OF frost_keygenI[OF assms(1,2)] assms(4) _ assms(5)]) (simp add: s)
  have p: "poly_shares C (nat t) (cfg_PublicKey cfg) (cfg_VerificationShares cfg)"
    using ok s by (auto simp: config_ok_def)
  have k: "set ids \<subseteq> set (mkeys (cfg_VerificationShares cfg))" using ok s assms(7) by simp
  have "nat t < length ids" using assms(8) s(7) by linarith
  then have "(\<Sum>j\<leftarrow>ids. Act C (lambda_of C ids j) (the (mget (cfg_VerificationShares cfg) j)))
      = cfg_PublicKey cfg"
    by (rule curve_laws.poly_shares_interpolate[OF assms(1) p assms(6) _ k])
  then show ?thesis
    using Lagrange_eq[OF assms(6)] by (simp add: map_of_graph cong: map_cong)
qed

theorem keygen_shares_reconstruct_key_witness:
  "\<exists>ls. Lagrange [''a'', ''b''] = Ret ls \<and> (\<Sum>j\<leftarrow>[''a'', ''b''].
     Act curve13 (the (mget ls j)) (the (mget (cfg_VerificationShares run_config) j))) = cfg_PublicKey run_config"
proof (rule run_result)
  fix h assume h: "reachable run_rt_good (Live (Kg1 (run_round1 ''a''))) h" "Result h = Inr (KgConfig run_config)"
  have "good_ids curve13 [''a'', ''b'']" using scalars13_ab by (simp add: good_ids_def)
  then show ?thesis
    by (rule keygen_shares_reconstruct_key[OF curve13_laws refl run_start_a h(1)[unfolded run_rt_def] h(2)]) simp_all
qed

text \<open>C6: A refresh keeps the public key and the threshold, and gives shares consistent with it, whatever the
  other parties send.\<close>

theorem refresh_keeps_public_key:
  assumes "curve_laws C" and "\<And>q. set (order q) = set q"
    and "StartKeygenCommon C b3 False participants (cfg_Threshold old) (cfg_ID old) (cfg_VerificationShares old)
      (Some (cfg_PrivateShare old), Some (cfg_PublicKey old)) sid = (captured, Inr r)"
    and "config_ok C old"
    and "reachable (kg_runtime C b3 codec rnd order) (Live (Kg1 r)) h" and "Result h = Inr (KgConfig new)"
  shows "config_ok C new \<and> cfg_PublicKey new = cfg_PublicKey old \<and> cfg_ID new = cfg_ID old \<and>
    cfg_Threshold new = cfg_Threshold old \<and>
    mkeys (cfg_VerificationShares new) = mkeys (cfg_VerificationShares old)"
proof -
  have "poly_shares C (nat (cfg_Threshold old)) (cfg_PublicKey old) (cfg_VerificationShares old)"
    "mget (cfg_VerificationShares old) (cfg_ID old) = Some (ActOnBase C (cfg_PrivateShare old))"
    using assms(4) by (simp_all add: config_ok_def)
  note s = curve_laws.StartKeygen_refresh[OF assms(1,3) this]
  have "kg_result_ok C r (KgConfig new)"
    by (rule frost_keygen.keygen_result[OF frost_keygenI[OF assms(1,2)] assms(5) s(1) assms(6)])
  then show ?thesis using s by simp
qed

theorem refresh_keeps_public_key_witness: "config_ok curve13 run_refreshed \<and> cfg_PublicKey run_refreshed = 7"
proof (rule run_refresh_result)
  fix h assume h: "reachable run_rt_refresh (Live (Kg1 run_refresh1)) h" "Result h = Inr (KgConfig run_refreshed)"
  show ?thesis
    using refresh_keeps_public_key[OF curve13_laws refl _ _ h(1)[unfolded run_rt_def] h(2),
        where old = run_config] run_start_refresh run_config_ok by simp
qed

text \<open>C37: Key generation does not check the degree of the polynomials it receives. If a handler in round 3 holds a
  commitment, of any participant, whose degree is not the threshold, then accepting the last message of
  the round makes it panic.\<close>

theorem keygen_degree_panic:
  assumes "curve_laws C" and "\<And>q. set (order q) = set q"
    and "StartKeygenCommon C b3 taproot participants t self [] (None, None) sid = (captured, Inr r)"
    and "reachable (kg_runtime C b3 codec rnd order) (Live (Kg1 r)) h"
    and "completes (kg_runtime C b3 codec rnd order) m h h'" and "currentRound h' = Live (Kg3 r3)"
    and "mget (kg_Phi r3) l = Some phi" and "Exponent_Degree phi \<noteq> t"
  shows "Accept (kg_runtime C b3 codec rnd order) (Some m) h = Panic"
proof -
  note s = curve_laws.StartKeygen_fresh[OF assms(1,3)]
  note c = frost_keygen.completes_committed[OF frost_keygenI[OF assms(1,2)] assms(4) s(1) assms(5,6)]
  have "kg_round3_Finalize C r3 = Panic"
    by (rule kg_degree_panic[OF c(1) _ assms(7)]) (use c(2) s assms(8) in simp_all)
  then show ?thesis by (intro completes_panic[OF assms(5)]) (simp add: assms(6) kg_runtime_def)
qed

theorem keygen_degree_panic_witness:
  "\<exists>h. reachable run_rt_long (Live (Kg1 (run_round1 ''a''))) h \<and>
     Accept run_rt_long (Some (run_msg ''b'' 3 False)) h = Panic"
proof (rule run_long_step)
  fix h h' r3
  assume h: "reachable run_rt_long (Live (Kg1 (run_round1 ''a''))) h"
    "completes run_rt_long (run_msg ''b'' 3 False) h h'" "currentRound h' = Live (Kg3 r3)"
    "mget (kg_Phi r3) ''b'' = Some \<lparr>IsConstant = False, coefficients = [4, 6, 1]\<rparr>"
  have "Accept run_rt_long (Some (run_msg ''b'' 3 False)) h = Panic"
    using keygen_degree_panic[OF curve13_laws refl run_start_a h(1)[unfolded run_rt_def] h(2)[unfolded run_rt_def] h(3,4)]
    by (simp add: Exponent_Degree_def run_rt_def)
  then show ?thesis using h(1) by blast
qed

text \<open>C38: The function \<open>StartKeygenCommon\<close> returns cannot be started twice: the first start assigns the
  captured key variables, so the second one is taken for a refresh of the identity key, without any
  verification shares.\<close>

theorem start_func_not_reusable:
  assumes "StartKeygenCommon C b3 taproot participants t self [] (None, None) sid = (captured, Inr r)"
  shows "\<exists>r'. StartKeygenCommon C b3 taproot participants t self [] captured sid = (captured, Inr r') \<and>
    \<not> kg_refresh r \<and> kg_refresh r' \<and> kg_publicKey r' = 0 \<and> kg_verificationShares r' = []"
  using assms by (cases taproot) (auto simp: StartKeygenCommon_def Let_def split: sum.splits)

theorem start_func_not_reusable_witness:
  "\<exists>r'. StartKeygenCommon curve13 run_b3 False [''a'', ''b''] 1 ''a'' [] (Some 0, Some 0) None
     = ((Some 0, Some 0), Inr r') \<and> \<not> kg_refresh (run_round1 ''a'') \<and> kg_refresh r' \<and>
     kg_publicKey r' = 0 \<and> kg_verificationShares r' = []"
  by (rule start_func_not_reusable[OF run_start_a])

section \<open>Signing\<close>

text \<open>C1: A key generated by the protocol signs. Take the configuration any handler got out of a FROST key
  generation and sign with it, among signers with usable identifiers, against arbitrary messages of the
  others: the handler never enters the abort round, an error it reports names a culprit unless the check
  of the broadcast hashes failed, and a result is a signature that verifies under the public key.\<close>

theorem generated_key_signs:
  assumes "curve_laws C" and "\<And>q. set (ord1 q) = set q" and "\<And>q. set (ord2 q) = set q"
    and "\<And>x. length (so_sha256 orc x) = 32"
    and "StartKeygenCommon C b3 False participants t self [] (None, None) sid = (captured, Inr rk)"
    and "reachable (kg_runtime C b3 kcodec rnd ord1) (Live (Kg1 rk)) hk" and "Result hk = Inr (KgConfig cfg)"
    and "frost_Sign C b3 cfg signers m sid' = Inr r" and "good_ids C (NewIDSlice signers)"
    and "reachable (sg_runtime C b3 codec orc ord2) (Live (Sg1 r)) h"
  shows "(\<forall>hp e cs. currentRound h \<noteq> AbortRound hp e cs) \<and>
    (\<forall>e. h_err h = Some e \<longrightarrow> Culprits e = [] \<longrightarrow> pe_Err e = Err ''broadcast verification failed'') \<and>
    (\<forall>res. Result h = Inr res \<longrightarrow> (\<exists>R z. res = SgSignature R z \<and> Signature_Verify C b3 R z (cfg_PublicKey cfg) m))"
proof -
  note s = curve_laws.StartKeygen_fresh(1)[OF assms(1,5)]
  have "kg_result_ok C rk (KgConfig cfg)"
    by (rule frost_keygen.keygen_result[OF frost_keygenI[OF assms(1,2)] assms(6) s assms(7)])
  then have "config_ok C cfg" by simp
  note o = curve_laws.StartSign_ok[OF assms(1) assms(8)[unfolded frost_Sign_def] this assms(9), simplified]
  note f = frost_sign.sign_final[OF frost_signI[OF assms(1,3,4)] assms(10) o(1)]
  have "\<exists>R z. res = SgSignature R z \<and> Signature_Verify C b3 R z (cfg_PublicKey cfg) m" if "Result h = Inr res" for res
    using f(2)[OF that] o by (cases res) auto
  moreover have "currentRound h \<noteq> AbortRound hp e cs" for hp e cs
    using f(1) o(2) by (cases "currentRound h") auto
  ultimately show ?thesis using no_culprit[OF assms(10)] by blast
qed

theorem generated_key_signs_witness: "Signature_Verify curve13 run_b3 4 11 7 (Some [])"
proof (rule run_result, rule srun_result)
  fix hk h
  assume k: "reachable run_rt_good (Live (Kg1 (run_round1 ''a''))) hk" "Result hk = Inr (KgConfig run_config)"
    and h: "reachable (srun_rt 1 1 5) (Live (Sg1 srun_round1)) h" "Result h = Inr (SgSignature 4 11)"
  have g: "good_ids curve13 (NewIDSlice [''a'', ''b''])"
    using scalars13_ab by (simp add: good_ids_def NewIDSlice_def)
  show ?thesis
    using generated_key_signs[OF curve13_laws refl refl srun_sha run_start_a k(1)[unfolded run_rt_def] k(2)
        srun_start[folded frost_Sign_def] g h(1)[unfolded srun_rt_def]] h(2) by simp
qed

text \<open>C5: The same for taproot keys: whatever the others send, a result of signing with a generated taproot
  key is a BIP-340 signature valid under the generated public key.\<close>

theorem generated_taproot_key_signs:
  assumes "curve_laws C" and "\<And>q. set (ord1 q) = set q" and "\<And>q. set (ord2 q) = set q"
    and "\<And>x. length (so_sha256 orc x) = 32"
    and "StartKeygenCommon C b3 True participants t self [] (None, None) sid = (captured, Inr rk)"
    and "reachable (kg_runtime C b3 kcodec rnd ord1) (Live (Kg1 rk)) hk" and "Result hk = Inr (KgTaproot cfg)"
    and "tap_PublicKey cfg \<noteq> XBytes C 0"
    and "frost_SignTaproot C b3 cfg signers m sid' = Inr r" and "good_ids C (NewIDSlice signers)"
    and "reachable (sg_runtime C b3 codec orc ord2) (Live (Sg1 r)) h" and "Result h = Inr res"
  shows "\<exists>sig. res = SgTaproot sig \<and> PublicKey_Verify C (so_sha256 orc) (tap_PublicKey cfg) sig (nil_bytes m)"
proof -
  note s = curve_laws.StartKeygen_fresh(1)[OF assms(1,5)]
  have "kg_result_ok C rk (KgTaproot cfg)"
    by (rule frost_keygen.keygen_result[OF frost_keygenI[OF assms(1,2)] assms(6) s assms(7)])
  then have "tap_config_ok C cfg" by simp
  note o = curve_laws.SignTaproot_ok[OF assms(1) assms(9) this assms(8,10)]
  show ?thesis
    using frost_sign.sign_final(2)[OF frost_signI[OF assms(1,3,4)] assms(11) o(1) assms(12)] o by (cases res) auto
qed

theorem generated_taproot_key_signs_witness:
  "PublicKey_Verify curve13 (so_sha256 srun_orc) (XBytes curve13 6)
     (XBytes curve13 8 @ Scalar_MarshalBinary curve13 11) (nil_bytes (Some []))"
proof (rule trun_result, rule tsrun_result)
  fix hk h
  assume k: "reachable run_rt_good (Live (Kg1 trun_round1)) hk" "Result hk = Inr (KgTaproot trun_config)"
    and h: "reachable (srun_rt 5 1 4) (Live (Sg1 tsrun_round1)) h"
      "Result h = Inr (SgTaproot (XBytes curve13 8 @ Scalar_MarshalBinary curve13 11))"
  have g: "good_ids curve13 (NewIDSlice [''a'', ''b''])"
    using scalars13_ab by (simp add: good_ids_def NewIDSlice_def)
  have "XBytes curve13 6 \<noteq> XBytes curve13 0" by code_simp
  then have "tap_PublicKey trun_config \<noteq> XBytes curve13 0" by simp
  from generated_taproot_key_signs[OF curve13_laws refl refl srun_sha trun_start k(1)[unfolded run_rt_def] k(2) this
      tsrun_start g h(1)[unfolded srun_rt_def] h(2)] show ?thesis by simp
qed

section \<open>The protocol engine\<close>

text \<open>C7: Echo broadcast. Two handlers of one key generation session, of any two parties: if the first has
  left round 3 and one of the round 3 messages it holds carries the hash the second computed over the
  broadcasts of round 2, then both hold the same round 2 broadcasts from every participant, or the two
  transcripts or two of the messages are a collision of the hash.\<close>

theorem echo_broadcast_agreement:
  assumes "curve_laws C" and "\<And>q. set (ord1 q) = set q" and "\<And>q. set (ord2 q) = set q"
    and "StartKeygenCommon C b3 taproot participants t a [] (None, None) sid = (captured1, Inr r1)"
    and "StartKeygenCommon C b3 taproot participants t b [] (None, None) sid = (captured2, Inr r2)"
    and "reachable (kg_runtime C b3 codec rnd1 ord1) (Live (Kg1 r1)) h1"
    and "reachable (kg_runtime C b3 codec rnd2 ord2) (Live (Kg1 r2)) h2"
    and "mget (broadcastHashes h1) 2 = Some x1" and "mget (broadcastHashes h2) 2 = Some x2"
    and "3 \<in> set (mkeys (rounds h1))"
    and "s_number (ops (kg_runtime C b3 codec rnd1 ord1)) (currentRound h1) \<noteq> 3"
    and "qget (queue_of bc h1) 3 i = Some m" and "BroadcastVerification m = Some x2"
  shows "collision b3
      (broadcast_transcript b3 (hstate (kg_Helper r1)) (broadcast h1) 2 (partyIDs (kg_Helper r1)))
      (broadcast_transcript b3 (hstate (kg_Helper r1)) (broadcast h2) 2 (partyIDs (kg_Helper r1)))
    \<or> same_broadcasts b3 (partyIDs (kg_Helper r1)) 2 h1 h2"
proof -
  note s1 = curve_laws.StartKeygen_fresh(1)[OF assms(1,4)] and s2 = curve_laws.StartKeygen_fresh(1)[OF assms(1,5)]
  note k1 = frost_keygen.keygen_inv[OF frost_keygenI[OF assms(1,2)] assms(6) s1]
  note k2 = frost_keygen.keygen_inv[OF frost_keygenI[OF assms(1,3)] assms(7) s2]
  obtain p1 where p1: "mget (rounds h1) 2 = Some p1" using k1(1) assms(8) unfolding hash_inv_def by blast
  obtain p2 where p2: "mget (rounds h2) 2 = Some p2" using k2(1) assms(9) unfolding hash_inv_def by blast
  have same: "partyIDs (kg_Helper r2) = partyIDs (kg_Helper r1)" "hstate (kg_Helper r2) = hstate (kg_Helper r1)"
    using StartKeygen_same_session[OF assms(4,5)] by simp_all
  show ?thesis
    by (rule echo_agreement[OF k1(1,2) k2(1) _ _ p1 p2 _ _ _ _ assms(8,9) _ _ _ _ assms(13), of _ _ _ bc i])
      (use assms(10-12) k1(3)[OF p1] k2(3)[OF p2] same in \<open>simp_all add: kg_runtime_def\<close>)
qed

theorem echo_broadcast_agreement_witness:
  "\<exists>h1 h2 :: run_handler.
     collision run_b3
       (broadcast_transcript run_b3 (hstate (kg_Helper (run_round1 ''a''))) (broadcast h1) 2 (partyIDs (kg_Helper (run_round1 ''a''))))
       (broadcast_transcript run_b3 (hstate (kg_Helper (run_round1 ''a''))) (broadcast h2) 2 (partyIDs (kg_Helper (run_round1 ''a''))))
     \<or> same_broadcasts run_b3 (partyIDs (kg_Helper (run_round1 ''a''))) 2 h1 h2"
proof (rule run_result, rule run_result_b)
  fix h1 h2
  assume h1: "reachable run_rt_good (Live (Kg1 (run_round1 ''a''))) h1" "3 \<in> set (mkeys (rounds h1))"
      "s_number (ops run_rt_good) (currentRound h1) = 0" "mget (broadcastHashes h1) 2 = Some (run_unit @ run_unit)"
      "qget (broadcast h1) 3 ''b'' = Some (run_msg ''b'' 3 True)"
    and h2: "reachable run_rt_good (Live (Kg1 (run_round1 ''b''))) h2"
      "mget (broadcastHashes h2) 2 = Some (run_unit @ run_unit)"
  have "qget (queue_of True h1) 3 ''b'' = Some (run_msg ''b'' 3 True)" using h1(5) by (simp add: queue_of_def)
  moreover have "s_number (ops (kg_runtime curve13 run_b3 (run_codec \<lparr>IsConstant = False, coefficients = [4, 6]\<rparr> 1)
      run_rand (\<lambda>q. q))) (currentRound h1) \<noteq> 3" using h1(3) by (simp add: run_rt_def)
  moreover have "BroadcastVerification (run_msg ''b'' 3 True) = Some (run_unit @ run_unit)"
    by (simp add: run_msg_def)
  ultimately show ?thesis
    using echo_broadcast_agreement[OF curve13_laws refl refl run_start_a run_start_b
        h1(1)[unfolded run_rt_def] h2(1)[unfolded run_rt_def] h1(4) h2(2) h1(2)] by blast
qed

text \<open>C8: For every protocol that fulfils the contract of its rounds, a reachable handler is either running,
  with its output channel open and neither result nor error, or has ended with exactly one of the two
  and a closed channel, and then ignores every further message.\<close>

theorem handler_lifecycle:
  assumes "round_protocol rt good gotB gotM final_ok" and "reachable rt (Live r) h"
    and "good r" and "r_number (ops rt) r = 1"
  shows "(h_outclosed h \<longleftrightarrow> finished h) \<and> (finished h \<longleftrightarrow> (h_err h = None) \<noteq> (h_result h = None)) \<and>
    (finished h \<longrightarrow> (\<forall>msg. Accept rt msg h = Ret h))"
proof -
  have "finished h \<Longrightarrow> Accept rt msg h = Ret h" for msg
    using Accept_ignored[of h "the msg" rt] by (cases msg) (simp_all add: Accept_def CanAccept_def)
  then show ?thesis
    using round_protocol.inv_reachable[OF assms]
    by (auto simp: handler_inv_def running_def ended_def finished_def)
qed

theorem handler_lifecycle_witness:
  "\<exists>h. reachable run_rt_good (Live (Kg1 (run_round1 ''a''))) h \<and> finished h \<and> h_outclosed h"
proof (rule run_result)
  fix h assume h: "reachable run_rt_good (Live (Kg1 (run_round1 ''a''))) h" "Result h = Inr (KgConfig run_config)"
  have b: "kg_base curve13 (run_round1 ''a'') (run_round1 ''a'')"
    by (rule curve_laws.StartKeygen_fresh(1)[OF curve13_laws run_start_a])
  have "finished h" using h(2) by (auto simp: Result_def finished_def split: option.splits)
  then show ?thesis
    using handler_lifecycle[OF run.kg.round_protocol_axioms h(1)[unfolded run_rt_def], of "run_round1 ''a''"] b h(1)
    by (auto simp: kg_runtime_def)
qed

text \<open>C36: \<open>Stop\<close> has its guard inverted: it leaves a running handler as it is, and panics on one that has
  ended, because the output channel is closed already.\<close>

theorem stop_guard_inverted:
  assumes "round_protocol rt good gotB gotM final_ok" and "reachable rt (Live r) h"
    and "good r" and "r_number (ops rt) r = 1"
  shows "Stop rt h = (if finished h then Panic else Ret h)"
proof (cases "finished h")
  case True
  then have "h_outclosed h"
    using round_protocol.inv_reachable[OF assms] by (auto simp: handler_inv_def running_def ended_def)
  then show ?thesis using True by (auto simp: Stop_def finished_def abort_closed)
qed (simp add: Stop_def finished_def)

theorem stop_guard_inverted_witness:
  "\<exists>h. reachable run_rt_good (Live (Kg1 (run_round1 ''a''))) h \<and> Stop run_rt_good h = Panic"
proof (rule run_result)
  fix h assume h: "reachable run_rt_good (Live (Kg1 (run_round1 ''a''))) h" "Result h = Inr (KgConfig run_config)"
  have b: "kg_base curve13 (run_round1 ''a'') (run_round1 ''a'')"
    by (rule curve_laws.StartKeygen_fresh(1)[OF curve13_laws run_start_a])
  have "finished h" using h(2) by (auto simp: Result_def finished_def split: option.splits)
  then show ?thesis
    using stop_guard_inverted[OF run.kg.round_protocol_axioms h(1)[unfolded run_rt_def], of "run_round1 ''a''"] b h(1)
    by (auto simp: kg_runtime_def run_rt_def)
qed

text \<open>C32: Delivering a message a second time has no effect.\<close>

theorem accept_idempotent:
  assumes "Accept rt msg h = Ret h'"
  shows "Accept rt msg h' = Ret h'"
proof (cases msg)
  case (Some m)
  then show ?thesis
    using Accept_leaves_trace[of rt m h h'] Accept_ignored[of h' m rt] assms by (cases "h' = h") auto
qed (use assms in \<open>simp add: Accept_def CanAccept_def\<close>)

theorem accept_idempotent_witness:
  "\<exists>h h'. Accept run_rt_good (Some (run_msg ''a'' 2 True)) h = Ret h' \<and> h' \<noteq> h \<and>
     Accept run_rt_good (Some (run_msg ''a'' 2 True)) h' = Ret h'"
proof (rule run_result_b)
  fix h0 h assume h: "Accept run_rt_good (Some (run_msg ''a'' 2 True)) h0 = Ret h"
    "broadcastHashes h0 = []" "mget (broadcastHashes h) 2 = Some (run_unit @ run_unit)"
  have "h \<noteq> h0" using h(2,3) by auto
  then show ?thesis using h(1) accept_idempotent[OF h(1)] by blast
qed

text \<open>C33: A message once stored stays: later messages, with whatever content, never replace what a party has
  said in a round, so equivocation to one handler has no effect.\<close>

theorem stored_messages_stay:
  assumes "Accept rt msg h = Ret h'" and "qget (queue_of b h) n i = Some m"
  shows "qget (queue_of b h') n i = Some m"
  using Accept_hext[OF assms(1)] assms(2) by (cases b) (auto simp: hext_def qext_def queue_of_def)

theorem stored_messages_stay_witness:
  "\<exists>h. Accept run_rt_good (Some ((run_msg ''a'' 2 True)\<lparr>Data := Some [1]\<rparr>)) h = Ret h \<and>
     qget (queue_of True h) 2 ''a'' = Some (run_msg ''a'' 2 True)"
proof (rule run_result_b)
  fix h0 h assume h: "Accept run_rt_good (Some (run_msg ''a'' 2 True)) h0 = Ret h"
    "qget (broadcast h) 2 ''a'' = Some (run_msg ''a'' 2 True)"
  let ?m = "(run_msg ''a'' 2 True)\<lparr>Data := Some [1]\<rparr>"
  have "duplicate h ?m"
    using h(2) by (simp add: duplicate_def run_msg_def queue_of_def qget_def split: option.splits)
  then have "Accept run_rt_good (Some ?m) h = Ret h" by (simp add: Accept_ignored)
  then show ?thesis
    using stored_messages_stay[of run_rt_good "Some ?m" h h True 2 "''a''"] h(2) by (auto simp: queue_of_def)
qed

text \<open>C34: A handler ignores messages that are not of its session: one addressed to somebody else, of another
  protocol or session, from outside the party set, without data, beyond the last round or for a round
  already left changes nothing. A message for a later round of the session is put in its queue or
  ignored, and changes nothing else.\<close>

theorem foreign_messages_ignored:
  assumes "hp = s_helper (ops rt) (currentRound h)" and "Valid (partyIDs hp)"
  shows "(\<not> IsFor m (SelfID (info hp)) \<or> Protocol m \<noteq> ProtocolID (info hp) \<or> \<not> bytes_Equal (SSID m) (ssid hp) \<or>
      From m \<notin> set (partyIDs hp) \<or> Data m = None \<or> FinalRoundNumber (info hp) < RoundNumber m \<or>
      (0 < RoundNumber m \<and> RoundNumber m < s_number (ops rt) (currentRound h)) \<longrightarrow> Accept rt (Some m) h = Ret h) \<and>
    (s_number (ops rt) (currentRound h) < RoundNumber m \<longrightarrow>
       Accept rt (Some m) h = Ret h \<or> Accept rt (Some m) h = Ret (store m h))"
proof (intro conjI impI)
  assume "\<not> IsFor m (SelfID (info hp)) \<or> Protocol m \<noteq> ProtocolID (info hp) \<or> \<not> bytes_Equal (SSID m) (ssid hp) \<or>
      From m \<notin> set (partyIDs hp) \<or> Data m = None \<or> FinalRoundNumber (info hp) < RoundNumber m \<or>
      (0 < RoundNumber m \<and> RoundNumber m < s_number (ops rt) (currentRound h))"
  then have "\<not> CanAccept rt h (Some m)"
    using assms(2) Contains_set[OF assms(2), of "[From m]"] unfolding CanAccept_def assms(1)
    by (auto simp: Let_def)
  then show "Accept rt (Some m) h = Ret h" by (simp add: Accept_def)
qed (auto simp: Accept_def Let_def)

theorem foreign_messages_ignored_witness:
  "\<exists>h. reachable run_rt_good (Live (Kg1 (run_round1 ''b''))) h \<and>
     Accept run_rt_good (Some ((run_msg ''a'' 3 True)\<lparr>Data := None\<rparr>)) h = Ret h"
proof (rule run_result_b)
  fix h0 h assume h: "reachable run_rt_good (Live (Kg1 (run_round1 ''b''))) h"
    "Valid (partyIDs (s_helper (ops run_rt_good) (currentRound h)))"
  show ?thesis
    using h(1) foreign_messages_ignored[OF refl h(2), of "(run_msg ''a'' 3 True)\<lparr>Data := None\<rparr>"] by auto
qed

text \<open>C35: \<open>NewSession\<close> only makes sessions whose party identifiers are distinct and non-empty in number, contain
  our own, and exceed the threshold; the parties are sorted and the others are all but ourselves.\<close>

theorem new_session_checks:
  assumes "NewSession b3 nfo sid aux = Inr hp"
  shows "distinct (PartyIDs nfo) \<and> SelfID nfo \<in> set (PartyIDs nfo) \<and> 0 \<le> Threshold nfo \<and>
    Threshold nfo < int (length (PartyIDs nfo)) \<and> sorted (partyIDs hp) \<and>
    set (partyIDs hp) = set (PartyIDs nfo) \<and> set (otherPartyIDs hp) = set (PartyIDs nfo) - {SelfID nfo}"
proof -
  note n = NewSession_rejects[OF assms]
  have "sorted (partyIDs hp)" using NewSession_ok(1)[OF assms] by (simp add: session_ok_def Valid_sorted_distinct)
  then show ?thesis using n NewSession_ok[OF assms] by (auto simp: session_ok_def set_NewIDSlice)
qed

theorem new_session_checks_witness:
  "\<exists>hp :: Helper. set (partyIDs hp) = {''b'', ''a''} \<and> set (otherPartyIDs hp) = {''b'', ''a''} - {''a''}"
proof -
  let ?n = "\<lparr>ProtocolID = ''p'', FinalRoundNumber = 3, SelfID = ''a'', PartyIDs = [''b'', ''a''], Threshold = 1, Group = None\<rparr>"
  have "\<not> isl (NewSession (\<lambda>_ _. 0) ?n None [])" by code_simp
  then obtain hp where "NewSession (\<lambda>_ _. 0) ?n None [] = Inr hp" by (cases "NewSession (\<lambda>_ _. 0) ?n None []") simp_all
  from new_session_checks[OF this] have "set (partyIDs hp) = {''b'', ''a''} \<and> set (otherPartyIDs hp) = {''b'', ''a''} - {''a''}"
    by (simp only: Info.simps list.set)
  then show ?thesis by (rule exI[of _ hp])
qed

section \<open>Progress\<close>

text \<open>C14: A key generation never stalls on its own. While the handler of a party has neither result nor error,
  it waits for another party: a message of the current round is missing from its queues. A call of it
  always comes back: the output channel has room even if nobody has received the earlier messages.\<close>

theorem keygen_waits_for_others:
  assumes "curve_laws C" and "\<And>q. set (order q) = set q"
    and "StartKeygenCommon C b3 taproot participants t self [] (None, None) sid = (captured, Inr r)"
    and "reachable (kg_runtime C b3 codec rnd order) (Live (Kg1 r)) h"
  shows "Accept (kg_runtime C b3 codec rnd order) msg h \<noteq> Blocked \<and>
    (finished h \<or> (\<exists>i\<in>set (otherPartyIDs (kg_Helper r)). missing (kg_runtime C b3 codec rnd order) h i))"
proof -
  note k = frost_keygenI[OF assms(1,2)]
  have g: "kg_good C r (Kg1 r)" using curve_laws.StartKeygen_fresh(1)[OF assms(1,3)] by simp
  have n: "r_number (ops (kg_runtime C b3 codec rnd order)) (Kg1 r) = 1" by (simp add: kg_runtime_def)
  show ?thesis
    using frost_keygen.kgl_calls_return[OF k assms(4) g n] frost_keygen.kgl_waits[OF k assms(4) g n]
    by (auto simp: kg_runtime_def)
qed

theorem keygen_waits_for_others_witness:
  "\<exists>h. NewMultiHandler run_rt_good (\<lambda>_. Inr (Live (Kg1 (run_round1 ''a'')))) None = Ret (Inr h) \<and>
     Accept run_rt_good None h \<noteq> Blocked \<and> (\<exists>i\<in>{''b''}. missing run_rt_good h i)"
proof -
  obtain h where h: "run_from run_rt_good (Kg1 (run_round1 ''a'')) [] = Ret h" "\<not> finished h"
    using run_waiting by (auto split: outcome.split_asm)
  have o: "otherPartyIDs (kg_Helper (run_round1 ''a'')) = [''b'']" by code_simp
  show ?thesis
    using keygen_waits_for_others[OF curve13_laws refl run_start_a run_reachable[OF h(1), unfolded run_rt_def], of None]
      h run_from_nil[OF h(1)] unfolding o run_rt_def by auto
qed

text \<open>C15: Every call of a handler that signs with a consistent key comes back: creating it and accepting any
  message return or panic, and never block, although the code sends on a channel of bounded capacity
  from within the call and finalizes as many rounds as the queued messages allow.\<close>

theorem sign_calls_return:
  assumes "curve_laws C" and "\<And>q. set (order q) = set q" and "\<And>x. length (so_sha256 orc x) = 32"
    and "config_ok C cfg" and "frost_Sign C b3 cfg signers m sid = Inr r" and "good_ids C (NewIDSlice signers)"
  shows "NewMultiHandler (sg_runtime C b3 codec orc order) (\<lambda>_. Inr (Live (Sg1 r))) sid \<noteq> Blocked \<and>
    (\<forall>h. reachable (sg_runtime C b3 codec orc order) (Live (Sg1 r)) h \<longrightarrow>
       (\<forall>msg. Accept (sg_runtime C b3 codec orc order) msg h \<noteq> Blocked))"
proof -
  note s = frost_signI[OF assms(1,2,3)]
  note o = curve_laws.StartSign_ok[OF assms(1) assms(5)[unfolded frost_Sign_def] assms(4,6), simplified]
  have g: "sg_good C b3 (so_sha256 orc) r (Sg1 r)" using o(1) by (simp add: sg_from_def)
  have n: "r_number (ops (sg_runtime C b3 codec orc order)) (Sg1 r) = 1" by (simp add: sg_runtime_def)
  have "NewMultiHandler (sg_runtime C b3 codec orc order) (\<lambda>_. Inr (Live (Sg1 r))) sid \<noteq> Blocked"
    by (rule frost_sign.sgl_New[OF s refl g n])
  then show ?thesis using frost_sign.sgl_calls_return[OF s _ g n] by blast
qed

theorem sign_calls_return_witness:
  "NewMultiHandler (srun_rt 1 1 5) (\<lambda>_. Inr (Live (Sg1 srun_round1))) None \<noteq> Blocked"
proof -
  have g: "good_ids curve13 (NewIDSlice [''a'', ''b''])"
    using scalars13_ab by (simp add: good_ids_def NewIDSlice_def)
  show ?thesis unfolding srun_rt_def
    using sign_calls_return[OF curve13_laws refl srun_sha run_config_ok srun_start[folded frost_Sign_def] g] by blast
qed

end
